(* ===== verification/Prelude.thy ===== *)
theory Prelude
  imports Main "HOL-Library.List_Lexorder" "HOL-Library.Char_ord" "HOL-Library.Product_Lexorder"
begin

text \<open>
  What every theory of the development shares: the named collections of simplification rules,
  the shape of a fallible program that threads a state (the result is an error on the left or
  a value on the right, with the state that remains in both cases, so an error keeps whatever
  effects came before it), fixed-width integer arithmetic, and the Go errors of the
  repository with \<open>errors.Is\<close>.
\<close>

named_theorems prog_simps \<open>symbolic execution of programs\<close>
named_theorems zset_simps \<open>scores of a sorted set after an update\<close>
named_theorems key_simps \<open>distinctness of the Redis keys of the program\<close>

section \<open>Programs with a state and an error\<close>

type_synonym ('e, 'a, 's) prog = "'s \<Rightarrow> ('e + 'a) \<times> 's"

definition ret :: "'a \<Rightarrow> ('e, 'a, 's) prog" where
  "ret x s = (Inr x, s)"

definition raise :: "'e \<Rightarrow> ('e, 'a, 's) prog" where
  "raise e s = (Inl e, s)"

definition thenM :: "('e, 'a, 's) prog \<Rightarrow> ('a \<Rightarrow> ('e, 'b, 's) prog) \<Rightarrow> ('e, 'b, 's) prog" where
  "thenM m f s = (case m s of (Inl e, s') \<Rightarrow> (Inl e, s') | (Inr x, s') \<Rightarrow> f x s')"

lemma ret_run [simp]: "ret x s = (Inr x, s)"
  by (simp add: ret_def)

lemma raise_run [simp]: "raise e s = (Inl e, s)"
  by (simp add: raise_def)

lemma thenM_ret [simp]: "thenM (ret x) f = f x"
  by (simp add: thenM_def fun_eq_iff)

lemma thenM_raise [simp]: "thenM (raise e) f = raise e"
  by (simp add: thenM_def fun_eq_iff)

lemma thenM_Inr: "fst (m s) = Inr x \<Longrightarrow> thenM m f s = f x (snd (m s))"
  by (cases "m s") (simp add: thenM_def)

lemma thenM_Inl: "fst (m s) = Inl e \<Longrightarrow> thenM m f s = (Inl e, snd (m s))"
  by (cases "m s") (simp add: thenM_def)

lemma thenM_run: "thenM m f r = (case fst (m r) of Inl e \<Rightarrow> (Inl e, snd (m r)) | Inr x \<Rightarrow> f x (snd (m r)))"
  by (simp add: thenM_def split: prod.splits sum.splits)

lemma thenM_assoc: "thenM (thenM m f) g = thenM m (\<lambda>x. thenM (f x) g)"
  by (rule ext) (auto simp: thenM_def split: prod.splits sum.splits)

lemma thenM_cases:
  obtains (err) e s' where "m s = (Inl e, s')" "thenM m f s = (Inl e, s')"
  | (ok) x s' where "m s = (Inr x, s')" "thenM m f s = f x s'"
  by (cases "m s"; cases "fst (m s)") (auto simp: thenM_def)

section \<open>Fixed-width integers\<close>

text \<open>
  Go's \<open>int8\<close>, \<open>int32\<close>, \<open>int64\<close> and \<open>int\<close> (64 bits here) as mathematical integers; a
  conversion or an addition that may overflow goes through \<open>wrap_int\<close>, which keeps the low
  bits of the two's complement representation.
\<close>

definition wrap_int :: "nat \<Rightarrow> int \<Rightarrow> int" where
  "wrap_int w n = (n + 2 ^ (w - 1)) mod 2 ^ w - 2 ^ (w - 1)"

definition int_range :: "nat \<Rightarrow> int \<Rightarrow> bool" where
  "int_range w n \<longleftrightarrow> - (2 ^ (w - 1)) \<le> n \<and> n < 2 ^ (w - 1)"

lemma wrap_int_in_range:
  assumes "0 < w" "int_range w n"
  shows "wrap_int w n = n"
proof -
  have "(2::int) ^ w = 2 * 2 ^ (w - 1)" using assms(1) by (cases w) auto
  then show ?thesis using assms(2) by (simp add: wrap_int_def int_range_def)
qed

lemma int_range_wrap_int: "0 < w \<Longrightarrow> int_range w (wrap_int w n)"
proof -
  assume "0 < w"
  then have e: "(2::int) ^ w = 2 * 2 ^ (w - 1)" by (cases w) auto
  have "0 \<le> (n + 2 ^ (w - 1)) mod 2 ^ w" "(n + 2 ^ (w - 1)) mod 2 ^ w < 2 ^ w" by simp_all
  then show ?thesis using e by (simp add: wrap_int_def int_range_def)
qed

section \<open>The errors of the program\<close>

text \<open>
  The sentinel errors of \<open>dao\<close>, \<open>logic\<close>, \<open>controller\<close> and \<open>pkg\<close>, errors made on the spot
  (\<open>ErrText\<close>), errors of the services (\<open>NetErr\<close>: the connection failed; \<open>RedisErr\<close>: an error
  reply; \<open>RedisNil\<close>: go-redis's nil reply; \<open>SqlErr\<close>, \<open>SqlNoRows\<close>) and \<open>fmt.Errorf\<close> with \<open>%w\<close>.
\<close>

datatype err =
    NetErr | RedisErr string | RedisNil | SqlErr | SqlNoRows | ErrText string
  | ErrVoteTimeExpired | ErrPostNotInitialized | ErrInvalidDirection | ErrVoteKeyType
  | ErrVoteOutboxNotEmpty | ErrVoteStateUnavailable | ErrVoteEventConflict
  | ErrorUserExist | ErrorUserNotExist | ErrorInvalidPassword | ErrorInvalidID
  | ErrPasswordTooLong | ErrPostNotFound | ErrForbidden | ErrRedisStateNeedsRebuild
  | ErrorUserNotLogin
  | Wrapped string err

fun errors_is :: "err \<Rightarrow> err \<Rightarrow> bool" where
  "errors_is (Wrapped s e) t \<longleftrightarrow> Wrapped s e = t \<or> errors_is e t"
| "errors_is e t \<longleftrightarrow> e = t"

lemma errors_is_refl [simp]: "errors_is e e"
  by (cases e) auto

section \<open>Lists and maps\<close>

lemma map_of_filter_key: "map_of (filter (\<lambda>(x, _). P x) xs) k = (if P k then map_of xs k else None)"
  by (induction xs) auto

lemma sorted_map_insort_key:
  "sorted (map f xs) \<Longrightarrow> sorted (map f (insort_key f x xs))"
  by (simp add: sorted_insort_key)

lemma distinct_fst_filter: "distinct (map fst xs) \<Longrightarrow> distinct (map fst (filter P xs))"
  by (induction xs) auto

lemma dom_map_of_filter_ne: "k \<notin> fst ` set (filter (\<lambda>(x, _). x \<noteq> k) xs)"
  by auto

end
