(* ===== verification/GoStd.thy ===== *)
theory GoStd
  imports Prelude
begin

text \<open>
  The part of Go's standard library that the program's data goes through: \<open>strconv.FormatInt\<close>
  and \<open>strconv.ParseInt\<close> in base 10, \<open>strconv.Atoi\<close>, and Lua's \<open>tonumber\<close> and \<open>tostring\<close> on
  integers, which read and write the same decimals inside Redis. The main facts are the round
  trips.
\<close>

section \<open>Decimal digits\<close>

definition digit_char :: "nat \<Rightarrow> char" where
  "digit_char d = ''0123456789'' ! d"

definition digit_val :: "char \<Rightarrow> nat option" where
  "digit_val c = (let n = of_char c :: nat in if 48 \<le> n \<and> n < 58 then Some (n - 48) else None)"

definition is_digit :: "char \<Rightarrow> bool" where
  "is_digit c \<longleftrightarrow> digit_val c \<noteq> None"

lemma less_10_cases: "(d::nat) < 10 \<Longrightarrow> d \<in> {0, 1, 2, 3, 4, 5, 6, 7, 8, 9}"
  by auto

lemma digit_val_char [simp]: "d < 10 \<Longrightarrow> digit_val (digit_char d) = Some d"
  by (drule less_10_cases) (auto simp: digit_val_def digit_char_def)

lemma digit_char_neq_sign: "d < 10 \<Longrightarrow> digit_char d \<noteq> CHR ''-'' \<and> digit_char d \<noteq> CHR ''+''"
  by (drule less_10_cases) (auto simp: digit_char_def)

lemma is_digit_char [simp]: "d < 10 \<Longrightarrow> is_digit (digit_char d)"
  by (simp add: is_digit_def)

fun nat_decimal :: "nat \<Rightarrow> string" where
  "nat_decimal n =
     (if n < 10 then [digit_char n] else nat_decimal (n div 10) @ [digit_char (n mod 10)])"

declare nat_decimal.simps [simp del]

definition FormatInt :: "int \<Rightarrow> string" where
  "FormatInt i = (if i < 0 then CHR ''-'' # nat_decimal (nat (- i)) else nat_decimal (nat i))"

lemma nat_decimal_ne [simp]: "nat_decimal n \<noteq> []"
  by (subst nat_decimal.simps) simp

lemma nat_decimal_digits: "c \<in> set (nat_decimal n) \<Longrightarrow> is_digit c"
proof (induction n rule: nat_decimal.induct)
  case (1 n)
  then show ?case
    by (cases "n < 10") (auto simp: nat_decimal.simps [of n])
qed

lemma nat_decimal_hd: "is_digit (hd (nat_decimal n))"
  by (rule nat_decimal_digits [of _ n]) simp

lemma FormatInt_0: "FormatInt 0 = ''0''"
  by (simp add: FormatInt_def nat_decimal.simps digit_char_def)

lemma FormatInt_ne [simp]: "FormatInt n \<noteq> []"
  by (simp add: FormatInt_def)

section \<open>strconv.ParseInt\<close>

text \<open>
  \<open>ParseInt(s, 10, w)\<close> strips one sign, reads digits while they fit \<open>w\<close> unsigned bits (a value
  beyond them is a range error at once, before later characters are looked at), then checks the
  signed range. A range error carries the clamped value, which \<open>Atoi\<close> returns with it.
\<close>

datatype num_error = ErrSyntax | ErrRange int

fun parse_uint_loop :: "int \<Rightarrow> int \<Rightarrow> string \<Rightarrow> num_error + int" where
  "parse_uint_loop maxv n [] = Inr n"
| "parse_uint_loop maxv n (c # cs) =
     (case digit_val c of
        None \<Rightarrow> Inl ErrSyntax
      | Some d \<Rightarrow>
          (let n1 = n * 10 + int d
           in if maxv < n1 then Inl (ErrRange maxv) else parse_uint_loop maxv n1 cs))"

definition ParseUint :: "nat \<Rightarrow> string \<Rightarrow> num_error + int" where
  "ParseUint w s = (if s = [] then Inl ErrSyntax else parse_uint_loop (2 ^ w - 1) 0 s)"

definition parse_signed :: "nat \<Rightarrow> bool \<Rightarrow> string \<Rightarrow> num_error + int" where
  "parse_signed w neg s =
     (let cutoff = (2::int) ^ (w - 1)
      in case ParseUint w s of
           Inl ErrSyntax \<Rightarrow> Inl ErrSyntax
         | Inl (ErrRange un) \<Rightarrow> Inl (ErrRange (if neg then - cutoff else cutoff - 1))
         | Inr un \<Rightarrow>
             if \<not> neg \<and> cutoff \<le> un then Inl (ErrRange (cutoff - 1))
             else if neg \<and> cutoff < un then Inl (ErrRange (- cutoff))
             else Inr (if neg then - un else un))"

definition ParseInt :: "nat \<Rightarrow> string \<Rightarrow> num_error + int" where
  "ParseInt w s =
     (case s of
        [] \<Rightarrow> Inl ErrSyntax
      | c # cs \<Rightarrow>
          if c = CHR ''+'' then parse_signed w False cs
          else if c = CHR ''-'' then parse_signed w True cs
          else parse_signed w False s)"

text \<open>\<open>strconv.Atoi\<close> with the error dropped: 0 on a syntax error, the clamped value on a range error.\<close>

definition Atoi_val :: "string \<Rightarrow> int" where
  "Atoi_val s = (case ParseInt 64 s of Inr n \<Rightarrow> n | Inl ErrSyntax \<Rightarrow> 0 | Inl (ErrRange n) \<Rightarrow> n)"

lemma parse_uint_loop_append:
  "parse_uint_loop m n (xs @ ys) =
     (case parse_uint_loop m n xs of Inl e \<Rightarrow> Inl e | Inr n' \<Rightarrow> parse_uint_loop m n' ys)"
  by (induction xs arbitrary: n) (auto simp: Let_def split: option.splits)

lemma int_div_mod_10: "int (n div 10) * 10 + int (n mod 10) = int n"
  by (simp add: zdiv_int zmod_int)

lemma parse_uint_loop_decimal:
  "int n \<le> m \<Longrightarrow> parse_uint_loop m 0 (nat_decimal n) = Inr (int n)"
proof (induction n rule: nat_decimal.induct)
  case (1 n)
  show ?case
  proof (cases "n < 10")
    case True
    with 1 show ?thesis by (simp add: nat_decimal.simps [of n])
  next
    case False
    have "int (n div 10) \<le> m" using "1.prems" by linarith
    with "1.IH" [OF False] have "parse_uint_loop m 0 (nat_decimal (n div 10)) = Inr (int (n div 10))"
      by blast
    then show ?thesis
      using False "1.prems" int_div_mod_10 [of n]
      by (simp add: nat_decimal.simps [of n] parse_uint_loop_append)
  qed
qed

lemma ParseUint_decimal: "int n < 2 ^ w \<Longrightarrow> ParseUint w (nat_decimal n) = Inr (int n)"
  by (simp add: ParseUint_def parse_uint_loop_decimal)

lemma pow2_pred: "0 < w \<Longrightarrow> (2::int) ^ w = 2 * 2 ^ (w - 1)"
  by (cases w) auto

lemma ParseInt_decimal:
  assumes "0 < w" "int n < 2 ^ (w - 1)"
  shows "ParseInt w (nat_decimal n) = Inr (int n)"
proof -
  have lt: "int n < 2 ^ w"
    using assms(2) pow2_pred [OF assms(1)] zero_less_power [of "2::int" "w - 1"] by linarith
  obtain c cs where c: "nat_decimal n = c # cs" by (cases "nat_decimal n") auto
  have "c \<noteq> CHR ''-''" "c \<noteq> CHR ''+''"
    using nat_decimal_hd [of n] c by (auto simp: is_digit_def digit_val_def)
  then show ?thesis
    using c ParseUint_decimal [OF lt] assms
    by (simp add: ParseInt_def parse_signed_def)
qed

theorem ParseInt_FormatInt:
  assumes "0 < w" "int_range w i"
  shows "ParseInt w (FormatInt i) = Inr i"
proof (cases "i < 0")
  case True
  have "int (nat (- i)) < 2 ^ w"
    using True assms(2) pow2_pred [OF assms(1)] zero_less_power [of "2::int" "w - 1"]
    by (simp add: int_range_def)
  from ParseUint_decimal [OF this] True assms show ?thesis
    by (simp add: FormatInt_def ParseInt_def parse_signed_def int_range_def)
next
  case False
  then show ?thesis
    using ParseInt_decimal [of w "nat i"] assms by (simp add: FormatInt_def int_range_def)
qed

lemma parse_uint_loop_bounds:
  "parse_uint_loop m n s = Inr v \<Longrightarrow> 0 \<le> n \<Longrightarrow> n \<le> m \<Longrightarrow> 0 \<le> v \<and> v \<le> m"
  by (induction m n s rule: parse_uint_loop.induct)
     (auto simp: Let_def split: option.splits if_splits)

lemma ParseUint_nonneg: "ParseUint w s = Inr v \<Longrightarrow> 0 \<le> v"
  using parse_uint_loop_bounds [of "2 ^ w - 1" 0 s]
  by (auto simp: ParseUint_def split: if_splits)

lemma parse_signed_range:
  assumes "parse_signed w neg s = Inr v"
  shows "int_range w v"
proof -
  obtain un where un: "ParseUint w s = Inr un"
    using assms by (auto simp: parse_signed_def Let_def split: sum.splits num_error.splits)
  have "0 \<le> un" by (rule ParseUint_nonneg [OF un])
  moreover have "(0::int) < 2 ^ (w - 1)" by simp
  ultimately show ?thesis
    using assms un unfolding parse_signed_def int_range_def Let_def
    by (cases neg; cases "2 ^ (w - 1) \<le> un"; cases "2 ^ (w - 1) < un") auto
qed

lemma ParseInt_range: "ParseInt w s = Inr v \<Longrightarrow> int_range w v"
  by (auto simp: ParseInt_def dest: parse_signed_range split: list.splits if_splits)

section \<open>Formatting is injective\<close>

fun decimal_value :: "int \<Rightarrow> string \<Rightarrow> int" where
  "decimal_value n [] = n"
| "decimal_value n (c # cs) =
     decimal_value (n * 10 + (case digit_val c of None \<Rightarrow> 0 | Some d \<Rightarrow> int d)) cs"

lemma decimal_value_append: "decimal_value n (xs @ ys) = decimal_value (decimal_value n xs) ys"
  by (induction xs arbitrary: n) auto

lemma decimal_value_nat [simp]: "decimal_value 0 (nat_decimal n) = int n"
proof (induction n rule: nat_decimal.induct)
  case (1 n)
  then show ?case
    using int_div_mod_10 [of n]
    by (cases "n < 10") (simp_all add: nat_decimal.simps [of n] decimal_value_append)
qed

lemma nat_decimal_inj [simp]: "nat_decimal m = nat_decimal n \<longleftrightarrow> m = n"
  by (metis decimal_value_nat of_nat_eq_iff)

lemma minus_not_digit [simp]: "\<not> is_digit CHR ''-''"
  by (simp add: is_digit_def digit_val_def)

lemma FormatInt_inj [simp]: "FormatInt i = FormatInt j \<longleftrightarrow> i = j"
proof -
  have "CHR ''-'' # xs \<noteq> nat_decimal n" "nat_decimal n \<noteq> CHR ''-'' # xs" for n xs
    using nat_decimal_digits [of "CHR ''-''" n] by (metis list.set_intros(1) minus_not_digit)+
  then show ?thesis by (auto simp: FormatInt_def)
qed

section \<open>Lua's numbers\<close>

text \<open>
  Lua's \<open>tonumber\<close> on the decimal integers that reach the scripts (arguments written by the Go
  client, scores and hash fields written by Redis), and \<open>tostring\<close>, which prints with \<open>%.14g\<close>:
  plain decimals up to fourteen digits, an exponent beyond them.
\<close>

definition tonumber :: "string \<Rightarrow> int option" where
  "tonumber s =
     (case s of
        [] \<Rightarrow> None
      | c # cs \<Rightarrow>
          if c = CHR ''-'' then
            (if cs \<noteq> [] \<and> list_all is_digit cs then Some (- decimal_value 0 cs) else None)
          else if list_all is_digit s then Some (decimal_value 0 s) else None)"

lemma tonumber_FormatInt [simp]: "tonumber (FormatInt i) = Some i"
proof -
  obtain c cs where c: "nat_decimal (nat i) = c # cs" by (cases "nat_decimal (nat i)") auto
  have "c \<noteq> CHR ''-''" using nat_decimal_hd [of "nat i"] c by auto
  moreover have "list_all is_digit (nat_decimal n)" for n
    by (auto simp: list_all_iff dest: nat_decimal_digits)
  moreover have "decimal_value 0 (c # cs) = int (nat i)"
    using decimal_value_nat [of "nat i"] c by metis
  ultimately show ?thesis using c
    by (simp add: tonumber_def FormatInt_def) (metis list.pred_inject(2))
qed

lemma tonumber_0 [simp]: "tonumber ''0'' = Some 0"
  using tonumber_FormatInt [of 0] by (simp add: FormatInt_0)

text \<open>
  \<open>%.14g\<close> of an integer of at least fifteen digits: fourteen significant digits, rounded to
  nearest with ties to even, trailing zeros dropped, and an exponent of at least two digits.
\<close>

definition round_half_even :: "nat \<Rightarrow> nat \<Rightarrow> nat" where
  "round_half_even n m =
     (let q = n div m; r = n mod m
      in if 2 * r < m \<or> (2 * r = m \<and> even q) then q else Suc q)"

definition strip_zeros :: "string \<Rightarrow> string" where
  "strip_zeros s = rev (dropWhile (\<lambda>c. c = CHR ''0'') (rev s))"

definition lua_exponent_form :: "nat \<Rightarrow> string" where
  "lua_exponent_form n =
     (let e = length (nat_decimal n) - 1;
          q = round_half_even n (10 ^ (e - 13));
          e' = (if q = 10 ^ 14 then Suc e else e);
          ds = nat_decimal q;
          frac = strip_zeros (tl ds)
      in hd ds # (if frac = [] then [] else CHR ''.'' # frac) @ ''e+''
         @ (if e' < 10 then ''0'' else []) @ nat_decimal e')"

definition lua_tostring :: "int \<Rightarrow> string" where
  "lua_tostring i =
     (if \<bar>i\<bar> < 10 ^ 14 then FormatInt i
      else if i < 0 then CHR ''-'' # lua_exponent_form (nat (- i))
      else lua_exponent_form (nat i))"

lemma lua_tostring_small [simp]: "\<bar>i\<bar> < 10 ^ 14 \<Longrightarrow> lua_tostring i = FormatInt i"
  by (simp add: lua_tostring_def)

end
