(* ===== verification/RedisServer.thy ===== *)
theory RedisServer
  imports GoStd
begin

text \<open>
  The Redis server the program talks to. The server is not part of the repository: every
  definition that sends it a command takes the server as the argument \<open>call\<close>, a function from a
  command and a server state to a reply (an error reply on the left) and the next server state.
  What the program relies on is the locale \<open>redis_server\<close>: seen through a view \<open>db\<close> of the state
  as a keyspace, replies and updates are those the command reference documents (\<open>redis_doc\<close>), and
  the identifier of a new stream entry is above every earlier one of that stream. Scores are
  integers: the program stores only Unix times, multiples of 432 and directions, which the
  server's doubles represent exactly.

  The theory also holds the keys of \<open>dao/redis/keys.go\<close> and the connection of the Go client: a
  round trip may lose the request or the reply, in an order the environment chooses.
\<close>

section \<open>Values, streams, commands, replies\<close>

type_synonym zset = "(string \<times> int) list"

datatype stream_id = StreamID nat nat

instantiation stream_id :: linorder
begin

definition less_eq_stream_id :: "stream_id \<Rightarrow> stream_id \<Rightarrow> bool" where
  "less_eq_stream_id x y =
     (case x of StreamID a b \<Rightarrow> case y of StreamID c d \<Rightarrow> a < c \<or> (a = c \<and> b \<le> d))"

definition less_stream_id :: "stream_id \<Rightarrow> stream_id \<Rightarrow> bool" where
  "less_stream_id x y =
     (case x of StreamID a b \<Rightarrow> case y of StreamID c d \<Rightarrow> a < c \<or> (a = c \<and> b < d))"

instance
  by standard (auto simp: less_eq_stream_id_def less_stream_id_def split: stream_id.splits)

end

type_synonym fields = "(string \<times> string) list"

record sgroup =
  last_delivered :: stream_id
  pel :: "(stream_id \<times> string \<times> nat) list"

record stream =
  entries :: "(stream_id \<times> fields) list"
  last_id :: stream_id
  groups :: "string \<rightharpoonup> sgroup"

datatype rvalue =
    VStr string
  | VZSet zset
  | VHash "string \<rightharpoonup> string"
  | VSet "string list"
  | VStream stream

type_synonym keyspace = "string \<rightharpoonup> rvalue"

datatype read_from = NewEntries | PendingFrom stream_id

datatype rcmd =
    KTYPE string
  | GET string
  | SET string string nat
  | DEL "string list"
  | EXISTS string
  | PEXPIRE string int
  | ZADD string int string
  | ZREM string string
  | ZINCRBY string int string
  | ZSCORE string string
  | ZCARD string
  | ZCOUNT string int int
  | ZREMRANGEBYSCORE string int int
  | ZRANGE_WITHSCORES string int int
  | ZREVRANGE string int int
  | ZINTERSTORE_MAX string string string
  | SADD string string
  | HGET string string
  | HSET string string string
  | HINCRBY string string int
  | XADD string fields
  | XLEN string
  | XGROUP_CREATE_MKSTREAM string string
  | XREADGROUP string string string read_from nat
  | XPENDING string string nat
  | XCLAIM string string string nat "stream_id list"
  | XACK string string stream_id
  | XDEL string stream_id

datatype reply =
    RNil
  | RInt int
  | RBulk string
  | RStatus string
  | RArray "reply list"
  | RId stream_id
  | REntries "(stream_id \<times> fields option) list"
  | RPending "(stream_id \<times> string \<times> nat) list"

section \<open>Sorted sets\<close>

text \<open>A sorted set is the list of its members and scores in Redis's order: by score, then by member.\<close>

definition zkey :: "string \<times> int \<Rightarrow> int \<times> string" where
  "zkey x = (snd x, fst x)"

definition zs_rem :: "string \<Rightarrow> zset \<Rightarrow> zset" where
  "zs_rem m z = filter (\<lambda>(x, _). x \<noteq> m) z"

definition zs_add :: "string \<Rightarrow> int \<Rightarrow> zset \<Rightarrow> zset" where
  "zs_add m s z = insort_key zkey (m, s) (zs_rem m z)"

definition zs_wf :: "zset \<Rightarrow> bool" where
  "zs_wf z \<longleftrightarrow> sorted (map zkey z) \<and> distinct (map fst z)"

definition score_plus :: "zset \<Rightarrow> string \<Rightarrow> int \<Rightarrow> int" where
  "score_plus z m d = (case map_of z m of None \<Rightarrow> d | Some s \<Rightarrow> s + d)"

definition zs_slice :: "int \<Rightarrow> int \<Rightarrow> zset \<Rightarrow> zset" where
  "zs_slice i j z =
     (let n = int (length z);
          i' = max 0 (if i < 0 then n + i else i);
          j' = min (n - 1) (if j < 0 then n + j else j)
      in if j' < i' then [] else take (nat (j' - i' + 1)) (drop (nat i') z))"

lemma zkey_inj [simp]: "zkey x = zkey y \<longleftrightarrow> x = y"
  by (auto simp: zkey_def prod_eq_iff)

lemma map_of_zs_rem [zset_simps]: "map_of (zs_rem m z) = (map_of z)(m := None)"
  by (rule ext) (simp add: zs_rem_def map_of_filter_key)

lemma set_insort_zkey: "set (insort_key zkey x z) = insert x (set z)"
  by (rule set_insort_key)

lemma map_of_insort: "m \<notin> fst ` set z \<Longrightarrow> map_of (insort_key zkey (m, s) z) = (map_of z)(m \<mapsto> s)"
  by (induction z) (auto simp: fun_eq_iff)

lemma map_of_zs_add [zset_simps]: "map_of (zs_add m s z) = (map_of z)(m \<mapsto> s)"
proof -
  have "m \<notin> fst ` set (zs_rem m z)" by (auto simp: zs_rem_def)
  then show ?thesis by (simp add: zs_add_def map_of_insort map_of_zs_rem)
qed

lemma zs_add_ne [simp]: "zs_add m s z \<noteq> []"
  by (simp add: zs_add_def)

lemma zs_wf_Nil [simp]: "zs_wf []"
  by (simp add: zs_wf_def)

lemma sorted_map_filter: "sorted (map f xs) \<Longrightarrow> sorted (map f (filter P xs))"
  by (rule sorted_filter)

lemma zs_wf_filter: "zs_wf z \<Longrightarrow> zs_wf (filter P z)"
  by (simp add: zs_wf_def sorted_map_filter distinct_fst_filter)

lemma zs_wf_rem: "zs_wf z \<Longrightarrow> zs_wf (zs_rem m z)"
  unfolding zs_rem_def by (rule zs_wf_filter)

lemma distinct_fst_insort:
  "m \<notin> fst ` set z \<Longrightarrow> distinct (map fst z) \<Longrightarrow> distinct (map fst (insort_key zkey (m, s) z))"
  by (induction z) (auto simp: set_insort_zkey)

lemma zs_wf_add: "zs_wf z \<Longrightarrow> zs_wf (zs_add m s z)"
  using zs_wf_rem [of z m]
  by (auto simp: zs_wf_def zs_add_def zs_rem_def sorted_insort_key dom_map_of_filter_ne
           intro!: distinct_fst_insort)

lemma set_zs_rem: "set (zs_rem m z) = {x \<in> set z. fst x \<noteq> m}"
  by (auto simp: zs_rem_def)

lemma set_zs_add: "set (zs_add m s z) = insert (m, s) {x \<in> set z. fst x \<noteq> m}"
  by (simp add: zs_add_def set_insort_zkey set_zs_rem)

lemma zs_rem_absent: "map_of z m = None \<Longrightarrow> zs_rem m z = z"
  by (force simp: zs_rem_def map_of_eq_None_iff filter_id_conv)

lemma length_zs_rem:
  "distinct (map fst z) \<Longrightarrow> map_of z m = Some s \<Longrightarrow> Suc (length (zs_rem m z)) = length z"
proof (induction z)
  case (Cons x z)
  then show ?case
    using zs_rem_absent [of z m]
    by (cases x) (force simp: zs_rem_def map_of_eq_None_iff split: if_splits)
qed simp

lemma length_zs_add:
  "zs_wf z \<Longrightarrow> length (zs_add m s z) = (if map_of z m = None then Suc (length z) else length z)"
  using length_zs_rem [of z m] by (auto simp: zs_add_def zs_wf_def zs_rem_absent)

section \<open>The keyspace\<close>

definition zset_at :: "keyspace \<Rightarrow> string \<Rightarrow> zset option" where
  "zset_at ks k = (case ks k of None \<Rightarrow> Some [] | Some (VZSet z) \<Rightarrow> Some z | _ \<Rightarrow> None)"

definition hash_at :: "keyspace \<Rightarrow> string \<Rightarrow> (string \<rightharpoonup> string) option" where
  "hash_at ks k = (case ks k of None \<Rightarrow> Some Map.empty | Some (VHash h) \<Rightarrow> Some h | _ \<Rightarrow> None)"

definition set_at :: "keyspace \<Rightarrow> string \<Rightarrow> string list option" where
  "set_at ks k = (case ks k of None \<Rightarrow> Some [] | Some (VSet s) \<Rightarrow> Some s | _ \<Rightarrow> None)"

definition empty_stream :: stream where
  "empty_stream = \<lparr>entries = [], last_id = StreamID 0 0, groups = Map.empty\<rparr>"

definition stream_at :: "keyspace \<Rightarrow> string \<Rightarrow> stream option" where
  "stream_at ks k = (case ks k of None \<Rightarrow> Some empty_stream | Some (VStream s) \<Rightarrow> Some s | _ \<Rightarrow> None)"

definition put_zset :: "keyspace \<Rightarrow> string \<Rightarrow> zset \<Rightarrow> keyspace" where
  "put_zset ks k z = (if z = [] then ks(k := None) else ks(k \<mapsto> VZSet z))"

definition scored_at :: "keyspace \<Rightarrow> string \<Rightarrow> zset option" where
  "scored_at ks k =
     (case ks k of
        None \<Rightarrow> Some [] | Some (VZSet z) \<Rightarrow> Some z | Some (VSet s) \<Rightarrow> Some (map (\<lambda>m. (m, 1)) s)
      | _ \<Rightarrow> None)"

definition add_to_set :: "string \<Rightarrow> string list \<Rightarrow> string list" where
  "add_to_set m s = (if m \<in> set s then s else s @ [m])"

lemma set_add_to_set [simp]: "set (add_to_set m s) = insert m (set s)"
  by (auto simp: add_to_set_def)

definition zs_inter_max :: "zset \<Rightarrow> zset \<Rightarrow> zset" where
  "zs_inter_max a b =
     sort_key zkey
       (List.map_filter (\<lambda>(m, s). map_option (\<lambda>t. (m, max t s)) (map_of a m)) b)"

definition value_type :: "rvalue option \<Rightarrow> string" where
  "value_type v =
     (case v of
        None \<Rightarrow> ''none'' | Some (VStr _) \<Rightarrow> ''string'' | Some (VZSet _) \<Rightarrow> ''zset''
      | Some (VHash _) \<Rightarrow> ''hash'' | Some (VSet _) \<Rightarrow> ''set'' | Some (VStream _) \<Rightarrow> ''stream'')"

lemma put_zset_apply: "put_zset ks k z k' = (if k' = k then (if z = [] then None else Some (VZSet z)) else ks k')"
  by (simp add: put_zset_def)

lemma zset_at_put_same [simp]: "zset_at (put_zset ks k z) k = Some z"
  by (simp add: zset_at_def put_zset_def)

lemma at_other_key [simp]:
  "k' \<noteq> k \<Longrightarrow> zset_at (ks(k := v)) k' = zset_at ks k'"
  "k' \<noteq> k \<Longrightarrow> hash_at (ks(k := v)) k' = hash_at ks k'"
  "k' \<noteq> k \<Longrightarrow> set_at (ks(k := v)) k' = set_at ks k'"
  "k' \<noteq> k \<Longrightarrow> stream_at (ks(k := v)) k' = stream_at ks k'"
  by (simp_all add: zset_at_def hash_at_def set_at_def stream_at_def)

lemma at_same_key [simp]:
  "hash_at (ks(k \<mapsto> VHash h)) k = Some h"
  "set_at (ks(k \<mapsto> VSet s)) k = Some s"
  "stream_at (ks(k \<mapsto> VStream t)) k = Some t"
  by (simp_all add: hash_at_def set_at_def stream_at_def)

lemma at_put_zset_other [simp]:
  "k' \<noteq> k \<Longrightarrow> zset_at (put_zset ks k z) k' = zset_at ks k'"
  "k' \<noteq> k \<Longrightarrow> hash_at (put_zset ks k z) k' = hash_at ks k'"
  "k' \<noteq> k \<Longrightarrow> set_at (put_zset ks k z) k' = set_at ks k'"
  "k' \<noteq> k \<Longrightarrow> stream_at (put_zset ks k z) k' = stream_at ks k'"
  by (simp_all add: put_zset_def)

lemma zset_at_None_iff: "zset_at ks k \<noteq> None \<longleftrightarrow> value_type (ks k) \<in> {''none'', ''zset''}"
  by (auto simp: zset_at_def value_type_def split: option.splits rvalue.splits)

lemma hash_at_None_iff: "hash_at ks k \<noteq> None \<longleftrightarrow> value_type (ks k) \<in> {''none'', ''hash''}"
  by (auto simp: hash_at_def value_type_def split: option.splits rvalue.splits)

lemma stream_at_None_iff: "stream_at ks k \<noteq> None \<longleftrightarrow> value_type (ks k) \<in> {''none'', ''stream''}"
  by (auto simp: stream_at_def value_type_def split: option.splits rvalue.splits)

section \<open>The documented behaviour of the commands\<close>

definition WRONGTYPE :: string where
  "WRONGTYPE = ''WRONGTYPE Operation against a key holding the wrong kind of value''"

definition stored_int :: "string option \<Rightarrow> int option" where
  "stored_int v =
     (case v of
        None \<Rightarrow> Some 0
      | Some s \<Rightarrow> (case ParseInt 64 s of
                    Inr n \<Rightarrow> if FormatInt n = s then Some n else None | Inl _ \<Rightarrow> None))"

definition on_zset ::
    "keyspace \<Rightarrow> string \<Rightarrow> (zset \<Rightarrow> (string + reply) \<times> keyspace) \<Rightarrow> (string + reply) \<times> keyspace" where
  "on_zset ks k f = (case zset_at ks k of None \<Rightarrow> (Inl WRONGTYPE, ks) | Some z \<Rightarrow> f z)"

definition on_hash ::
    "keyspace \<Rightarrow> string \<Rightarrow> ((string \<rightharpoonup> string) \<Rightarrow> (string + reply) \<times> keyspace) \<Rightarrow> (string + reply) \<times> keyspace" where
  "on_hash ks k f = (case hash_at ks k of None \<Rightarrow> (Inl WRONGTYPE, ks) | Some h \<Rightarrow> f h)"

definition on_set ::
    "keyspace \<Rightarrow> string \<Rightarrow> (string list \<Rightarrow> (string + reply) \<times> keyspace) \<Rightarrow> (string + reply) \<times> keyspace" where
  "on_set ks k f = (case set_at ks k of None \<Rightarrow> (Inl WRONGTYPE, ks) | Some s \<Rightarrow> f s)"

definition on_stream ::
    "keyspace \<Rightarrow> string \<Rightarrow> (stream \<Rightarrow> (string + reply) \<times> keyspace) \<Rightarrow> (string + reply) \<times> keyspace" where
  "on_stream ks k f = (case stream_at ks k of None \<Rightarrow> (Inl WRONGTYPE, ks) | Some s \<Rightarrow> f s)"

definition on_group ::
    "keyspace \<Rightarrow> string \<Rightarrow> string \<Rightarrow> (stream \<Rightarrow> sgroup \<Rightarrow> (string + reply) \<times> keyspace)
       \<Rightarrow> (string + reply) \<times> keyspace" where
  "on_group ks k g f =
     (case ks k of
        Some (VStream s) \<Rightarrow>
          (case groups s g of None \<Rightarrow> (Inl ''NOGROUP'', ks) | Some gr \<Rightarrow> f s gr)
      | None \<Rightarrow> (Inl ''NOGROUP'', ks)
      | _ \<Rightarrow> (Inl WRONGTYPE, ks))"

definition put_group :: "keyspace \<Rightarrow> string \<Rightarrow> stream \<Rightarrow> string \<Rightarrow> sgroup \<Rightarrow> keyspace" where
  "put_group ks k s g gr = ks(k \<mapsto> VStream (s\<lparr>groups := (groups s)(g \<mapsto> gr)\<rparr>))"

definition deliver_new :: "string \<Rightarrow> nat \<Rightarrow> stream \<Rightarrow> sgroup \<Rightarrow> (stream_id \<times> fields) list \<times> sgroup" where
  "deliver_new c n s gr =
     (let es = take n (filter (\<lambda>(i, _). last_delivered gr < i) (entries s))
      in (es, if es = [] then gr
              else gr\<lparr>last_delivered := fst (last es),
                      pel := pel gr @ map (\<lambda>(i, _). (i, c, 0)) es\<rparr>))"

definition deliver_pending ::
    "string \<Rightarrow> nat \<Rightarrow> stream_id \<Rightarrow> stream \<Rightarrow> sgroup \<Rightarrow> (stream_id \<times> fields option) list \<times> sgroup" where
  "deliver_pending c n from s gr =
     (let ids = take n (map fst (filter (\<lambda>(i, c', _). c' = c \<and> from < i) (pel gr)))
      in (map (\<lambda>i. (i, map_of (entries s) i)) ids,
          gr\<lparr>pel := map (\<lambda>(i, c', t). (i, c', if i \<in> set ids \<and> map_of (entries s) i \<noteq> None then 0 else t))
                      (pel gr)\<rparr>))"

definition claim_pending ::
    "string \<Rightarrow> nat \<Rightarrow> stream_id list \<Rightarrow> stream \<Rightarrow> sgroup \<Rightarrow> (stream_id \<times> fields option) list \<times> sgroup" where
  "claim_pending c idle ids s gr =
     (let hits = filter (\<lambda>i. \<exists>(j, _, t) \<in> set (pel gr). j = i \<and> idle \<le> t) ids
      in (map (\<lambda>i. (i, map_of (entries s) i)) hits,
          gr\<lparr>pel := map (\<lambda>(i, c', t). if i \<in> set hits then (i, c, 0) else (i, c', t)) (pel gr)\<rparr>))"

fun redis_doc :: "(string \<Rightarrow> stream_id) \<Rightarrow> rcmd \<Rightarrow> keyspace \<Rightarrow> (string + reply) \<times> keyspace" where
  "redis_doc nid (KTYPE k) ks = (Inr (RStatus (value_type (ks k))), ks)"
| "redis_doc nid (GET k) ks =
     (case ks k of None \<Rightarrow> (Inr RNil, ks) | Some (VStr s) \<Rightarrow> (Inr (RBulk s), ks) | _ \<Rightarrow> (Inl WRONGTYPE, ks))"
| "redis_doc nid (SET k v ttl) ks = (Inr (RStatus ''OK''), ks(k \<mapsto> VStr v))"
| "redis_doc nid (DEL ds) ks =
     (Inr (RInt (int (length (filter (\<lambda>k. ks k \<noteq> None) (remdups ds))))),
      (\<lambda>k. if k \<in> set ds then None else ks k))"
| "redis_doc nid (EXISTS k) ks = (Inr (RInt (if ks k = None then 0 else 1)), ks)"
| "redis_doc nid (PEXPIRE k ms) ks = (Inr (RInt (if ks k = None then 0 else 1)), ks)"
| "redis_doc nid (ZADD k s m) ks =
     on_zset ks k (\<lambda>z. (Inr (RInt (if map_of z m = None then 1 else 0)), put_zset ks k (zs_add m s z)))"
| "redis_doc nid (ZREM k m) ks =
     on_zset ks k (\<lambda>z. (Inr (RInt (if map_of z m = None then 0 else 1)), put_zset ks k (zs_rem m z)))"
| "redis_doc nid (ZINCRBY k d m) ks =
     on_zset ks k (\<lambda>z. (Inr (RBulk (FormatInt (score_plus z m d))),
                        put_zset ks k (zs_add m (score_plus z m d) z)))"
| "redis_doc nid (ZSCORE k m) ks =
     on_zset ks k (\<lambda>z. (Inr (case map_of z m of None \<Rightarrow> RNil | Some s \<Rightarrow> RBulk (FormatInt s)), ks))"
| "redis_doc nid (ZCARD k) ks = on_zset ks k (\<lambda>z. (Inr (RInt (int (length z))), ks))"
| "redis_doc nid (ZCOUNT k lo hi) ks =
     on_zset ks k (\<lambda>z. (Inr (RInt (int (length (filter (\<lambda>(_, s). lo \<le> s \<and> s \<le> hi) z)))), ks))"
| "redis_doc nid (ZREMRANGEBYSCORE k lo hi) ks =
     on_zset ks k (\<lambda>z. (Inr (RInt (int (length (filter (\<lambda>(_, s). lo \<le> s \<and> s \<le> hi) z)))),
                        put_zset ks k (filter (\<lambda>(_, s). \<not> (lo \<le> s \<and> s \<le> hi)) z)))"
| "redis_doc nid (ZRANGE_WITHSCORES k i j) ks =
     on_zset ks k (\<lambda>z. (Inr (RArray (concat (map (\<lambda>(m, s). [RBulk m, RBulk (FormatInt s)])
                                                  (zs_slice i j z)))), ks))"
| "redis_doc nid (ZREVRANGE k i j) ks =
     on_zset ks k (\<lambda>z. (Inr (RArray (map (\<lambda>(m, _). RBulk m) (zs_slice i j (rev z)))), ks))"
| "redis_doc nid (ZINTERSTORE_MAX dst a b) ks =
     (case (scored_at ks a, scored_at ks b) of
        (Some x, Some y) \<Rightarrow>
          (let z = zs_inter_max x y in (Inr (RInt (int (length z))), put_zset ks dst z))
      | _ \<Rightarrow> (Inl WRONGTYPE, ks))"
| "redis_doc nid (SADD k m) ks =
     on_set ks k (\<lambda>s. (Inr (RInt (if m \<in> set s then 0 else 1)),
                       ks(k \<mapsto> VSet (add_to_set m s))))"
| "redis_doc nid (HGET k f) ks =
     on_hash ks k (\<lambda>h. (Inr (case h f of None \<Rightarrow> RNil | Some v \<Rightarrow> RBulk v), ks))"
| "redis_doc nid (HSET k f v) ks =
     on_hash ks k (\<lambda>h. (Inr (RInt (if h f = None then 1 else 0)), ks(k \<mapsto> VHash (h(f \<mapsto> v)))))"
| "redis_doc nid (HINCRBY k f n) ks =
     on_hash ks k (\<lambda>h.
       case stored_int (h f) of
         None \<Rightarrow> (Inl ''ERR hash value is not an integer'', ks)
       | Some v \<Rightarrow>
           if int_range 64 (v + n)
           then (Inr (RInt (v + n)), ks(k \<mapsto> VHash (h(f \<mapsto> FormatInt (v + n)))))
           else (Inl ''ERR increment or decrement would overflow'', ks))"
| "redis_doc nid (XADD k fs) ks =
     on_stream ks k (\<lambda>s. (Inr (RId (nid k)),
       ks(k \<mapsto> VStream (s\<lparr>entries := entries s @ [(nid k, fs)], last_id := nid k\<rparr>))))"
| "redis_doc nid (XLEN k) ks = on_stream ks k (\<lambda>s. (Inr (RInt (int (length (entries s)))), ks))"
| "redis_doc nid (XGROUP_CREATE_MKSTREAM k g) ks =
     on_stream ks k (\<lambda>s.
       case groups s g of
         Some _ \<Rightarrow> (Inl ''BUSYGROUP Consumer Group name already exists'', ks)
       | None \<Rightarrow> (Inr (RStatus ''OK''),
                  put_group ks k s g \<lparr>last_delivered = StreamID 0 0, pel = []\<rparr>))"
| "redis_doc nid (XREADGROUP k g c NewEntries n) ks =
     on_group ks k g (\<lambda>s gr.
       let (es, gr') = deliver_new c n s gr
       in if es = [] then (Inr RNil, ks)
          else (Inr (REntries (map (\<lambda>(i, fs). (i, Some fs)) es)), put_group ks k s g gr'))"
| "redis_doc nid (XREADGROUP k g c (PendingFrom i) n) ks =
     on_group ks k g (\<lambda>s gr.
       let (es, gr') = deliver_pending c n i s gr
       in (Inr (REntries es), put_group ks k s g gr'))"
| "redis_doc nid (XPENDING k g n) ks =
     on_group ks k g (\<lambda>s gr. (Inr (RPending (take n (pel gr))), ks))"
| "redis_doc nid (XCLAIM k g c idle ids) ks =
     on_group ks k g (\<lambda>s gr.
       let (es, gr') = claim_pending c idle ids s gr
       in (Inr (REntries es), put_group ks k s g gr'))"
| "redis_doc nid (XACK k g i) ks =
     (case ks k of
        None \<Rightarrow> (Inr (RInt 0), ks)
      | Some (VStream s) \<Rightarrow>
          (case groups s g of
             None \<Rightarrow> (Inr (RInt 0), ks)
           | Some gr \<Rightarrow>
               (Inr (RInt (if i \<in> fst ` set (pel gr) then 1 else 0)),
                put_group ks k s g (gr\<lparr>pel := filter (\<lambda>(j, _). j \<noteq> i) (pel gr)\<rparr>)))
      | _ \<Rightarrow> (Inl WRONGTYPE, ks))"
| "redis_doc nid (XDEL k i) ks =
     (case ks k of
        None \<Rightarrow> (Inr (RInt 0), ks)
      | Some (VStream s) \<Rightarrow>
          (Inr (RInt (if i \<in> fst ` set (entries s) then 1 else 0)),
           ks(k \<mapsto> VStream (s\<lparr>entries := filter (\<lambda>(j, _). j \<noteq> i) (entries s)\<rparr>)))
      | _ \<Rightarrow> (Inl WRONGTYPE, ks))"

section \<open>The server as an interface\<close>

type_synonym 'r redis_call = "rcmd \<Rightarrow> 'r \<Rightarrow> (string + reply) \<times> 'r"

locale redis_server =
  fixes call :: "'r redis_call"
    and db :: "'r \<Rightarrow> keyspace"
    and nid :: "'r \<Rightarrow> string \<Rightarrow> stream_id"
  assumes call_reply: "fst (call c r) = fst (redis_doc (nid r) c (db r))"
    and call_db: "db (snd (call c r)) = snd (redis_doc (nid r) c (db r))"
    and nid_fresh: "stream_at (db r) k = Some s \<Longrightarrow> last_id s < nid r k"
begin

lemma call_Inr: "fst (redis_doc (nid r) c (db r)) = Inr x \<Longrightarrow> thenM (call c) f r = f x (snd (call c r))"
  by (rule thenM_Inr) (simp add: call_reply)

lemma call_Inl: "fst (redis_doc (nid r) c (db r)) = Inl e \<Longrightarrow> thenM (call c) f r = (Inl e, snd (call c r))"
  by (rule thenM_Inl) (simp add: call_reply)

end

text \<open>The documented behaviour is itself a server: its state is the keyspace, and a new entry's
  identifier is the successor of the stream's last one.\<close>

definition ref_nid :: "keyspace \<Rightarrow> string \<Rightarrow> stream_id" where
  "ref_nid ks k =
     (case ks k of
        Some (VStream s) \<Rightarrow> (case last_id s of StreamID a b \<Rightarrow> StreamID a (Suc b))
      | _ \<Rightarrow> StreamID 0 1)"

definition ref_call :: "keyspace redis_call" where
  "ref_call c ks = redis_doc (ref_nid ks) c ks"

interpretation ref: redis_server ref_call "\<lambda>ks. ks" ref_nid
  by unfold_locales
     (auto simp: ref_call_def ref_nid_def less_stream_id_def stream_at_def empty_stream_def
           split: stream_id.splits option.splits rvalue.splits)

section \<open>The keys (dao/redis/keys.go)\<close>

definition KeyPrefix :: string where "KeyPrefix = ''convo:''"
definition KeyPostTimeZSet :: string where "KeyPostTimeZSet = ''post:time''"
definition KeyPostScoreZSet :: string where "KeyPostScoreZSet = ''post:score''"
definition KeyPostVotedZSetPrefix :: string where "KeyPostVotedZSetPrefix = ''post:voted:''"
definition KeyCommentZSetPrefix :: string where "KeyCommentZSetPrefix = ''community:''"
definition KeyPostVoteVersionPrefix :: string where "KeyPostVoteVersionPrefix = ''post:vote:version:''"
definition KeyVoteOutboxStream :: string where "KeyVoteOutboxStream = ''outbox:vote''"
definition KeyAuthSessionPrefix :: string where "KeyAuthSessionPrefix = ''auth:session:''"
definition KeyPostCachePrefix :: string where "KeyPostCachePrefix = ''cache:post:''"
definition KeyVoteRateLimitPrefix :: string where "KeyVoteRateLimitPrefix = ''ratelimit:vote:''"
definition KeyVoteStateStatus :: string where "KeyVoteStateStatus = ''state:post-vote-index''"

definition getRedisKey :: "string \<Rightarrow> string" where
  "getRedisKey key = KeyPrefix @ key"

lemmas key_defs = KeyPrefix_def KeyPostTimeZSet_def KeyPostScoreZSet_def KeyPostVotedZSetPrefix_def
  KeyCommentZSetPrefix_def KeyPostVoteVersionPrefix_def KeyVoteOutboxStream_def
  KeyAuthSessionPrefix_def KeyPostCachePrefix_def KeyVoteRateLimitPrefix_def KeyVoteStateStatus_def

lemma getRedisKey_inj: "getRedisKey a = getRedisKey b \<longleftrightarrow> a = b"
  by (simp add: getRedisKey_def)

text \<open>
  The names of the keys of the vote state, and their distinctness: an identifier appended to
  one prefix never makes a key of another kind.
\<close>

abbreviation time_key :: string where "time_key \<equiv> getRedisKey KeyPostTimeZSet"
abbreviation score_key :: string where "score_key \<equiv> getRedisKey KeyPostScoreZSet"
abbreviation voted_key :: "string \<Rightarrow> string" where
  "voted_key p \<equiv> getRedisKey (KeyPostVotedZSetPrefix @ p)"
abbreviation version_key :: "string \<Rightarrow> string" where
  "version_key p \<equiv> getRedisKey (KeyPostVoteVersionPrefix @ p)"
abbreviation community_key :: "string \<Rightarrow> string" where
  "community_key c \<equiv> getRedisKey (KeyCommentZSetPrefix @ c)"
abbreviation outbox_key :: string where "outbox_key \<equiv> getRedisKey KeyVoteOutboxStream"
abbreviation status_key :: string where "status_key \<equiv> getRedisKey KeyVoteStateStatus"
abbreviation session_key :: "string \<Rightarrow> string" where
  "session_key u \<equiv> getRedisKey (KeyAuthSessionPrefix @ u)"
abbreviation ratelimit_key :: "string \<Rightarrow> string" where
  "ratelimit_key u \<equiv> getRedisKey (KeyVoteRateLimitPrefix @ u)"

lemma vote_keys_distinct [simp, key_simps]:
  "time_key \<noteq> score_key" "score_key \<noteq> time_key"
  "time_key \<noteq> voted_key p" "voted_key p \<noteq> time_key"
  "time_key \<noteq> version_key p" "version_key p \<noteq> time_key"
  "time_key \<noteq> outbox_key" "outbox_key \<noteq> time_key"
  "score_key \<noteq> voted_key p" "voted_key p \<noteq> score_key"
  "score_key \<noteq> version_key p" "version_key p \<noteq> score_key"
  "score_key \<noteq> outbox_key" "outbox_key \<noteq> score_key"
  "voted_key p \<noteq> version_key q" "version_key q \<noteq> voted_key p"
  "voted_key p \<noteq> outbox_key" "outbox_key \<noteq> voted_key p"
  "version_key p \<noteq> outbox_key" "outbox_key \<noteq> version_key p"
  by (simp_all add: key_defs getRedisKey_inj)

lemma community_keys_distinct [simp, key_simps]:
  "community_key c \<noteq> time_key" "time_key \<noteq> community_key c"
  "community_key c \<noteq> score_key" "score_key \<noteq> community_key c"
  "community_key c \<noteq> voted_key p" "voted_key p \<noteq> community_key c"
  "community_key c \<noteq> version_key p" "version_key p \<noteq> community_key c"
  "community_key c \<noteq> outbox_key" "outbox_key \<noteq> community_key c"
  by (simp_all add: key_defs getRedisKey_inj)

lemma status_key_distinct [simp, key_simps]:
  "status_key \<noteq> time_key" "time_key \<noteq> status_key"
  "status_key \<noteq> score_key" "score_key \<noteq> status_key"
  "status_key \<noteq> voted_key p" "voted_key p \<noteq> status_key"
  "status_key \<noteq> version_key p" "version_key p \<noteq> status_key"
  "status_key \<noteq> outbox_key" "outbox_key \<noteq> status_key"
  "status_key \<noteq> community_key c" "community_key c \<noteq> status_key"
  by (simp_all add: key_defs getRedisKey_inj)

lemma key_inj [simp, key_simps]:
  "voted_key p = voted_key q \<longleftrightarrow> p = q"
  "version_key p = version_key q \<longleftrightarrow> p = q"
  "community_key c = community_key d \<longleftrightarrow> c = d"
  "session_key u = session_key v \<longleftrightarrow> u = v"
  "ratelimit_key u = ratelimit_key v \<longleftrightarrow> u = v"
  by (simp_all add: getRedisKey_inj)

section \<open>The connection of the Go client\<close>

text \<open>
  A round trip is delivered, or its request is lost (nothing happens), or its reply is lost
  (the server acts, the client sees an error; \<open>n\<close> commands of a pipeline had been processed).
  The schedule \<open>fates\<close> is the environment's; when it is used up, round trips are delivered.
  A script, a command and a \<open>MULTI\<close> transaction run at once on the server; a plain pipeline is
  a sequence of commands. A server error is an error of the client.
\<close>

datatype fate = Delivered | RequestLost | ReplyLost nat

record 'r conn =
  srv :: 'r
  fates :: "fate list"

definition lift_reply :: "(string + 'a) \<Rightarrow> err + 'a" where
  "lift_reply x = (case x of Inl e \<Rightarrow> Inl (RedisErr e) | Inr y \<Rightarrow> Inr y)"

definition exec :: "('r \<Rightarrow> (string + 'a) \<times> 'r) \<Rightarrow> (err, 'a, 'r conn) prog" where
  "exec f c =
     (case fates c of
        RequestLost # fs \<Rightarrow> (Inl NetErr, c\<lparr>fates := fs\<rparr>)
      | ReplyLost n # fs \<Rightarrow> (Inl NetErr, c\<lparr>srv := snd (f (srv c)), fates := fs\<rparr>)
      | fs \<Rightarrow> (lift_reply (fst (f (srv c))), c\<lparr>srv := snd (f (srv c)), fates := tl fs\<rparr>))"

fun run_all :: "'r redis_call \<Rightarrow> rcmd list \<Rightarrow> 'r \<Rightarrow> (string + reply) list \<times> 'r" where
  "run_all call [] r = ([], r)"
| "run_all call (c # cs) r =
     (fst (call c r) # fst (run_all call cs (snd (call c r))), snd (run_all call cs (snd (call c r))))"

fun first_error :: "(string + reply) list \<Rightarrow> string + reply list" where
  "first_error [] = Inr []"
| "first_error (Inl e # xs) = Inl e"
| "first_error (Inr y # xs) = (case first_error xs of Inl e \<Rightarrow> Inl e | Inr ys \<Rightarrow> Inr (y # ys))"

definition exec_tx :: "'r redis_call \<Rightarrow> rcmd list \<Rightarrow> (err, reply list, 'r conn) prog" where
  "exec_tx call cs = exec (\<lambda>r. (first_error (fst (run_all call cs r)), snd (run_all call cs r)))"

definition exec_pipe :: "'r redis_call \<Rightarrow> rcmd list \<Rightarrow> (err, reply list, 'r conn) prog" where
  "exec_pipe call cs c =
     (case fates c of
        ReplyLost n # fs \<Rightarrow> (Inl NetErr, c\<lparr>srv := snd (run_all call (take n cs) (srv c)), fates := fs\<rparr>)
      | _ \<Rightarrow> exec_tx call cs c)"

lemma exec_cases:
  obtains (delivered) fs where "exec f c = (lift_reply (fst (f (srv c))), c\<lparr>srv := snd (f (srv c)), fates := fs\<rparr>)"
  | (request_lost) fs where "exec f c = (Inl NetErr, c\<lparr>fates := fs\<rparr>)"
  | (reply_lost) fs where "exec f c = (Inl NetErr, c\<lparr>srv := snd (f (srv c)), fates := fs\<rparr>)"
  by (cases "fates c"; cases "hd (fates c)") (auto simp: exec_def)

lemma exec_Inr:
  assumes "fst (exec f c) = Inr x"
  shows "fst (f (srv c)) = Inr x" "srv (snd (exec f c)) = snd (f (srv c))"
  using assms by (cases rule: exec_cases [of f c]; auto simp: lift_reply_def split: sum.splits)+

lemma exec_no_fault: "fates c = [] \<Longrightarrow> exec f c = (lift_reply (fst (f (srv c))), c\<lparr>srv := snd (f (srv c))\<rparr>)"
  by (cases c) (simp add: exec_def)

end
