(* ===== verification/Models.thy ===== *)
theory Models
  imports GoStd
begin

text \<open>
  The data of \<open>models/*.go\<close> that the vote path and its recovery carry: the event that travels
  from the vote script to MySQL, the result of a vote, and the two snapshots a rebuild reads.
  Go's \<open>int8\<close> and \<open>int64\<close> fields are integers; where a value enters from outside, its parser
  bounds it.
\<close>

definition VoteChangedEventType :: string where
  "VoteChangedEventType = ''vote.changed.v1''"

record VoteEvent =
  EventID :: string
  EventType :: string
  UserID :: string
  PostID :: string
  Direction :: int
  Version :: int
  OccurredAt :: int

record VoteResult =
  rDirection :: int
  rVersion :: int
  rChanged :: bool

record PostRecoverySnapshot =
  pPostID :: int
  pCommunityID :: int
  pCreateUnix :: int
  pNetVote :: int

record VoteRecoverySnapshot =
  vUserID :: int
  vPostID :: int
  vDirection :: int
  vVersion :: int

end
