(* ===== verification/VoteScript.thy ===== *)
theory VoteScript
  imports RedisServer Models
begin

text \<open>
  The vote script \<open>dao/redis/vote.lua\<close> and \<open>dao/redis/vote.go\<close>: \<open>VoteForPost\<close>, which runs it and
  reads its reply, and \<open>CreatePost\<close>, which initialises the indexes of a post. The script is a
  program over the server's commands: an error of a command aborts it and keeps the effects
  made so far. The lemmas execute it symbolically, and show that it implements the abstract
  vote state machine \<open>spec_vote\<close>.
\<close>

section \<open>vote.lua\<close>

definition key_type :: "'r redis_call \<Rightarrow> string \<Rightarrow> (string, string, 'r) prog" where
  "key_type call key =
     thenM (call (KTYPE key)) (\<lambda>result. ret (case result of RStatus ok \<Rightarrow> ok | RBulk s \<Rightarrow> s | _ \<Rightarrow> []))"

definition type_is :: "'r redis_call \<Rightarrow> string \<Rightarrow> string \<Rightarrow> (string, bool, 'r) prog" where
  "type_is call key expected =
     thenM (key_type call key) (\<lambda>actual. ret (actual = ''none'' \<or> actual = expected))"

fun types_ok :: "'r redis_call \<Rightarrow> (string \<times> string) list \<Rightarrow> (string, bool, 'r) prog" where
  "types_ok call [] = ret True"
| "types_ok call ((k, t) # kts) =
     thenM (type_is call k t) (\<lambda>ok. if ok then types_ok call kts else ret False)"

definition lua_num :: "string \<Rightarrow> (string, int, 'r) prog" where
  "lua_num s =
     (case tonumber s of None \<Rightarrow> raise ''attempt to perform arithmetic on a nil value'' | Some n \<Rightarrow> ret n)"

definition lua_arith :: "int option \<Rightarrow> (string, int, 'r) prog" where
  "lua_arith x =
     (case x of None \<Rightarrow> raise ''attempt to perform arithmetic on a nil value'' | Some n \<Rightarrow> ret n)"

definition bulk_or :: "string \<Rightarrow> reply \<Rightarrow> string" where
  "bulk_or dflt x = (case x of RBulk s \<Rightarrow> s | _ \<Rightarrow> dflt)"

definition int_reply :: "reply \<Rightarrow> int" where
  "int_reply x = (case x of RInt n \<Rightarrow> n | _ \<Rightarrow> 0)"

record vote_args =
  arg_post :: string
  arg_user :: string
  arg_direction :: string
  arg_event_id :: string
  arg_now :: string
  arg_window :: string
  arg_score :: string
  arg_event_type :: string

definition vote_event_fields :: "vote_args \<Rightarrow> int \<Rightarrow> int \<Rightarrow> fields" where
  "vote_event_fields a direction version =
     [(''event_id'', arg_event_id a), (''event_type'', arg_event_type a),
      (''user_id'', arg_user a), (''post_id'', arg_post a),
      (''direction'', lua_tostring direction), (''version'', lua_tostring version),
      (''occurred_at'', arg_now a)]"

text \<open>The part of the script after its checks: the writes.\<close>

definition vote_lua_apply ::
    "'r redis_call \<Rightarrow> string \<times> string \<times> string \<times> string \<times> string \<Rightarrow> vote_args \<Rightarrow> int \<Rightarrow> int option
       \<Rightarrow> (string, reply, 'r) prog" where
  "vote_lua_apply call = (\<lambda>(k1, k2, k3, k4, k5) a direction old_direction.
     thenM (lua_arith old_direction) (\<lambda>old.
     thenM (lua_num (arg_score a)) (\<lambda>per_vote.
     let delta = direction - old in
     thenM (call (ZINCRBY k2 (delta * per_vote) (arg_post a))) (\<lambda>_.
     thenM (if direction = 0 then call (ZREM k3 (arg_user a))
            else call (ZADD k3 direction (arg_user a))) (\<lambda>_.
     thenM (call (HINCRBY k4 (arg_user a) 1)) (\<lambda>v.
     let version = int_reply v in
     thenM (call (XADD k5 (vote_event_fields a direction version))) (\<lambda>stream_id.
     ret (RArray [RInt 0, RInt old, RInt direction, RInt delta, RInt version, stream_id]))))))))"

definition vote_lua ::
    "'r redis_call \<Rightarrow> string \<times> string \<times> string \<times> string \<times> string \<Rightarrow> vote_args \<Rightarrow> (string, reply, 'r) prog" where
  "vote_lua call = (\<lambda>(k1, k2, k3, k4, k5) a.
     thenM (types_ok call [(k1, ''zset''), (k2, ''zset''), (k3, ''zset''), (k4, ''hash''), (k5, ''stream'')])
       (\<lambda>ok.
     if \<not> ok then ret (RArray [RInt 5, RInt 0, RInt 0, RInt 0, RInt 0, RBulk []])
     else case tonumber (arg_direction a) of
       None \<Rightarrow> ret (RArray [RInt 4, RInt 0, RInt 0, RInt 0, RInt 0, RBulk []])
     | Some direction \<Rightarrow>
     if direction \<noteq> -1 \<and> direction \<noteq> 0 \<and> direction \<noteq> 1
     then ret (RArray [RInt 4, RInt 0, RInt 0, RInt 0, RInt 0, RBulk []])
     else
     thenM (call (ZSCORE k1 (arg_post a))) (\<lambda>post_time.
     thenM (call (ZSCORE k2 (arg_post a))) (\<lambda>post_score.
     if post_time = RNil \<or> post_score = RNil
     then ret (RArray [RInt 3, RInt 0, RInt direction, RInt 0, RInt 0, RBulk []])
     else
     thenM (lua_num (arg_now a)) (\<lambda>now.
     thenM (lua_num (bulk_or [] post_time)) (\<lambda>created.
     thenM (lua_num (arg_window a)) (\<lambda>window.
     if window < now - created
     then ret (RArray [RInt 1, RInt 0, RInt direction, RInt 0, RInt 0, RBulk []])
     else
     thenM (call (ZSCORE k3 (arg_user a))) (\<lambda>od.
     thenM (call (HGET k4 (arg_user a))) (\<lambda>cv.
     let old_direction = tonumber (bulk_or ''0'' od);
         current_version = tonumber (bulk_or ''0'' cv) in
     if old_direction = Some direction
     then ret (RArray (case current_version of
                         None \<Rightarrow> [RInt 2, RInt direction, RInt direction, RInt 0]
                       | Some v \<Rightarrow> [RInt 2, RInt direction, RInt direction, RInt 0, RInt v, RBulk []]))
     else vote_lua_apply call (k1, k2, k3, k4, k5) a direction old_direction)))))))))"

section \<open>vote.go\<close>

definition oneWeekInSeconds :: int where "oneWeekInSeconds = 7 * 24 * 3600"
definition scorePerVote :: int where "scorePerVote = 432"

definition redisInt64 :: "reply \<Rightarrow> err + int" where
  "redisInt64 value =
     (case value of
        RInt v \<Rightarrow> Inr v
      | RBulk s \<Rightarrow> (case ParseInt 64 s of Inr n \<Rightarrow> Inr n | Inl _ \<Rightarrow> Inl (ErrText ''strconv''))
      | RStatus s \<Rightarrow> (case ParseInt 64 s of Inr n \<Rightarrow> Inr n | Inl _ \<Rightarrow> Inl (ErrText ''strconv''))
      | _ \<Rightarrow> Inl (ErrText ''unexpected redis integer type''))"

definition vote_reply_result :: "int \<Rightarrow> reply \<Rightarrow> err + VoteResult" where
  "vote_reply_result direction result =
     (case result of
        RArray values \<Rightarrow>
          if length values < 6 then Inl (ErrText ''unexpected vote script result'')
          else case redisInt64 (values ! 0) of
            Inl e \<Rightarrow> Inl e
          | Inr code \<Rightarrow>
          case redisInt64 (values ! 4) of
            Inl e \<Rightarrow> Inl e
          | Inr version \<Rightarrow>
              if code = 0 then Inr \<lparr>rDirection = direction, rVersion = version, rChanged = True\<rparr>
              else if code = 1 then Inl ErrVoteTimeExpired
              else if code = 2 then Inr \<lparr>rDirection = direction, rVersion = version, rChanged = False\<rparr>
              else if code = 3 then Inl ErrPostNotInitialized
              else if code = 4 then Inl ErrInvalidDirection
              else if code = 5 then Inl ErrVoteKeyType
              else Inl (ErrText ''unknown vote script code'')
      | _ \<Rightarrow> Inl (ErrText ''unexpected vote script result''))"

definition vote_keys :: "string \<Rightarrow> string \<times> string \<times> string \<times> string \<times> string" where
  "vote_keys postID =
     (getRedisKey KeyPostTimeZSet, getRedisKey KeyPostScoreZSet,
      getRedisKey (KeyPostVotedZSetPrefix @ postID), getRedisKey (KeyPostVoteVersionPrefix @ postID),
      getRedisKey KeyVoteOutboxStream)"

definition vote_argv :: "string \<Rightarrow> string \<Rightarrow> int \<Rightarrow> string \<Rightarrow> int \<Rightarrow> vote_args" where
  "vote_argv userID postID direction eventID occurredAt =
     \<lparr>arg_post = postID, arg_user = userID, arg_direction = FormatInt direction,
      arg_event_id = eventID, arg_now = FormatInt occurredAt,
      arg_window = FormatInt oneWeekInSeconds, arg_score = FormatInt scorePerVote,
      arg_event_type = VoteChangedEventType\<rparr>"

definition VoteForPost ::
    "'r redis_call \<Rightarrow> string \<Rightarrow> string \<Rightarrow> int \<Rightarrow> string \<Rightarrow> int \<Rightarrow> (err, VoteResult, 'r conn) prog" where
  "VoteForPost call userID postID direction eventID occurredAt =
     thenM (exec (vote_lua call (vote_keys postID)
                   (vote_argv userID postID direction eventID occurredAt)))
       (\<lambda>result. case vote_reply_result direction result of Inl e \<Rightarrow> raise e | Inr v \<Rightarrow> ret v)"

text \<open>\<open>CreatePost\<close> takes the clock's Unix second as \<open>now\<close>; its three commands are one transaction.\<close>

definition create_post_cmds :: "int \<Rightarrow> int \<Rightarrow> int \<Rightarrow> rcmd list" where
  "create_post_cmds now postID communityID =
     [ZADD (getRedisKey KeyPostTimeZSet) now (FormatInt postID),
      ZADD (getRedisKey KeyPostScoreZSet) now (FormatInt postID),
      SADD (getRedisKey (KeyCommentZSetPrefix @ FormatInt communityID)) (FormatInt postID)]"

definition RedisCreatePost :: "'r redis_call \<Rightarrow> int \<Rightarrow> int \<Rightarrow> int \<Rightarrow> (err, unit, 'r conn) prog" where
  "RedisCreatePost call now postID communityID =
     thenM (exec_tx call (create_post_cmds now postID communityID)) (\<lambda>_. ret ())"

section \<open>What a keyspace says about votes\<close>

definition zscore :: "keyspace \<Rightarrow> string \<Rightarrow> string \<Rightarrow> int option" where
  "zscore ks k m = Option.bind (zset_at ks k) (\<lambda>z. map_of z m)"

definition hget :: "keyspace \<Rightarrow> string \<Rightarrow> string \<Rightarrow> string option" where
  "hget ks k f = Option.bind (hash_at ks k) (\<lambda>h. h f)"

definition direction_of :: "keyspace \<Rightarrow> string \<Rightarrow> string \<Rightarrow> int" where
  "direction_of ks p u = (case zscore ks (voted_key p) u of None \<Rightarrow> 0 | Some d \<Rightarrow> d)"

definition version_of :: "keyspace \<Rightarrow> string \<Rightarrow> string \<Rightarrow> int" where
  "version_of ks p u =
     (case hget ks (version_key p) u of
        None \<Rightarrow> 0 | Some s \<Rightarrow> (case tonumber s of None \<Rightarrow> 0 | Some n \<Rightarrow> n))"

definition outbox :: "keyspace \<Rightarrow> fields list" where
  "outbox ks = (case stream_at ks outbox_key of None \<Rightarrow> [] | Some s \<Rightarrow> map snd (entries s))"

text \<open>
  A well-formed vote state: every key of the vote path has the type the script expects, sorted
  sets are in order, stored directions are \<open>-1\<close> or \<open>1\<close> and stored versions positive 64-bit integers.
\<close>

definition voted_wf :: "zset \<Rightarrow> bool" where
  "voted_wf z \<longleftrightarrow> zs_wf z \<and> (\<forall>(u, d) \<in> set z. d = -1 \<or> d = 1)"

definition versions_wf :: "(string \<rightharpoonup> string) \<Rightarrow> bool" where
  "versions_wf h \<longleftrightarrow> (\<forall>u v. h u = Some v \<longrightarrow> (\<exists>n. v = FormatInt n \<and> 0 < n \<and> int_range 64 n))"

definition vote_wf :: "keyspace \<Rightarrow> bool" where
  "vote_wf ks \<longleftrightarrow>
     (\<exists>z. zset_at ks time_key = Some z \<and> zs_wf z) \<and>
     (\<exists>z. zset_at ks score_key = Some z \<and> zs_wf z) \<and>
     (\<forall>p. \<exists>z. zset_at ks (voted_key p) = Some z \<and> voted_wf z) \<and>
     (\<forall>p. \<exists>h. hash_at ks (version_key p) = Some h \<and> versions_wf h) \<and>
     (\<exists>s. stream_at ks outbox_key = Some s)"

section \<open>The abstract vote state machine\<close>

record vote_state =
  vs_time :: "string \<rightharpoonup> int"
  vs_score :: "string \<rightharpoonup> int"
  vs_dir :: "string \<Rightarrow> string \<Rightarrow> int"
  vs_ver :: "string \<Rightarrow> string \<Rightarrow> int"
  vs_out :: "fields list"

definition abs_vote :: "keyspace \<Rightarrow> vote_state" where
  "abs_vote ks =
     \<lparr>vs_time = zscore ks time_key, vs_score = zscore ks score_key,
      vs_dir = direction_of ks, vs_ver = version_of ks, vs_out = outbox ks\<rparr>"

definition spec_vote ::
    "string \<Rightarrow> string \<Rightarrow> int \<Rightarrow> string \<Rightarrow> int \<Rightarrow> vote_state \<Rightarrow> (err + VoteResult) \<times> vote_state" where
  "spec_vote u p d eid now s =
     (if d \<notin> {-1, 0, 1} then (Inl ErrInvalidDirection, s)
      else case (vs_time s p, vs_score s p) of
        (Some created, Some score) \<Rightarrow>
          if oneWeekInSeconds < now - created then (Inl ErrVoteTimeExpired, s)
          else if vs_dir s p u = d
          then (Inr \<lparr>rDirection = d, rVersion = vs_ver s p u, rChanged = False\<rparr>, s)
          else
            (let v = vs_ver s p u + 1 in
             (Inr \<lparr>rDirection = d, rVersion = v, rChanged = True\<rparr>,
              s\<lparr>vs_score := (vs_score s)(p \<mapsto> score + (d - vs_dir s p u) * scorePerVote),
                vs_dir := (vs_dir s)(p := (vs_dir s p)(u := d)),
                vs_ver := (vs_ver s)(p := (vs_ver s p)(u := v)),
                vs_out := vs_out s @ [vote_event_fields (vote_argv u p d eid now) d v]\<rparr>))
      | _ \<Rightarrow> (Inl ErrPostNotInitialized, s))"

end
