(* ===== verification/Outbox.thy ===== *)
theory Outbox
  imports VoteScript
begin

text \<open>
  The transactional outbox \<open>dao/redis/outbox.go\<close>: the consumer group on the stream that the vote
  script appends to, the three operations of a relay (read, claim what another instance left, and
  acknowledge), and the parser that turns a stream entry back into an event. The lemmas show that
  the parser inverts what the script wrote, and that the group never skips an entry: an entry is
  pending or still to be delivered until the acknowledgement that removes it.
\<close>

section \<open>The operations (outbox.go)\<close>

definition VoteOutboxGroup :: string where "VoteOutboxGroup = ''vote-relay''"

record VoteOutboxMessage =
  mStreamID :: stream_id
  mEvent :: VoteEvent

fun Contains :: "string \<Rightarrow> string \<Rightarrow> bool" where
  "Contains [] p \<longleftrightarrow> p = []"
| "Contains (c # s) p \<longleftrightarrow> take (length p) (c # s) = p \<or> Contains s p"

definition EnsureVoteOutboxGroup :: "'r redis_call \<Rightarrow> (err, unit, 'r conn) prog" where
  "EnsureVoteOutboxGroup call c =
     (case exec (call (XGROUP_CREATE_MKSTREAM (getRedisKey KeyVoteOutboxStream) VoteOutboxGroup)) c of
        (Inl (RedisErr e), c') \<Rightarrow> if Contains e ''BUSYGROUP'' then (Inr (), c') else (Inl (RedisErr e), c')
      | (Inl e, c') \<Rightarrow> (Inl e, c')
      | (Inr _, c') \<Rightarrow> (Inr (), c'))"

definition field :: "(string \<rightharpoonup> string) \<Rightarrow> string \<Rightarrow> err + string" where
  "field values key = (case values key of None \<Rightarrow> Inl (ErrText (''missing field '' @ key)) | Some v \<Rightarrow> Inr v)"

definition parse_field :: "nat \<Rightarrow> string \<Rightarrow> err + int" where
  "parse_field w s = (case ParseInt w s of Inl _ \<Rightarrow> Inl (ErrText ''strconv'') | Inr n \<Rightarrow> Inr n)"

definition bindE :: "'e + 'a \<Rightarrow> ('a \<Rightarrow> 'e + 'b) \<Rightarrow> 'e + 'b" where
  "bindE x f = (case x of Inl e \<Rightarrow> Inl e | Inr v \<Rightarrow> f v)"

lemma bindE_simps [simp]: "bindE (Inl e) f = Inl e" "bindE (Inr v) f = f v"
  by (simp_all add: bindE_def)

lemma bindE_Inr_iff: "bindE x f = Inr y \<longleftrightarrow> (\<exists>v. x = Inr v \<and> f v = Inr y)"
  by (cases x) auto

definition voteEventFromStream :: "(string \<rightharpoonup> string) \<Rightarrow> err + VoteEvent" where
  "voteEventFromStream values =
     bindE (field values ''event_id'') (\<lambda>eventID.
     bindE (field values ''event_type'') (\<lambda>eventType.
     bindE (field values ''user_id'') (\<lambda>userID.
     bindE (field values ''post_id'') (\<lambda>postID.
     bindE (field values ''direction'') (\<lambda>directionValue.
     bindE (field values ''version'') (\<lambda>versionValue.
     bindE (field values ''occurred_at'') (\<lambda>occurredValue.
     bindE (parse_field 8 directionValue) (\<lambda>direction.
     bindE (parse_field 64 versionValue) (\<lambda>version.
     bindE (parse_field 64 occurredValue) (\<lambda>occurredAt.
     Inr \<lparr>EventID = eventID, EventType = eventType, UserID = userID, PostID = postID,
          Direction = direction, Version = version, OccurredAt = occurredAt\<rparr>))))))))))"

text \<open>
  The client turns an entry's field list into a Go map (a repeated field keeps its last value, an
  entry that was deleted has no fields).
\<close>

definition message_values :: "fields option \<Rightarrow> string \<rightharpoonup> string" where
  "message_values fs = (case fs of None \<Rightarrow> Map.empty | Some xs \<Rightarrow> map_of (rev xs))"

fun parse_messages :: "string \<Rightarrow> (stream_id \<times> fields option) list \<Rightarrow> err + VoteOutboxMessage list" where
  "parse_messages what [] = Inr []"
| "parse_messages what ((i, fs) # ms) =
     (case voteEventFromStream (message_values fs) of
        Inl e \<Rightarrow> Inl (Wrapped what e)
      | Inr event \<Rightarrow>
          (case parse_messages what ms of
             Inl e \<Rightarrow> Inl e | Inr rest \<Rightarrow> Inr (\<lparr>mStreamID = i, mEvent = event\<rparr> # rest)))"

definition ReadVoteOutbox ::
    "'r redis_call \<Rightarrow> string \<Rightarrow> read_from \<Rightarrow> nat \<Rightarrow> (err, VoteOutboxMessage list, 'r conn) prog" where
  "ReadVoteOutbox call consumer start count =
     thenM (exec (call (XREADGROUP (getRedisKey KeyVoteOutboxStream) VoteOutboxGroup consumer start count)))
       (\<lambda>streams. case streams of
          RNil \<Rightarrow> ret []
        | REntries ms \<Rightarrow>
            (case parse_messages ''parse outbox message'' ms of Inl e \<Rightarrow> raise e | Inr msgs \<Rightarrow> ret msgs)
        | _ \<Rightarrow> raise (ErrText ''unexpected reply''))"

definition ClaimStaleVoteOutbox ::
    "'r redis_call \<Rightarrow> string \<Rightarrow> nat \<Rightarrow> nat \<Rightarrow> (err, VoteOutboxMessage list, 'r conn) prog" where
  "ClaimStaleVoteOutbox call consumer minIdle count =
     thenM (exec (call (XPENDING (getRedisKey KeyVoteOutboxStream) VoteOutboxGroup count)))
       (\<lambda>pending. case pending of
          RNil \<Rightarrow> ret []
        | RPending items \<Rightarrow>
            (let ids = map fst (filter (\<lambda>(_, _, idle). minIdle \<le> idle) items) in
             if ids = [] then ret []
             else
               thenM (exec (call (XCLAIM (getRedisKey KeyVoteOutboxStream) VoteOutboxGroup consumer minIdle ids)))
                 (\<lambda>messages. case messages of
                    REntries ms \<Rightarrow>
                      (case parse_messages ''parse claimed outbox message'' ms of
                         Inl e \<Rightarrow> raise e | Inr msgs \<Rightarrow> ret msgs)
                  | _ \<Rightarrow> raise (ErrText ''unexpected reply'')))
        | _ \<Rightarrow> raise (ErrText ''unexpected reply''))"

definition ack_script :: "'r redis_call \<Rightarrow> string \<Rightarrow> string \<Rightarrow> stream_id \<Rightarrow> (string, reply, 'r) prog" where
  "ack_script call key grp streamID =
     thenM (call (XACK key grp streamID)) (\<lambda>_. call (XDEL key streamID))"

definition AckVoteOutbox :: "'r redis_call \<Rightarrow> stream_id \<Rightarrow> (err, unit, 'r conn) prog" where
  "AckVoteOutbox call streamID =
     thenM (exec (ack_script call (getRedisKey KeyVoteOutboxStream) VoteOutboxGroup streamID)) (\<lambda>_. ret ())"

section \<open>The parser inverts the script\<close>

lemma parse_uint_loop_bad:
  "c \<in> set s \<Longrightarrow> \<not> is_digit c \<Longrightarrow> \<exists>e. parse_uint_loop m n s = Inl e"
  by (induction m n s rule: parse_uint_loop.induct) (auto simp: is_digit_def Let_def split: option.splits)

lemma ParseUint_bad: "c \<in> set s \<Longrightarrow> \<not> is_digit c \<Longrightarrow> \<exists>e. ParseUint w s = Inl e"
  using parse_uint_loop_bad [of c s] by (auto simp: ParseUint_def)

lemma ParseInt_bad:
  assumes "CHR ''e'' \<in> set s"
  shows "isl (ParseInt w s)"
proof -
  have e: "\<not> is_digit CHR ''e''" by (simp add: is_digit_def digit_val_def)
  have "isl (parse_signed w neg t)" if "CHR ''e'' \<in> set t" for neg t
    using ParseUint_bad [OF that e, of w] by (auto simp: parse_signed_def Let_def split: num_error.splits)
  with assms show ?thesis by (cases s) (auto simp: ParseInt_def)
qed

lemma lua_tostring_big:
  assumes "10 ^ 14 \<le> v"
  shows "isl (ParseInt w (lua_tostring v))"
proof (rule ParseInt_bad)
  show "CHR ''e'' \<in> set (lua_tostring v)"
    using assms by (simp add: lua_tostring_def lua_exponent_form_def Let_def)
qed

lemma vote_event_values:
  "message_values (Some (vote_event_fields a d v)) =
     [''event_id'' \<mapsto> arg_event_id a, ''event_type'' \<mapsto> arg_event_type a, ''user_id'' \<mapsto> arg_user a,
      ''post_id'' \<mapsto> arg_post a, ''direction'' \<mapsto> lua_tostring d, ''version'' \<mapsto> lua_tostring v,
      ''occurred_at'' \<mapsto> arg_now a]"
  by (rule ext) (simp add: message_values_def vote_event_fields_def)

definition vote_event :: "string \<Rightarrow> string \<Rightarrow> int \<Rightarrow> string \<Rightarrow> int \<Rightarrow> int \<Rightarrow> VoteEvent" where
  "vote_event u p d eid now v =
     \<lparr>EventID = eid, EventType = VoteChangedEventType, UserID = u, PostID = p, Direction = d,
      Version = v, OccurredAt = now\<rparr>"

lemma parse_vote_event:
  assumes "d \<in> {-1, 0, 1}" "0 < v" "v < 10 ^ 14" "int_range 64 now"
  shows "voteEventFromStream (message_values (Some (vote_event_fields (vote_argv u p d eid now) d v))) =
           Inr (vote_event u p d eid now v)"
proof -
  have "int_range 8 d" "\<bar>d\<bar> < 10 ^ 14" using assms(1) by (auto simp: int_range_def)
  moreover have "int_range 64 v" using assms(2,3) by (simp add: int_range_def)
  ultimately show ?thesis
    using assms
    by (simp add: voteEventFromStream_def vote_event_values field_def parse_field_def ParseInt_FormatInt
        vote_argv_def vote_event_def)
qed

text \<open>
  C30: the parser is the inverse of what the script appends. For every vote the script can accept
  (directions -1, 0, 1, positive versions, times of 64 bits) reading the entry back gives exactly
  the event of that vote. The bound is Lua's: a version of fourteen digits is the longest that
  \<open>tostring\<close> prints in full, and any larger one cannot be parsed at all.
\<close>

theorem voteEventFromStream_roundtrip:
  assumes "d \<in> {-1, 0, 1}" "0 < v" "int_range 64 now"
  shows "voteEventFromStream (message_values (Some (vote_event_fields (vote_argv u p d eid now) d v))) =
           Inr (vote_event u p d eid now v) \<longleftrightarrow> v < 10 ^ 14"
proof (cases "v < 10 ^ 14")
  case True
  with parse_vote_event assms show ?thesis by simp
next
  case False
  then have "isl (ParseInt 64 (lua_tostring v))" by (intro lua_tostring_big) simp
  with False assms show ?thesis
    by (auto simp: voteEventFromStream_def vote_event_values field_def parse_field_def bindE_Inr_iff isl_def)
qed

theorem voteEventFromStream_roundtrip_witness:
  "voteEventFromStream (message_values (Some (vote_event_fields (vote_argv ''7'' ''31'' 1 ''99'' 1700000000) 1 3))) =
     Inr (vote_event ''7'' ''31'' 1 ''99'' 1700000000 3)"
  using voteEventFromStream_roundtrip [of 1 3 1700000000 "''7''" "''31''" "''99''"] by (simp add: int_range_def)

section \<open>The group never skips an entry\<close>

definition ids :: "(stream_id \<times> 'a) list \<Rightarrow> stream_id list" where
  "ids xs = map fst xs"

definition stream_ok :: "stream \<Rightarrow> sgroup \<Rightarrow> bool" where
  "stream_ok s gr \<longleftrightarrow>
     sorted_wrt (<) (ids (entries s)) \<and> (\<forall>i\<in>set (ids (entries s)). i \<le> last_id s) \<and>
     last_delivered gr \<le> last_id s \<and> distinct (ids (pel gr)) \<and>
     (\<forall>i\<in>set (ids (entries s)). i \<in> set (ids (pel gr)) \<or> last_delivered gr < i) \<and>
     (\<forall>i\<in>set (ids (pel gr)). i \<in> set (ids (entries s)) \<and> i \<le> last_delivered gr)"

definition outbox_has :: "keyspace \<Rightarrow> stream \<Rightarrow> sgroup \<Rightarrow> bool" where
  "outbox_has ks s gr \<longleftrightarrow>
     ks outbox_key = Some (VStream s) \<and> groups s VoteOutboxGroup = Some gr \<and> stream_ok s gr"

lemma ids_simps [simp]: "ids [] = []" "ids (x # xs) = fst x # ids xs" "ids (xs @ ys) = ids xs @ ids ys"
  by (simp_all add: ids_def)

lemma set_ids [simp]: "set (ids xs) = fst ` set xs"
  by (simp add: ids_def)

lemma sorted_take_split:
  assumes "sorted_wrt (<) (ids es)" "take n (filter (\<lambda>(i, _). l < i) es) \<noteq> []" "i \<in> fst ` set es" "l < i"
    and "i \<notin> fst ` set (take n (filter (\<lambda>(i, _). l < i) es))"
  shows "fst (last (take n (filter (\<lambda>(i, _). l < i) es))) < i"
proof -
  let ?f = "filter (\<lambda>(i, _). l < i) es"
  have "sorted_wrt (<) (map fst ?f)"
    using assms(1) unfolding ids_def by (simp add: sorted_wrt_map sorted_wrt_filter)
  then have "sorted_wrt (<) (map fst (take n ?f) @ map fst (drop n ?f))"
    by (simp flip: map_append)
  moreover have "i \<in> set (map fst (drop n ?f))"
  proof -
    from assms(3,4) have "i \<in> fst ` set ?f" by force
    also have "set ?f = set (take n ?f) \<union> set (drop n ?f)" by (metis append_take_drop_id set_append)
    finally show ?thesis using assms(5) by auto
  qed
  ultimately show ?thesis using assms(2) by (auto simp: sorted_wrt_append)
qed

lemma stream_ok_deliver_new:
  assumes "stream_ok s gr" "deliver_new c n s gr = (es, gr')"
  shows "stream_ok s gr'" "set es \<subseteq> set (entries s)"
    "ids (pel gr') = ids (pel gr) @ ids es"
proof -
  let ?f = "filter (\<lambda>(i, _). last_delivered gr < i) (entries s)"
  have es: "es = take n ?f" using assms(2) by (auto simp: deliver_new_def Let_def)
  have sub: "set es \<subseteq> set ?f" unfolding es by (rule set_take_subset)
  then show "set es \<subseteq> set (entries s)" by auto
  have gr': "gr' = (if es = [] then gr else gr\<lparr>last_delivered := fst (last es), pel := pel gr @ map (\<lambda>(i, _). (i, c, 0)) es\<rparr>)"
    using assms(2) by (auto simp: deliver_new_def Let_def)
  have idm: "ids (map (\<lambda>(i, _). (i, c, 0 :: nat)) es) = ids es" by (simp add: ids_def case_prod_beta)
  show "ids (pel gr') = ids (pel gr) @ ids es" using idm by (simp add: gr')
  show "stream_ok s gr'"
  proof (cases "es = []")
    case True
    then show ?thesis using gr' assms(1) by simp
  next
    case False
    have sorted: "sorted_wrt (<) (ids es)"
      using assms(1) unfolding stream_ok_def es ids_def
      by (simp add: sorted_wrt_map sorted_wrt_filter sorted_wrt_take)
    have le_last: "i \<le> fst (last es)" if "i \<in> fst ` set es" for i
    proof -
      from False have "es = butlast es @ [last es]" by simp
      then have "sorted_wrt (<) (ids (butlast es @ [last es]))" using sorted by simp
      then have "\<forall>j\<in>fst ` set (butlast es). j < fst (last es)" by (auto simp: sorted_wrt_append ids_def)
      moreover have "set es = insert (last es) (set (butlast es))"
        using False by (metis append_butlast_last_id list.simps(15) rotate1.simps(2) set_rotate1)
      ultimately show ?thesis using that by (auto intro: less_imp_le)
    qed
    have lastin: "last es \<in> set es" using False by simp
    have new: "i \<notin> fst ` set (pel gr)" if "i \<in> fst ` set es" for i
      using that sub assms(1) by (force simp: stream_ok_def)
    have pel: "set (ids (pel gr')) = set (ids (pel gr)) \<union> set (ids es)" "last_delivered gr' = fst (last es)"
      using False idm by (simp_all add: gr' image_Un [symmetric])
    have ok: "sorted_wrt (<) (ids (entries s))" "\<forall>i\<in>set (ids (entries s)). i \<le> last_id s" "distinct (ids (pel gr))"
      "\<forall>i\<in>set (ids (entries s)). i \<in> set (ids (pel gr)) \<or> last_delivered gr < i"
      "\<forall>i\<in>set (ids (pel gr)). i \<in> set (ids (entries s)) \<and> i \<le> last_delivered gr"
      using assms(1) unfolding stream_ok_def by blast+
    have in_entries: "i \<in> set (ids (entries s))" if "i \<in> set (ids es)" for i
      using that sub by (auto simp: image_iff dest!: subsetD)
    have lt: "last_delivered gr < fst (last es)" using lastin sub by auto
    have "distinct (ids es)" using sorted by (simp add: strict_sorted_iff)
    moreover have "ids (pel gr') = ids (pel gr) @ ids es" using False idm by (simp add: gr')
    ultimately have dist: "distinct (ids (pel gr'))"
      using ok(3) new by auto
    have "fst (last es) \<in> set (ids es)" using lastin by simp
    then have bound: "last_delivered gr' \<le> last_id s"
      using in_entries ok(2) unfolding pel(2) by blast
    have cover: "i \<in> set (ids (pel gr')) \<or> last_delivered gr' < i" if i: "i \<in> set (ids (entries s))" for i
    proof (cases "i \<in> set (ids (pel gr)) \<or> i \<in> set (ids es)")
      case True
      then show ?thesis unfolding pel by blast
    next
      case F: False
      then have "last_delivered gr < i" using ok(4) i by blast
      with F i False sorted_take_split [OF ok(1), of n "last_delivered gr" i] show ?thesis
        unfolding pel(2) es [symmetric] by simp
    qed
    have behind: "i \<in> set (ids (entries s)) \<and> i \<le> last_delivered gr'" if "i \<in> set (ids (pel gr'))" for i
    proof (cases "i \<in> set (ids (pel gr))")
      case True
      with ok(5) lt show ?thesis unfolding pel(2) by (blast intro: order_trans less_imp_le)
    next
      case F: False
      with that have "i \<in> set (ids es)" unfolding pel by blast
      with in_entries le_last show ?thesis unfolding pel(2) by simp
    qed
    from ok(1,2) bound dist cover behind show ?thesis unfolding stream_ok_def by blast
  qed
qed

lemma ids_map_same [simp]:
  "ids (map (\<lambda>(i, c', t). (i, f i c' t, g i c' t)) xs) = ids xs"
  by (simp add: ids_def case_prod_beta)

lemma deliver_pending_ids: "ids (pel (snd (deliver_pending c n i s gr))) = ids (pel gr)"
  by (simp add: deliver_pending_def Let_def ids_def case_prod_beta)

lemma claim_pending_ids: "ids (pel (snd (claim_pending c idle is s gr))) = ids (pel gr)"
  by (simp add: claim_pending_def Let_def ids_def case_prod_beta comp_def if_distrib cong: if_cong)

lemma stream_ok_same_pel:
  assumes "stream_ok s gr" "ids (pel gr') = ids (pel gr)" "last_delivered gr' = last_delivered gr"
  shows "stream_ok s gr'"
  using assms unfolding stream_ok_def by simp

lemma stream_ok_same_entries:
  assumes "stream_ok s gr" "entries s' = entries s" "last_id s' = last_id s"
  shows "stream_ok s' gr"
  using assms unfolding stream_ok_def by simp

lemma deliver_pending_ok: "stream_ok s gr \<Longrightarrow> stream_ok s (snd (deliver_pending c n i s gr))"
  by (erule stream_ok_same_pel [OF _ deliver_pending_ids]) (simp add: deliver_pending_def Let_def)

lemma claim_pending_ok: "stream_ok s gr \<Longrightarrow> stream_ok s (snd (claim_pending c idle is s gr))"
  by (erule stream_ok_same_pel [OF _ claim_pending_ids]) (simp add: claim_pending_def Let_def)

lemma ids_filter: "ids (filter (\<lambda>(j, _). j \<noteq> i) xs) = filter (\<lambda>j. j \<noteq> i) (ids xs)"
  by (induction xs) auto

lemma stream_ok_ack:
  assumes "stream_ok s gr"
  shows "stream_ok (s\<lparr>groups := g, entries := filter (\<lambda>(j, _). j \<noteq> i) (entries s)\<rparr>)
           (gr\<lparr>pel := filter (\<lambda>(j, _). j \<noteq> i) (pel gr)\<rparr>)"
  using assms unfolding stream_ok_def
  by (auto simp: ids_filter sorted_wrt_filter simp del: set_ids)

lemma stream_ok_append:
  assumes "stream_ok s gr" "last_id s < i"
  shows "stream_ok (s\<lparr>entries := entries s @ [(i, fs)], last_id := i\<rparr>) gr"
proof -
  have "\<forall>j\<in>set (ids (entries s)). j < i" "last_delivered gr < i"
    using assms unfolding stream_ok_def by (blast intro: le_less_trans)+
  moreover have "sorted_wrt (<) (ids (entries s))" "distinct (ids (pel gr))" using assms(1) by (simp_all add: stream_ok_def)
  moreover have "\<forall>j\<in>set (ids (entries s)). j \<in> set (ids (pel gr)) \<or> last_delivered gr < j"
    "\<forall>j\<in>set (ids (pel gr)). j \<in> set (ids (entries s)) \<and> j \<le> last_delivered gr"
    using assms(1) unfolding stream_ok_def by blast+
  ultimately show ?thesis
    unfolding stream_ok_def by (auto simp: sorted_wrt_append less_imp_le simp del: set_ids)
qed

lemma outbox_has_put:
  assumes "stream_ok s gr'"
  shows "outbox_has (put_group ks outbox_key s VoteOutboxGroup gr')
           (s\<lparr>groups := (groups s)(VoteOutboxGroup \<mapsto> gr')\<rparr>) gr'"
  using stream_ok_same_entries [OF assms] by (simp add: outbox_has_def put_group_def)

section \<open>The relay's operations keep what is not acknowledged\<close>

context redis_server
begin

lemma exec_call_cases:
  assumes "exec (call cmd) c = (res, c')"
  obtains (lost) "db (srv c') = db (srv c)" "res = Inl NetErr" "fates c \<noteq> []"
  | (unanswered) "db (srv c') = snd (redis_doc (nid (srv c)) cmd (db (srv c)))" "res = Inl NetErr" "fates c \<noteq> []"
  | (answered) "db (srv c') = snd (redis_doc (nid (srv c)) cmd (db (srv c)))"
      "res = lift_reply (fst (redis_doc (nid (srv c)) cmd (db (srv c))))" "fates c' = tl (fates c)"
proof (cases "fates c")
  case Nil
  with assms show thesis by (intro answered) (auto simp: exec_def call_db call_reply)
next
  case (Cons f fs)
  with assms show thesis
    by (cases f) (auto simp: exec_def call_db call_reply intro: lost unanswered answered)
qed

end

datatype relay_op = OpEnsure | OpRead string read_from nat | OpClaim string nat nat | OpAck stream_id

definition relay_op_run :: "'r redis_call \<Rightarrow> relay_op \<Rightarrow> 'r conn \<Rightarrow> 'r conn" where
  "relay_op_run call op c =
     (case op of
        OpEnsure \<Rightarrow> snd (EnsureVoteOutboxGroup call c)
      | OpRead consumer start n \<Rightarrow> snd (ReadVoteOutbox call consumer start n c)
      | OpClaim consumer idle n \<Rightarrow> snd (ClaimStaleVoteOutbox call consumer idle n c)
      | OpAck i \<Rightarrow> snd (AckVoteOutbox call i c))"

definition kept :: "keyspace \<Rightarrow> keyspace \<Rightarrow> stream_id set \<Rightarrow> bool" where
  "kept ks ks' gone \<longleftrightarrow>
     (\<forall>s gr. outbox_has ks s gr \<longrightarrow>
        (\<exists>s' gr'. outbox_has ks' s' gr' \<and>
           (entries s' = entries s \<or> (\<exists>i\<in>gone. entries s' = filter (\<lambda>(j, _). j \<noteq> i) (entries s))))) \<and>
     (\<forall>k. k \<noteq> outbox_key \<longrightarrow> ks' k = ks k)"

lemma kept_refl [simp]: "kept ks ks gone"
  by (auto simp: kept_def)

lemma outbox_hasD:
  assumes "outbox_has ks s gr"
  shows "ks outbox_key = Some (VStream s)" "groups s VoteOutboxGroup = Some gr" "stream_ok s gr"
  using assms by (simp_all add: outbox_has_def)

lemma keptI:
  assumes "\<And>s gr. outbox_has ks s gr \<Longrightarrow> \<exists>s' gr'. outbox_has ks' s' gr' \<and> entries s' = entries s"
    and "\<And>k. k \<noteq> outbox_key \<Longrightarrow> ks' k = ks k"
  shows "kept ks ks' gone"
  using assms unfolding kept_def by blast

lemma kept_trans: "kept a b {} \<Longrightarrow> kept b c {} \<Longrightarrow> kept a c gone"
  unfolding kept_def by (metis empty_iff)

lemma kept_put_group:
  assumes "ks outbox_key = Some (VStream s)" "groups s VoteOutboxGroup = Some gr" "stream_ok s gr \<Longrightarrow> stream_ok s gr'"
  shows "kept ks (put_group ks outbox_key s VoteOutboxGroup gr') gone"
proof (rule keptI)
  show "\<exists>s' gr''. outbox_has (put_group ks outbox_key s VoteOutboxGroup gr') s' gr'' \<and> entries s' = entries s0"
    if "outbox_has ks s0 gr0" for s0 gr0
  proof -
    from that assms have "s0 = s" "gr0 = gr" "stream_ok s gr'" by (auto simp: outbox_has_def)
    with outbox_has_put [OF \<open>stream_ok s gr'\<close>, of ks] show ?thesis by force
  qed
qed (simp add: put_group_def)

lemma doc_read_kept: "kept ks (snd (redis_doc f (XREADGROUP outbox_key VoteOutboxGroup c start n) ks)) gone"
proof (cases start)
  case NewEntries
  then show ?thesis
    by (auto simp: on_group_def split: option.splits rvalue.splits prod.splits
             intro!: kept_put_group dest: stream_ok_deliver_new(1))
next
  case (PendingFrom i)
  then show ?thesis
    using deliver_pending_ok [of _ _ c n i]
    by (auto simp: on_group_def split: option.splits rvalue.splits prod.splits intro!: kept_put_group)
       (metis snd_conv)
qed

lemma doc_claim_kept: "kept ks (snd (redis_doc f (XCLAIM outbox_key VoteOutboxGroup c idle is) ks)) gone"
  using claim_pending_ok [of _ _ c idle "is"]
  by (auto simp: on_group_def split: option.splits rvalue.splits prod.splits intro!: kept_put_group)
     (metis snd_conv)

lemma doc_pending_kept: "kept ks (snd (redis_doc f (XPENDING outbox_key VoteOutboxGroup n) ks)) gone"
  by (auto simp: on_group_def split: option.splits rvalue.splits)

lemma doc_create_kept: "kept ks (snd (redis_doc f (XGROUP_CREATE_MKSTREAM outbox_key VoteOutboxGroup) ks)) gone"
  by (auto simp: on_stream_def kept_def outbox_has_def stream_at_def put_group_def
           split: option.splits rvalue.splits)

lemma doc_ack_kept:
  "kept ks (snd (redis_doc f' (XDEL outbox_key i) (snd (redis_doc f (XACK outbox_key VoteOutboxGroup i) ks)))) {i}"
proof -
  let ?ks = "snd (redis_doc f' (XDEL outbox_key i) (snd (redis_doc f (XACK outbox_key VoteOutboxGroup i) ks)))"
  have "\<exists>s' gr'. outbox_has ?ks s' gr' \<and> entries s' = filter (\<lambda>(j, _). j \<noteq> i) (entries s)"
    if "outbox_has ks s gr" for s gr
    using that stream_ok_ack [of s gr i "(groups s)(VoteOutboxGroup \<mapsto> gr\<lparr>pel := filter (\<lambda>(j, _). j \<noteq> i) (pel gr)\<rparr>)"]
    by (auto simp: outbox_has_def put_group_def)
  moreover have "?ks k = ks k" if "k \<noteq> outbox_key" for k
    using that by (auto simp: put_group_def split: option.splits rvalue.splits)
  ultimately show ?thesis unfolding kept_def by blast
qed

definition same_entries :: "keyspace \<Rightarrow> keyspace \<Rightarrow> stream_id set \<Rightarrow> bool" where
  "same_entries ks ks' gone \<longleftrightarrow>
     (\<forall>s. stream_at ks outbox_key = Some s \<longrightarrow>
        (\<exists>s'. stream_at ks' outbox_key = Some s' \<and> last_id s' = last_id s \<and>
           (entries s' = entries s \<or> (\<exists>i\<in>gone. entries s' = filter (\<lambda>(j, _). j \<noteq> i) (entries s))))) \<and>
     (\<forall>k. k \<noteq> outbox_key \<longrightarrow> ks' k = ks k)"

lemma same_entries_refl [simp]: "same_entries ks ks gone"
  by (simp add: same_entries_def)

lemma same_entries_trans: "same_entries a b {} \<Longrightarrow> same_entries b c {} \<Longrightarrow> same_entries a c {}"
  unfolding same_entries_def by (metis empty_iff)

lemma same_entries_put_group: "stream_at ks outbox_key = Some s \<Longrightarrow> same_entries ks (put_group ks outbox_key s g gr) gone"
  by (auto simp: same_entries_def put_group_def)

lemma doc_same_entries:
  "same_entries ks (snd (redis_doc f (XREADGROUP outbox_key g c start n) ks)) gone"
  "same_entries ks (snd (redis_doc f (XCLAIM outbox_key g c idle is) ks)) gone"
  "same_entries ks (snd (redis_doc f (XPENDING outbox_key g n) ks)) gone"
  "same_entries ks (snd (redis_doc f (XGROUP_CREATE_MKSTREAM outbox_key g) ks)) gone"
  by (cases start)
     (auto simp: on_group_def on_stream_def stream_at_def split: option.splits rvalue.splits prod.splits
           intro!: same_entries_put_group)

lemma doc_ack_same_entries:
  "same_entries ks (snd (redis_doc f' (XDEL outbox_key i) (snd (redis_doc f (XACK outbox_key g i) ks)))) {i}"
  by (auto simp: same_entries_def stream_at_def put_group_def empty_stream_def split: option.splits rvalue.splits)

text \<open>
  Any relation between keyspaces that the commands of a relay establish is established by its
  operations, whatever the connection does.
\<close>

context redis_server
begin

lemma exec_call_rel:
  assumes "exec (call cmd) c = (res, c')" "R (db (srv c)) (db (srv c))"
    and "R (db (srv c)) (snd (redis_doc (nid (srv c)) cmd (db (srv c))))"
  shows "R (db (srv c)) (db (srv c'))"
  using assms(1) by (cases rule: exec_call_cases) (use assms(2,3) in auto)

lemma relay_op_rel:
  assumes refl: "\<And>ks gone. R ks ks gone" and trans: "\<And>a b c. R a b {} \<Longrightarrow> R b c {} \<Longrightarrow> R a c {}"
    and docs: "\<And>f ks c start n. R ks (snd (redis_doc f (XREADGROUP outbox_key VoteOutboxGroup c start n) ks)) {}"
      "\<And>f ks c idle is. R ks (snd (redis_doc f (XCLAIM outbox_key VoteOutboxGroup c idle is) ks)) {}"
      "\<And>f ks n. R ks (snd (redis_doc f (XPENDING outbox_key VoteOutboxGroup n) ks)) {}"
      "\<And>f ks. R ks (snd (redis_doc f (XGROUP_CREATE_MKSTREAM outbox_key VoteOutboxGroup) ks)) {}"
    and ack: "\<And>f f' ks i. R ks (snd (redis_doc f' (XDEL outbox_key i)
                (snd (redis_doc f (XACK outbox_key VoteOutboxGroup i) ks)))) {i}"
  shows "R (db (srv c)) (db (srv (relay_op_run call op c))) (case op of OpAck i \<Rightarrow> {i} | _ \<Rightarrow> {})"
proof (cases op)
  case OpEnsure
  obtain res c' where e: "exec (call (XGROUP_CREATE_MKSTREAM outbox_key VoteOutboxGroup)) c = (res, c')"
    by (metis surj_pair)
  have "R (db (srv c)) (db (srv c')) {}"
    by (rule exec_call_rel [OF e, of "\<lambda>a b. R a b {}"]) (rule refl docs(4))+
  with e OpEnsure show ?thesis
    by (simp add: relay_op_run_def EnsureVoteOutboxGroup_def split: sum.splits err.splits)
next
  case (OpRead consumer start n)
  obtain res c' where e: "exec (call (XREADGROUP outbox_key VoteOutboxGroup consumer start n)) c = (res, c')"
    by (metis surj_pair)
  have "R (db (srv c)) (db (srv c')) {}"
    by (rule exec_call_rel [OF e, of "\<lambda>a b. R a b {}"]) (rule refl docs(1))+
  with e OpRead show ?thesis
    by (auto simp: relay_op_run_def ReadVoteOutbox_def thenM_def split: sum.splits reply.splits)
next
  case (OpClaim consumer idle n)
  obtain res c' where e: "exec (call (XPENDING outbox_key VoteOutboxGroup n)) c = (res, c')"
    by (metis surj_pair)
  have 1: "R (db (srv c)) (db (srv c')) {}"
    by (rule exec_call_rel [OF e, of "\<lambda>a b. R a b {}"]) (rule refl docs(3))+
  have "R (db (srv c')) (db (srv (snd (exec (call (XCLAIM outbox_key VoteOutboxGroup consumer idle is)) c')))) {}" for "is"
    by (rule exec_call_rel [OF prod.collapse [symmetric], of "\<lambda>a b. R a b {}"]) (rule refl docs(2))+
  then have "R (db (srv c)) (db (srv (snd (exec (call (XCLAIM outbox_key VoteOutboxGroup consumer idle is)) c')))) {}" for "is"
    by (rule trans [OF 1])
  from OpClaim e 1 this [of "map fst (filter (\<lambda>(_, _, t). idle \<le> t) (case res of Inr (RPending xs) \<Rightarrow> xs | _ \<Rightarrow> []))"]
  show ?thesis
    by (auto simp: relay_op_run_def ClaimStaleVoteOutbox_def thenM_def Let_def
             split: sum.splits reply.splits prod.splits)
next
  case (OpAck i)
  let ?f = "ack_script call outbox_key VoteOutboxGroup i"
  have run: "R (db r) (db (snd (?f r))) {i}" for r
  proof -
    have "isl (fst (redis_doc g (XACK outbox_key VoteOutboxGroup i) ks)) \<Longrightarrow>
        snd (redis_doc g (XACK outbox_key VoteOutboxGroup i) ks) = ks" for g ks
      by (auto split: option.splits rvalue.splits)
    then show ?thesis
      using ack refl
      by (auto simp: ack_script_def thenM_run call_reply call_db isl_def split: sum.splits)
  qed
  have "R (db (srv c)) (db (srv (snd (exec ?f c)))) {i}"
    by (cases rule: exec_cases [of ?f c]) (simp_all add: run refl)
  with OpAck show ?thesis
    by (auto simp: relay_op_run_def AckVoteOutbox_def thenM_def split: sum.splits prod.splits)
qed

lemma relay_op_kept:
  "kept (db (srv c)) (db (srv (relay_op_run call op c))) (case op of OpAck i \<Rightarrow> {i} | _ \<Rightarrow> {})"
  by (rule relay_op_rel)
     (simp_all only: kept_refl doc_read_kept doc_claim_kept doc_pending_kept doc_create_kept doc_ack_kept, rule kept_trans)

lemma relay_op_same_entries:
  "same_entries (db (srv c)) (db (srv (relay_op_run call op c))) (case op of OpAck i \<Rightarrow> {i} | _ \<Rightarrow> {})"
  by (rule relay_op_rel)
     (simp_all only: same_entries_refl doc_same_entries doc_ack_same_entries, rule same_entries_trans)

end

text \<open>
  C28: nothing leaves the outbox unacknowledged. Take any operation of any relay instance (making the
  group, reading new or own pending entries, claiming those of another instance, acknowledging),
  with the request or the reply lost or not. Afterwards every entry of the stream is still there,
  except the one that was acknowledged; every entry is either pending for some instance or still
  to be delivered, and every pending one is in the stream; and no other key has changed.
\<close>

theorem outbox_keeps_unacknowledged:
  assumes "redis_server call db nid" "outbox_has (db (srv c)) s gr"
  shows "\<exists>s' gr'. db (srv (relay_op_run call op c)) outbox_key = Some (VStream s') \<and>
     groups s' VoteOutboxGroup = Some gr' \<and>
     (entries s' = entries s \<or> (\<exists>i. op = OpAck i \<and> entries s' = filter (\<lambda>(j, _). j \<noteq> i) (entries s))) \<and>
     (\<forall>(i, _) \<in> set (entries s'). i \<in> fst ` set (pel gr') \<or> last_delivered gr' < i) \<and>
     (\<forall>(i, _) \<in> set (pel gr'). i \<in> fst ` set (entries s')) \<and>
     (\<forall>k. k \<noteq> outbox_key \<longrightarrow> db (srv (relay_op_run call op c)) k = db (srv c) k)"
proof -
  from redis_server.relay_op_kept [OF assms(1), of c op] assms(2)
  obtain s' gr' where has: "outbox_has (db (srv (relay_op_run call op c))) s' gr'"
    and same: "entries s' = entries s \<or> (\<exists>i\<in>case op of OpAck i \<Rightarrow> {i} | _ \<Rightarrow> {}. entries s' = filter (\<lambda>(j, _). j \<noteq> i) (entries s))"
    and frame: "\<forall>k. k \<noteq> outbox_key \<longrightarrow> db (srv (relay_op_run call op c)) k = db (srv c) k"
    unfolding kept_def by blast
  have "entries s' = entries s \<or> (\<exists>i. op = OpAck i \<and> entries s' = filter (\<lambda>(j, _). j \<noteq> i) (entries s))"
    using same by (cases op) auto
  moreover have "\<forall>(i, _) \<in> set (entries s'). i \<in> fst ` set (pel gr') \<or> last_delivered gr' < i"
    "\<forall>(i, _) \<in> set (pel gr'). i \<in> fst ` set (entries s')"
    using outbox_hasD(3) [OF has] unfolding stream_ok_def set_ids by (simp_all add: case_prod_beta)
  ultimately show ?thesis using outbox_hasD [OF has] frame by blast
qed

definition demo_stream :: stream where
  "demo_stream = \<lparr>entries = [(StreamID 5 1, vote_event_fields (vote_argv ''7'' ''31'' 1 ''99'' 1700000000) 1 1)],
     last_id = StreamID 5 1, groups = [VoteOutboxGroup \<mapsto> \<lparr>last_delivered = StreamID 0 0, pel = []\<rparr>]\<rparr>"

lemma demo_outbox:
  "outbox_has [outbox_key \<mapsto> VStream demo_stream] demo_stream \<lparr>last_delivered = StreamID 0 0, pel = []\<rparr>"
  by (simp add: outbox_has_def demo_stream_def stream_ok_def less_stream_id_def less_eq_stream_id_def)

theorem outbox_keeps_unacknowledged_witness:
  "\<exists>s'. srv (relay_op_run ref_call (OpRead ''relay-1'' NewEntries 32) \<lparr>srv = [outbox_key \<mapsto> VStream demo_stream], fates = []\<rparr>)
      outbox_key = Some (VStream s') \<and> entries s' = entries demo_stream"
  using outbox_keeps_unacknowledged [OF ref.redis_server_axioms,
      of "\<lparr>srv = [outbox_key \<mapsto> VStream demo_stream], fates = []\<rparr>" demo_stream
        "\<lparr>last_delivered = StreamID 0 0, pel = []\<rparr>" "OpRead ''relay-1'' NewEntries 32"] demo_outbox
  by auto

end
