(* ===== verification/Settings.thy ===== *)
theory Settings
  imports GoStd
begin

text \<open>
  The configuration of \<open>settings/settings.go\<close>: its sections (a pointer that may be nil is an option)
  and \<open>Validate\<close>. Reading the file and the environment into the sections is the work of viper and is
  not modelled.
\<close>

section \<open>Sections\<close>

record AppConfig =
  aName :: string
  aMode :: string
  aVersion :: string
  aPort :: int

record LogConfig =
  lLevel :: string
  lFilename :: string
  lMaxSize :: int
  lMaxAge :: int
  lMaxBackups :: int

record MySQLConfig =
  myHost :: string
  myUser :: string
  myPassword :: string
  myDB :: string
  myPort :: int
  MaxOpenConnection :: int
  MaxIdleConnection :: int

record RedisConfig =
  reHost :: string
  rePassword :: string
  rePort :: int
  reDB :: int
  PoolSize :: int

record SnowFlakeConfig =
  StartTime :: string
  MachineId :: int

record AuthConfig =
  JwtExpire :: int
  JwtSecret :: string

record RabbitMQConfig =
  URL :: string
  Exchange :: string
  VoteQueue :: string
  PublishConfirmTimeoutSeconds :: int
  ConsumerPrefetch :: int
  MaxRetries :: int
  RetryDelayMilliseconds :: int

record CacheConfig =
  PostDetailTTLSeconds :: int
  DelayedDeleteMilliseconds :: int

record RateLimitConfig =
  VoteRateLimitWindowMilliseconds :: int
  VoteRateLimitMaxRequests :: int

record Config =
  cApp :: "AppConfig option"
  cLog :: "LogConfig option"
  cMySQL :: "MySQLConfig option"
  cRedis :: "RedisConfig option"
  cSnowFlake :: "SnowFlakeConfig option"
  cGinMode :: "string option"
  cAuth :: "AuthConfig option"
  cRabbitMQ :: "RabbitMQConfig option"
  cCache :: "CacheConfig option"
  cRateLimit :: "RateLimitConfig option"

section \<open>Validate\<close>

text \<open>\<open>strings.TrimSpace(s) == ""\<close>: nothing but white space, in UTF-8 (ASCII, U+0085, U+00A0, U+1680,
  U+2000 to U+200A, U+2028, U+2029, U+202F, U+205F, U+3000).\<close>

fun blank :: "nat list \<Rightarrow> bool" where
  "blank [] \<longleftrightarrow> True"
| "blank (c # s) \<longleftrightarrow>
     (if c = 32 \<or> 9 \<le> c \<and> c \<le> 13 then blank s
      else case s of
        [] \<Rightarrow> False
      | d # t \<Rightarrow>
          if c = 194 \<and> (d = 133 \<or> d = 160) then blank t
          else case t of
            [] \<Rightarrow> False
          | e # u \<Rightarrow>
              (c = 225 \<and> d = 154 \<and> e = 128 \<or>
               c = 226 \<and> d = 128 \<and> (128 \<le> e \<and> e \<le> 138 \<or> e = 168 \<or> e = 169 \<or> e = 175) \<or>
               c = 226 \<and> d = 129 \<and> e = 159 \<or> c = 227 \<and> d = 128 \<and> e = 128) \<and> blank u)"

definition TrimSpace_empty :: "string \<Rightarrow> bool" where
  "TrimSpace_empty s = blank (map of_char s)"

definition to_lower :: "char \<Rightarrow> char" where
  "to_lower c = (let n = of_char c :: nat in if 65 \<le> n \<and> n \<le> 90 then char_of (n + 32) else c)"

definition EqualFold :: "string \<Rightarrow> string \<Rightarrow> bool" where
  "EqualFold s t \<longleftrightarrow> map to_lower s = map to_lower t"

definition Validate :: "Config \<Rightarrow> err + unit" where
  "Validate config =
     (case (cApp config, cMySQL config, cRedis config, cSnowFlake config, cGinMode config) of
        (Some app, Some _, Some _, Some snow, Some _) \<Rightarrow>
     (case (cLog config, cAuth config, cRabbitMQ config, cCache config, cRateLimit config) of
        (Some _, Some auth, Some mq, Some cache, Some rate) \<Rightarrow>
          if JwtExpire auth \<le> 0 \<or> TrimSpace_empty (JwtSecret auth)
          then Inl (ErrText ''auth.jwt_expire and auth.jwt_secret must be configured'')
          else if EqualFold (aMode app) ''prod'' \<and> JwtSecret auth = ''change-me-in-production''
          then Inl (ErrText ''auth.jwt_secret must be supplied for production'')
          else if MachineId snow < 0 \<or> MachineId snow > 1023
          then Inl (ErrText ''snowflake.machine_id must be between 0 and 1023'')
          else if URL mq = [] \<or> Exchange mq = [] \<or> VoteQueue mq = []
          then Inl (ErrText ''rabbitmq url, exchange and vote_queue must be configured'')
          else if PublishConfirmTimeoutSeconds mq \<le> 0 \<or> ConsumerPrefetch mq \<le> 0 \<or>
                  MaxRetries mq < 0 \<or> RetryDelayMilliseconds mq \<le> 0
          then Inl (ErrText ''rabbitmq retry, prefetch and confirm settings are invalid'')
          else if PostDetailTTLSeconds cache \<le> 0 \<or> DelayedDeleteMilliseconds cache < 0
          then Inl (ErrText ''cache ttl and delayed delete settings are invalid'')
          else if VoteRateLimitWindowMilliseconds rate \<le> 0 \<or> VoteRateLimitMaxRequests rate \<le> 0
          then Inl (ErrText ''ratelimit window and max requests must be positive'')
          else Inr ()
      | _ \<Rightarrow> Inl (ErrText ''required config section is missing''))
      | _ \<Rightarrow> Inl (ErrText ''required config section is missing''))"

lemma Validate_sections:
  assumes "Validate config = Inr ()"
  obtains app snow auth mq cache rate where
    "cApp config = Some app" "cSnowFlake config = Some snow" "cAuth config = Some auth"
    "cRabbitMQ config = Some mq" "cCache config = Some cache" "cRateLimit config = Some rate"
    "0 < JwtExpire auth" "0 \<le> MachineId snow \<and> MachineId snow \<le> 1023" "Exchange mq \<noteq> []" "VoteQueue mq \<noteq> []"
    "0 < PublishConfirmTimeoutSeconds mq" "0 < ConsumerPrefetch mq" "0 \<le> MaxRetries mq"
    "0 < RetryDelayMilliseconds mq" "0 < PostDetailTTLSeconds cache" "0 \<le> DelayedDeleteMilliseconds cache"
    "0 < VoteRateLimitWindowMilliseconds rate" "0 < VoteRateLimitMaxRequests rate"
proof -
  from assms show thesis
    by (auto simp: Validate_def not_le not_less split: option.splits if_splits intro!: that)
qed

end
