(* ===== verification/Mq.thy ===== *)
theory Mq
  imports Settings Models
begin

text \<open>
  The RabbitMQ client of \<open>mq/rabbitmq.go\<close>: the topology it declares when it connects, the publisher
  channel it keeps, and \<open>Publish\<close> with its wait for a confirmation. The broker is a parameter: what a
  declaration and a publication do is stated by the laws of the locale \<open>amqp_broker\<close>, which are the
  documented behaviour of exchanges, queues, mandatory messages and publisher confirms. Which network
  calls fail, in which order notifications arrive and which ready case a \<open>select\<close> takes is an argument.
\<close>

section \<open>Messages and the broker\<close>

definition RetryExchange :: string where "RetryExchange = ''convo.retry''"
definition RetryQueue :: string where "RetryQueue = ''convo.vote.persist.retry.v1''"
definition DeadExchange :: string where "DeadExchange = ''convo.dlx''"
definition DeadQueue :: string where "DeadQueue = ''convo.vote.persist.dlq.v1''"

datatype header = HInt nat int | HString string | HOther

text \<open>A body is the JSON of an event, or bytes that do not decode to one.\<close>

datatype body = JsonEvent VoteEvent | NotJson string

record message =
  m_body :: body
  m_id :: string
  m_headers :: "string \<rightharpoonup> header"

datatype queue_arg = ArgInt int | ArgString string

datatype amqp_op =
    ExchangeDeclare string
  | QueueDeclare string "string \<rightharpoonup> queue_arg"
  | QueueBind string string string

record topology =
  t_exchanges :: "string set"
  t_queues :: "string \<rightharpoonup> (string \<rightharpoonup> queue_arg)"
  t_binds :: "(string \<times> string \<times> string) set"

fun declare_doc :: "amqp_op \<Rightarrow> topology \<Rightarrow> topology" where
  "declare_doc (ExchangeDeclare x) t = t\<lparr>t_exchanges := insert x (t_exchanges t)\<rparr>"
| "declare_doc (QueueDeclare q args) t = t\<lparr>t_queues := (t_queues t)(q \<mapsto> args)\<rparr>"
| "declare_doc (QueueBind q key x) t = t\<lparr>t_binds := insert (x, key, q) (t_binds t)\<rparr>"

definition routes :: "topology \<Rightarrow> string \<Rightarrow> string \<Rightarrow> string set" where
  "routes t x key = {q. (x, key, q) \<in> t_binds t}"

text \<open>Notifications of one publication, in the order the broker sends them.\<close>

datatype notif = NReturn int string | NConfirm bool | NClosed

locale amqp_broker =
  fixes decl :: "amqp_op \<Rightarrow> 'b \<Rightarrow> bool \<times> 'b"
    and pub :: "string \<Rightarrow> string \<Rightarrow> message \<Rightarrow> 'b \<Rightarrow> notif list \<times> 'b"
    and topo :: "'b \<Rightarrow> topology"
    and queue :: "'b \<Rightarrow> string \<Rightarrow> message list"
  assumes decl_ok: "fst (decl op b) \<Longrightarrow> topo (snd (decl op b)) = declare_doc op (topo b)"
    and decl_failed: "\<not> fst (decl op b) \<Longrightarrow> topo (snd (decl op b)) = topo b"
    and decl_queue: "queue (snd (decl op b)) = queue b"
    and pub_topo: "topo (snd (pub x key m b)) = topo b"
    and pub_queue: "queue (snd (pub x key m b)) = queue b \<or>
      queue (snd (pub x key m b)) = (\<lambda>q. if q \<in> routes (topo b) x key then queue b q @ [m] else queue b q)"
    and pub_confirmed: "NConfirm True \<in> set (fst (pub x key m b)) \<Longrightarrow> routes (topo b) x key \<noteq> {} \<Longrightarrow>
      queue (snd (pub x key m b)) = (\<lambda>q. if q \<in> routes (topo b) x key then queue b q @ [m] else queue b q)"
    and pub_mandatory: "fst (pub x key m b) = before @ NConfirm True # after \<Longrightarrow> routes (topo b) x key = {} \<Longrightarrow>
      \<exists>code txt. NReturn code txt \<in> set before"
    and pub_once: "fst (pub x key m b) = before @ NConfirm ack # after \<Longrightarrow> after = [] \<or> after = [NClosed]"

text \<open>
  \<open>queue\<close> holds the messages that are ready; a message that was delivered is the consumer's until it is
  acknowledged, and an acknowledgement does not touch the ready messages.
\<close>

locale amqp_acks = amqp_broker decl pub topo queue
  for decl :: "amqp_op \<Rightarrow> 'b \<Rightarrow> bool \<times> 'b"
    and pub :: "string \<Rightarrow> string \<Rightarrow> message \<Rightarrow> 'b \<Rightarrow> notif list \<times> 'b"
    and topo :: "'b \<Rightarrow> topology"
    and queue :: "'b \<Rightarrow> string \<Rightarrow> message list" +
  fixes ack :: "string \<Rightarrow> message \<Rightarrow> 'b \<Rightarrow> bool \<times> 'b"
  assumes ack_topo: "topo (snd (ack q m b)) = topo b"
    and ack_queue: "queue (snd (ack q m b)) = queue b"

section \<open>Connecting\<close>

datatype amqp_conn = NoConn | ConnOpen | ConnClosed

text \<open>The channel of the publisher: what its notification channels hold, whether it is closed, and
  which notifications are still on their way.\<close>

record channel =
  ch_returns :: "(int \<times> string) list"
  ch_confirms :: "bool list"
  ch_closed :: bool
  ch_coming :: "notif list"

record client =
  c_config :: RabbitMQConfig
  c_conn :: amqp_conn
  c_publisher :: "channel option"

datatype wait_step = Arrive | PickReturn | PickConfirm | Cancelled | Elapse int

record mq_env =
  e_dial :: bool
  e_topology_channel :: bool
  e_channel :: bool
  e_confirm :: bool
  e_publish :: bool
  e_reached :: bool
  e_wait :: "wait_step list"

definition topology_ops :: "RabbitMQConfig \<Rightarrow> amqp_op list" where
  "topology_ops config =
     map ExchangeDeclare [Exchange config, RetryExchange, DeadExchange] @
     [QueueDeclare (VoteQueue config) Map.empty,
      QueueBind (VoteQueue config) VoteChangedEventType (Exchange config),
      QueueDeclare RetryQueue
        [''x-message-ttl'' \<mapsto> ArgInt (wrap_int 32 (RetryDelayMilliseconds config)),
         ''x-dead-letter-exchange'' \<mapsto> ArgString (Exchange config),
         ''x-dead-letter-routing-key'' \<mapsto> ArgString VoteChangedEventType],
      QueueBind RetryQueue VoteChangedEventType RetryExchange,
      QueueDeclare DeadQueue Map.empty,
      QueueBind DeadQueue VoteChangedEventType DeadExchange]"

fun run_ops :: "(amqp_op \<Rightarrow> 'b \<Rightarrow> bool \<times> 'b) \<Rightarrow> amqp_op list \<Rightarrow> 'b \<Rightarrow> bool \<times> 'b" where
  "run_ops decl [] b = (True, b)"
| "run_ops decl (op # ops) b =
     (case decl op b of (ok, b') \<Rightarrow> if ok then run_ops decl ops b' else (False, b'))"

definition declareTopology :: "(amqp_op \<Rightarrow> 'b \<Rightarrow> bool \<times> 'b) \<Rightarrow> mq_env \<Rightarrow> RabbitMQConfig \<Rightarrow> 'b \<Rightarrow> bool \<times> 'b" where
  "declareTopology decl env config b =
     (if \<not> e_topology_channel env then (False, b) else run_ops decl (topology_ops config) b)"

definition connectLocked ::
    "(amqp_op \<Rightarrow> 'b \<Rightarrow> bool \<times> 'b) \<Rightarrow> mq_env \<Rightarrow> client \<Rightarrow> 'b \<Rightarrow> bool \<times> client \<times> 'b" where
  "connectLocked decl env c b =
     (if c_conn c = ConnOpen then (True, c, b)
      else if \<not> e_dial env then (False, c, b)
      else case declareTopology decl env (c_config c) b of
        (ok, b') \<Rightarrow>
          if \<not> ok then (False, c, b')
          else (True, c\<lparr>c_conn := ConnOpen, c_publisher := None\<rparr>, b'))"

definition New :: "(amqp_op \<Rightarrow> 'b \<Rightarrow> bool \<times> 'b) \<Rightarrow> mq_env \<Rightarrow> RabbitMQConfig \<Rightarrow> 'b \<Rightarrow> client option \<times> 'b" where
  "New decl env config b =
     (case connectLocked decl env \<lparr>c_config = config, c_conn = NoConn, c_publisher = None\<rparr> b of
        (ok, c, b') \<Rightarrow> (if ok then Some c else None, b'))"

definition Close :: "client \<Rightarrow> client" where
  "Close c =
     (if c_conn c = NoConn \<or> c_conn c = ConnClosed then c
      else c\<lparr>c_conn := ConnClosed, c_publisher := map_option (\<lambda>ch. ch\<lparr>ch_closed := True\<rparr>) (c_publisher c)\<rparr>)"

definition fresh_channel :: channel where
  "fresh_channel = \<lparr>ch_returns = [], ch_confirms = [], ch_closed = False, ch_coming = []\<rparr>"

definition publisherLocked :: "mq_env \<Rightarrow> client \<Rightarrow> channel option \<times> client" where
  "publisherLocked env c =
     (case c_publisher c of
        Some ch \<Rightarrow>
          if \<not> ch_closed ch then (Some ch, c)
          else if \<not> e_channel env then (None, c\<lparr>c_conn := ConnClosed\<rparr>)
          else if \<not> e_confirm env then (None, c)
          else (Some fresh_channel, c\<lparr>c_publisher := Some fresh_channel\<rparr>)
      | None \<Rightarrow>
          if \<not> e_channel env then (None, c\<lparr>c_conn := ConnClosed\<rparr>)
          else if \<not> e_confirm env then (None, c)
          else (Some fresh_channel, c\<lparr>c_publisher := Some fresh_channel\<rparr>))"

definition invalidatePublisherLocked :: "client \<Rightarrow> client" where
  "invalidatePublisherLocked c = c\<lparr>c_publisher := None\<rparr>"

section \<open>Publish\<close>

text \<open>
  The loop that waits: notifications arrive one by one in the broker's order; a \<open>select\<close> takes any
  ready case; milliseconds pass. A receive from a closed Go channel is ready with the zero value. \<open>timer\<close> is
  what is left until the deadline of \<open>publishCtx\<close>: it fires when that time has passed, also when nothing
  else happens any more. Without a deadline the wait goes on for ever then, which is None. The parent
  context may be cancelled before.
\<close>

definition arrive :: "channel \<Rightarrow> channel" where
  "arrive ch =
     (case ch_coming ch of
        [] \<Rightarrow> ch
      | NReturn code txt # ns \<Rightarrow> ch\<lparr>ch_returns := ch_returns ch @ [(code, txt)], ch_coming := ns\<rparr>
      | NConfirm ack # ns \<Rightarrow> ch\<lparr>ch_confirms := ch_confirms ch @ [ack], ch_coming := ns\<rparr>
      | NClosed # ns \<Rightarrow> ch\<lparr>ch_closed := True, ch_coming := ns\<rparr>)"

fun wait_confirm :: "int option \<Rightarrow> wait_step list \<Rightarrow> channel \<Rightarrow> ((err + unit) \<times> channel) option" where
  "wait_confirm timer [] ch =
     (case timer of None \<Rightarrow> None | Some _ \<Rightarrow> Some (Inl (ErrText ''context deadline exceeded''), ch))"
| "wait_confirm timer (Arrive # ws) ch = wait_confirm timer ws (arrive ch)"
| "wait_confirm timer (PickReturn # ws) ch =
     (if ch_returns ch \<noteq> [] \<or> ch_closed ch then Some (Inl (ErrText ''rabbitmq returned message''), ch)
      else wait_confirm timer ws ch)"
| "wait_confirm timer (PickConfirm # ws) ch =
     (case ch_confirms ch of
        ack # acks \<Rightarrow>
          if \<not> ack then Some (Inl (ErrText ''rabbitmq rejected published message''), ch)
          else if ch_returns ch \<noteq> [] \<or> ch_closed ch
          then Some (Inl (ErrText ''rabbitmq returned message''), ch)
          else Some (Inr (), ch\<lparr>ch_confirms := acks\<rparr>)
      | [] \<Rightarrow>
          if ch_closed ch then Some (Inl (ErrText ''rabbitmq confirm channel closed''), ch)
          else wait_confirm timer ws ch)"
| "wait_confirm timer (Cancelled # ws) ch = Some (Inl (ErrText ''context canceled''), ch)"
| "wait_confirm timer (Elapse ms # ws) ch =
     (case timer of
        None \<Rightarrow> wait_confirm None ws ch
      | Some left \<Rightarrow>
          if left \<le> ms then Some (Inl (ErrText ''context deadline exceeded''), ch)
          else wait_confirm (Some (left - ms)) ws ch)"

definition Publish ::
    "(amqp_op \<Rightarrow> 'b \<Rightarrow> bool \<times> 'b) \<Rightarrow> (string \<Rightarrow> string \<Rightarrow> message \<Rightarrow> 'b \<Rightarrow> notif list \<times> 'b) \<Rightarrow> mq_env
       \<Rightarrow> string \<Rightarrow> message \<Rightarrow> client \<Rightarrow> 'b \<Rightarrow> ((err + unit) \<times> client \<times> 'b) option" where
  "Publish decl pub env exchange m c b =
     (case connectLocked decl env c b of
        (ok, c1, b1) \<Rightarrow>
          if \<not> ok then Some (Inl NetErr, c1, b1)
          else case publisherLocked env c1 of
            (None, c2) \<Rightarrow> Some (Inl NetErr, c2, b1)
          | (Some ch, c2) \<Rightarrow>
              if \<not> e_publish env
              then Some (Inl NetErr, invalidatePublisherLocked c2,
                         if e_reached env then snd (pub exchange VoteChangedEventType m b1) else b1)
              else case pub exchange VoteChangedEventType m b1 of
                (ns, b2) \<Rightarrow>
                  (case wait_confirm (Some (PublishConfirmTimeoutSeconds (c_config c) * 1000)) (e_wait env) (ch\<lparr>ch_coming := ch_coming ch @ ns\<rparr>) of
                     None \<Rightarrow> None
                   | Some (Inl e, _) \<Rightarrow> Some (Inl e, invalidatePublisherLocked c2, b2)
                   | Some (Inr _, ch') \<Rightarrow> Some (Inr (), c2\<lparr>c_publisher := Some ch'\<rparr>, b2)))"

section \<open>What a confirmation means\<close>

definition clean :: "client \<Rightarrow> bool" where
  "clean c \<longleftrightarrow>
     (case c_publisher c of
        None \<Rightarrow> True
      | Some ch \<Rightarrow> ch_closed ch \<or>
          (ch_returns ch = [] \<and> ch_confirms ch = [] \<and> (ch_coming ch = [] \<or> ch_coming ch = [NClosed])))"

definition acks_of :: "notif list \<Rightarrow> bool list" where
  "acks_of ns = List.map_filter (\<lambda>n. case n of NConfirm ack \<Rightarrow> Some ack | _ \<Rightarrow> None) ns"

definition silent :: "notif list \<Rightarrow> bool" where
  "silent ns \<longleftrightarrow> (\<forall>n\<in>set ns. case n of NConfirm _ \<Rightarrow> True | _ \<Rightarrow> False)"

lemma acks_of_simps [simp]:
  "acks_of [] = []" "acks_of (NConfirm a # ns) = a # acks_of ns"
  "acks_of (NReturn i t # ns) = acks_of ns" "acks_of (NClosed # ns) = acks_of ns"
  by (simp_all add: acks_of_def map_filter_simps)

lemma silent_simps [simp]:
  "silent []" "silent (NConfirm a # ns) \<longleftrightarrow> silent ns" "\<not> silent (NReturn i t # ns)" "\<not> silent (NClosed # ns)"
  by (simp_all add: silent_def)

lemma wait_confirm_Inr:
  "wait_confirm timer ws ch = Some (Inr (), ch') \<Longrightarrow>
   ch_returns ch = [] \<and> \<not> ch_closed ch \<and> ch_returns ch' = [] \<and> \<not> ch_closed ch' \<and>
   (\<exists>got. ch_coming ch = got @ ch_coming ch' \<and> silent got \<and> ch_confirms ch @ acks_of got = True # ch_confirms ch')"
proof (induction timer ws ch rule: wait_confirm.induct)
  case (2 timer ws ch)
  then have ih: "ch_returns (arrive ch) = [] \<and> \<not> ch_closed (arrive ch) \<and> ch_returns ch' = [] \<and> \<not> ch_closed ch' \<and>
     (\<exists>got. ch_coming (arrive ch) = got @ ch_coming ch' \<and> silent got \<and>
            ch_confirms (arrive ch) @ acks_of got = True # ch_confirms ch')" by simp
  show ?case
  proof (cases "ch_coming ch")
    case Nil
    with ih show ?thesis by (simp add: arrive_def)
  next
    case (Cons n ns)
    then show ?thesis
    proof (cases n)
      case (NConfirm ack)
      from ih Cons NConfirm obtain got where
        "ns = got @ ch_coming ch'" "silent got" "(ch_confirms ch @ [ack]) @ acks_of got = True # ch_confirms ch'"
        by (auto simp: arrive_def)
      with ih Cons NConfirm show ?thesis
        by (auto simp: arrive_def intro!: exI [of _ "NConfirm ack # got"])
    qed (use ih Cons in \<open>auto simp: arrive_def\<close>)
  qed
qed (auto split: list.splits if_splits option.splits)

lemma wait_confirm_ends: "wait_confirm (Some left) ws ch = None \<longleftrightarrow> False"
  by (induction "Some left" ws ch arbitrary: left rule: wait_confirm.induct) (auto split: list.splits)

lemma Publish_ends: "Publish decl pub env x m c b \<noteq> None"
  by (simp add: Publish_def wait_confirm_ends split: prod.splits option.splits sum.splits)

text \<open>What happens once the time is over.\<close>

fun within :: "int \<Rightarrow> wait_step list \<Rightarrow> wait_step list" where
  "within left [] = []"
| "within left (Elapse ms # ws) = (if left \<le> ms then [] else Elapse ms # within (left - ms) ws)"
| "within left (w # ws) = w # within left ws"

lemma wait_confirm_within: "wait_confirm (Some left) (within left ws) ch = wait_confirm (Some left) ws ch"
  by (induction left ws arbitrary: ch rule: within.induct) (auto split: list.splits)

lemma acks_of_True: "silent got \<Longrightarrow> acks_of got = True # as \<Longrightarrow> \<exists>rest. got = NConfirm True # rest"
  by (cases got; cases "hd got") auto

lemma publisherLocked_Some:
  assumes "publisherLocked env c = (Some ch, c')"
  shows "c_publisher c' = Some ch" "\<not> ch_closed ch"
    "clean c \<Longrightarrow> ch_returns ch = [] \<and> ch_confirms ch = [] \<and> (ch_coming ch = [] \<or> ch_coming ch = [NClosed])"
  using assms by (auto simp: publisherLocked_def fresh_channel_def clean_def split: option.splits if_splits)

lemma publisherLocked_None: "publisherLocked env c = (None, c') \<Longrightarrow> clean c \<Longrightarrow> clean c'"
  by (auto simp: publisherLocked_def clean_def split: option.splits if_splits)

lemma clean_invalidate [simp]: "clean (invalidatePublisherLocked c)"
  by (simp add: clean_def invalidatePublisherLocked_def)

definition stored :: "string \<Rightarrow> message \<Rightarrow> topology \<Rightarrow> (string \<Rightarrow> message list) \<Rightarrow> string \<Rightarrow> message list" where
  "stored x m t q = (\<lambda>n. if n \<in> routes t x VoteChangedEventType then q n @ [m] else q n)"

context amqp_broker
begin

lemma run_ops_queue: "run_ops decl ops b = (ok, b') \<Longrightarrow> queue b' = queue b"
proof (induction ops arbitrary: b)
  case (Cons op ops)
  then show ?case
    using decl_queue [of op b] by (cases "decl op b") (auto split: if_splits)
qed simp

lemma run_ops_topo: "run_ops decl ops b = (True, b') \<Longrightarrow> topo b' = fold declare_doc ops (topo b)"
proof (induction ops arbitrary: b)
  case (Cons op ops)
  then show ?case
    using decl_ok [of op b] by (cases "decl op b") (auto split: if_splits)
qed simp

lemma connectLocked_keeps:
  assumes "connectLocked decl env c b = (ok, c', b')"
  shows "queue b' = queue b" "clean c \<Longrightarrow> clean c'" "c_config c' = c_config c"
  using assms run_ops_queue [of "topology_ops (c_config c)" b]
  by (auto simp: connectLocked_def declareTopology_def clean_def split: if_splits prod.splits)

lemma pub_Inr:
  assumes ch: "\<not> ch_closed ch" "ch_returns ch = []" "ch_confirms ch = []" "ch_coming ch = [] \<or> ch_coming ch = [NClosed]"
    and p: "pub x VoteChangedEventType m b = (ns, b')"
    and w: "wait_confirm timer ws (ch\<lparr>ch_coming := ch_coming ch @ ns\<rparr>) = Some (Inr (), ch')"
  shows "routes (topo b) x VoteChangedEventType \<noteq> {}" "queue b' = stored x m (topo b) (queue b)"
    "\<not> ch_closed ch' \<and> ch_returns ch' = [] \<and> ch_confirms ch' = [] \<and> (ch_coming ch' = [] \<or> ch_coming ch' = [NClosed])"
proof -
  from wait_confirm_Inr [OF w] ch(3) obtain got where
    got: "ch_coming ch @ ns = got @ ch_coming ch'" "silent got" "acks_of got = True # ch_confirms ch'" and
    ch': "ch_returns ch' = []" "\<not> ch_closed ch'" by auto
  from acks_of_True [OF got(2,3)] obtain rest where rest: "got = NConfirm True # rest" by blast
  with got(1) ch(4) have "ch_coming ch = []" by auto
  with got(1) rest have ns: "ns = [] @ NConfirm True # (rest @ ch_coming ch')" by simp
  have pn: "fst (pub x VoteChangedEventType m b) = ns" "snd (pub x VoteChangedEventType m b) = b'" using p by simp_all
  from pub_mandatory [of x VoteChangedEventType m b "[]" "rest @ ch_coming ch'"] ns pn
  show ne: "routes (topo b) x VoteChangedEventType \<noteq> {}" by auto
  with pub_confirmed [of x VoteChangedEventType m b] ns pn
  show "queue b' = stored x m (topo b) (queue b)" by (simp add: stored_def)
  from pub_once [of x VoteChangedEventType m b "[]" True "rest @ ch_coming ch'"] ns pn
  have "rest @ ch_coming ch' = [] \<or> rest @ ch_coming ch' = [NClosed]" by simp
  moreover have "silent rest" using got(2) rest by simp
  ultimately have "rest = []" by (cases rest) auto
  with got(3) rest \<open>rest @ ch_coming ch' = [] \<or> rest @ ch_coming ch' = [NClosed]\<close> ch'
  show "\<not> ch_closed ch' \<and> ch_returns ch' = [] \<and> ch_confirms ch' = [] \<and> (ch_coming ch' = [] \<or> ch_coming ch' = [NClosed])"
    by simp
qed

lemma Publish_outcome:
  assumes "clean c" "Publish decl pub env x m c b = Some (res, c', b')"
  shows "clean c' \<and> (queue b' = queue b \<or> (\<exists>t. queue b' = stored x m t (queue b))) \<and>
     (\<not> isl res \<longrightarrow> routes (topo b') x VoteChangedEventType \<noteq> {} \<and> queue b' = stored x m (topo b') (queue b))"
proof -
  obtain ok c1 b1 where 1: "connectLocked decl env c b = (ok, c1, b1)" by (metis surj_pair)
  note k = connectLocked_keeps [OF 1]
  have q: "queue (snd (pub x VoteChangedEventType m b1)) = queue b1 \<or>
      queue (snd (pub x VoteChangedEventType m b1)) = stored x m (topo b1) (queue b1)"
    using pub_queue [of x VoteChangedEventType m b1] by (simp add: stored_def)
  show ?thesis
  proof (cases "\<not> ok \<or> fst (publisherLocked env c1) = None \<or> \<not> e_publish env")
    case True
    then show ?thesis
      using assms(2) 1 k(1) k(2) [OF assms(1)] q publisherLocked_None [of env c1]
      by (auto simp: Publish_def split: if_splits option.splits prod.splits)
  next
    case False
    then obtain ch c2 where 2: "publisherLocked env c1 = (Some ch, c2)" "ok" "e_publish env"
      by (cases "publisherLocked env c1") auto
    note p = publisherLocked_Some [OF 2(1)]
    from p(3) k(2) assms(1) have ch: "ch_returns ch = []" "ch_confirms ch = []" "ch_coming ch = [] \<or> ch_coming ch = [NClosed]"
      by auto
    obtain ns b2 where 3: "pub x VoteChangedEventType m b1 = (ns, b2)" by (metis surj_pair)
    let ?timer = "Some (PublishConfirmTimeoutSeconds (c_config c) * 1000)"
    obtain r ch' where 4: "wait_confirm ?timer (e_wait env) (ch\<lparr>ch_coming := ch_coming ch @ ns\<rparr>) = Some (r, ch')"
      using assms(2) 1 2 3 by (cases "wait_confirm ?timer (e_wait env) (ch\<lparr>ch_coming := ch_coming ch @ ns\<rparr>)")
        (auto simp: Publish_def)
    show ?thesis
    proof (cases r)
      case (Inl e)
      with assms(2) 1 2 3 4 q k(1) show ?thesis by (auto simp: Publish_def)
    next
      case (Inr u)
      with 4 have "wait_confirm ?timer (e_wait env) (ch\<lparr>ch_coming := ch_coming ch @ ns\<rparr>) = Some (Inr (), ch')" by simp
      note ok = pub_Inr [OF p(2) ch 3 this]
      have "b' = b2" "c' = c2\<lparr>c_publisher := Some ch'\<rparr>" using assms(2) 1 2 3 4 Inr by (auto simp: Publish_def)
      moreover have "topo b2 = topo b1" using pub_topo [of x VoteChangedEventType m b1] 3 by simp
      ultimately show ?thesis using ok k(1) by (auto simp: clean_def)
    qed
  qed
qed

end

section \<open>A broker with this behaviour\<close>

record ref_broker =
  rb_topo :: topology
  rb_queue :: "string \<Rightarrow> message list"

definition rb_decl :: "amqp_op \<Rightarrow> ref_broker \<Rightarrow> bool \<times> ref_broker" where
  "rb_decl op b = (True, b\<lparr>rb_topo := declare_doc op (rb_topo b)\<rparr>)"

definition rb_pub :: "string \<Rightarrow> string \<Rightarrow> message \<Rightarrow> ref_broker \<Rightarrow> notif list \<times> ref_broker" where
  "rb_pub x key m b =
     (if routes (rb_topo b) x key = {} then ([NReturn 312 ''NO_ROUTE'', NConfirm True], b)
      else ([NConfirm True],
            b\<lparr>rb_queue := (\<lambda>q. if q \<in> routes (rb_topo b) x key then rb_queue b q @ [m] else rb_queue b q)\<rparr>))"

interpretation rb: amqp_broker rb_decl rb_pub rb_topo rb_queue
  by unfold_locales (auto simp: rb_decl_def rb_pub_def append_eq_Cons_conv Cons_eq_append_conv split: if_splits)

interpretation rb_acks: amqp_acks rb_decl rb_pub rb_topo rb_queue "\<lambda>q m b. (True, b)"
  by unfold_locales simp_all

definition empty_broker :: ref_broker where
  "empty_broker = \<lparr>rb_topo = \<lparr>t_exchanges = {}, t_queues = Map.empty, t_binds = {}\<rparr>, rb_queue = \<lambda>_. []\<rparr>"

definition demo_config :: RabbitMQConfig where
  "demo_config = \<lparr>URL = ''amqp://127.0.0.1:5672/'', Exchange = ''convo.events'', VoteQueue = ''convo.vote.persist.v1'',
     PublishConfirmTimeoutSeconds = 5, ConsumerPrefetch = 32, MaxRetries = 5, RetryDelayMilliseconds = 5000\<rparr>"

definition good_env :: mq_env where
  "good_env = \<lparr>e_dial = True, e_topology_channel = True, e_channel = True, e_confirm = True, e_publish = True,
     e_reached = True, e_wait = [Elapse 3, Arrive, PickConfirm]\<rparr>"

definition demo_client :: "client option \<times> ref_broker" where
  "demo_client = New rb_decl good_env demo_config empty_broker"

text \<open>
  C31: once the client is connected, messages have somewhere to go. When \<open>New\<close> succeeds, the vote
  exchange leads to the vote queue, the retry exchange to the retry queue and the dead-letter exchange
  to the dead-letter queue, and a message that expires in the retry queue goes back through the vote
  exchange, with a routing key that leads to the vote queue, after the configured delay.
\<close>

theorem New_topology:
  assumes "amqp_broker decl pub topo queue" "New decl env config b = (Some c, b')"
    and "VoteQueue config \<noteq> RetryQueue" "int_range 32 (RetryDelayMilliseconds config)"
  shows "VoteQueue config \<in> routes (topo b') (Exchange config) VoteChangedEventType \<and>
     RetryQueue \<in> routes (topo b') RetryExchange VoteChangedEventType \<and>
     DeadQueue \<in> routes (topo b') DeadExchange VoteChangedEventType \<and>
     (\<exists>args. t_queues (topo b') RetryQueue = Some args \<and>
        args ''x-dead-letter-exchange'' = Some (ArgString (Exchange config)) \<and>
        args ''x-dead-letter-routing-key'' = Some (ArgString VoteChangedEventType) \<and>
        args ''x-message-ttl'' = Some (ArgInt (RetryDelayMilliseconds config)))"
proof -
  from assms(2) have "run_ops decl (topology_ops config) b = (True, b')"
    by (auto simp: New_def connectLocked_def declareTopology_def split: if_splits prod.splits)
  from amqp_broker.run_ops_topo [OF assms(1) this] show ?thesis
    using assms(3,4) by (simp add: topology_ops_def routes_def wrap_int_in_range RetryQueue_def DeadQueue_def)
qed

theorem New_topology_witness:
  "VoteQueue demo_config \<in> routes (rb_topo (snd demo_client)) (Exchange demo_config) VoteChangedEventType"
proof -
  have "New rb_decl good_env demo_config empty_broker = (Some (the (fst demo_client)), snd demo_client)"
    by (simp add: demo_client_def New_def connectLocked_def declareTopology_def good_env_def topology_ops_def rb_decl_def)
  from New_topology [OF rb.amqp_broker_axioms this] show ?thesis
    by (simp add: demo_config_def RetryQueue_def int_range_def)
qed

text \<open>
  C29: a publication that succeeds is stored. If \<open>Publish\<close> returns without an error, the exchange has
  a queue for the message and the message is at the end of each such queue: it was this message that
  the broker confirmed, not an earlier one of the same channel, and it was not returned as unroutable.
  With an error the message is stored or not, and nothing else in the queues has changed. Either way
  the channel is left so that the next publication cannot read a stale answer.
\<close>

theorem Publish_confirms:
  assumes "amqp_broker decl pub topo queue" "clean c" "Publish decl pub env x m c b = Some (res, c', b')"
  shows "clean c' \<and> (queue b' = queue b \<or> (\<exists>t. queue b' = stored x m t (queue b))) \<and>
     (\<not> isl res \<longrightarrow> routes (topo b') x VoteChangedEventType \<noteq> {} \<and>
        (\<forall>q \<in> routes (topo b') x VoteChangedEventType. queue b' q = queue b q @ [m]))"
  using amqp_broker.Publish_outcome [OF assms] by (auto simp: stored_def)

theorem Publish_confirms_witness:
  "clean (fst (snd (the (Publish rb_decl rb_pub good_env (Exchange demo_config) \<lparr>m_body = NotJson [], m_id = ''1'', m_headers = Map.empty\<rparr>
     (the (fst demo_client)) (snd demo_client)))))"
proof -
  let ?p = "Publish rb_decl rb_pub good_env (Exchange demo_config) \<lparr>m_body = NotJson [], m_id = ''1'', m_headers = Map.empty\<rparr>
     (the (fst demo_client)) (snd demo_client)"
  have client: "the (fst demo_client) = \<lparr>c_config = demo_config, c_conn = ConnOpen, c_publisher = None\<rparr>"
    by (simp add: demo_client_def New_def connectLocked_def declareTopology_def good_env_def topology_ops_def rb_decl_def)
  have "?p \<noteq> None" by (rule Publish_ends)
  then obtain res c' b' where p: "?p = Some (res, c', b')" by auto
  have "clean (the (fst demo_client))" by (simp add: client clean_def)
  from Publish_confirms [OF rb.amqp_broker_axioms this p] p show ?thesis by simp
qed

text \<open>
  C32: \<open>Publish\<close> does not wait for ever. Whatever the network and the broker do, whatever case each
  \<open>select\<close> takes, and also when no notification ever comes, it returns; and it does so no later than the
  configured confirmation timeout after the message was sent: what happens after that time has no influence
  on its result.
\<close>

theorem Publish_returns:
  "Publish decl pub env x m c b \<noteq> None \<and>
   Publish decl pub env x m c b =
     Publish decl pub (env\<lparr>e_wait := within (PublishConfirmTimeoutSeconds (c_config c) * 1000) (e_wait env)\<rparr>) x m c b"
proof -
  have "connectLocked decl (env\<lparr>e_wait := ws\<rparr>) c b = connectLocked decl env c b"
    "publisherLocked (env\<lparr>e_wait := ws\<rparr>) c1 = publisherLocked env c1" for ws c1
    by (simp_all add: connectLocked_def declareTopology_def publisherLocked_def)
  then show ?thesis by (intro conjI Publish_ends) (simp add: Publish_def wait_confirm_within split: prod.split option.split)
qed

end
