(* ===== verification/VoteTables.thy ===== *)
theory VoteTables
  imports Models
begin

text \<open>
  The final vote state in MySQL: the tables \<open>post_vote\<close> and \<open>mq_consumed_message\<close> of
  \<open>init.sql\<close> and the statements of \<open>dao/mysql/vote.go\<close>. A table is the list of its rows; a SQL
  statement is the function on tables it denotes, with assignments made from left to right and
  rows affected counted as MySQL counts them (1 for an insert, 2 for a changed row, 0 for an
  unchanged one). Two things belong to the server and are parameters: the collation under
  which event identifiers are compared, and the conversion of a string to a \<open>bigint\<close>. Faults
  are an argument: which statement fails, and whether a failed commit took effect.
\<close>

section \<open>Tables (init.sql)\<close>

record post_vote_row =
  pv_user :: int
  pv_post :: int
  pv_direction :: int
  pv_version :: int
  pv_last_event_id :: string
  pv_updated_at :: int

record vote_tables =
  consumed :: "(string \<times> string) list"
  post_vote :: "post_vote_row list"

record mysql =
  coll :: "string \<Rightarrow> string"
  sql_bigint :: "string \<Rightarrow> int option"

locale mysql_server =
  fixes M :: mysql
  assumes coll_decimal: "coll M (FormatInt i) = coll M (FormatInt j) \<Longrightarrow> i = j"
    and bigint_parsed: "ParseInt 64 s = Inr n \<Longrightarrow> sql_bigint M s = Some n"

definition ref_mysql :: mysql where
  "ref_mysql = \<lparr>coll = (\<lambda>s. s),
                sql_bigint = (\<lambda>s. case ParseInt 64 s of Inr n \<Rightarrow> Some n | Inl _ \<Rightarrow> None)\<rparr>"

interpretation refsql: mysql_server ref_mysql
  by unfold_locales (simp_all add: ref_mysql_def)

section \<open>Statements of dao/mysql/vote.go\<close>

datatype VotePersistStatus = VotePersisted | VoteDuplicate | VoteSameVersion | VoteStale

datatype commit_fate = Committed | CommitFailed | CommitUnknown

record sql_faults =
  f_begin :: bool
  f_insert :: bool
  f_upsert :: bool
  f_rows :: bool
  f_select :: bool
  f_commit :: commit_fate

definition no_faults :: sql_faults where
  "no_faults = \<lparr>f_begin = False, f_insert = False, f_upsert = False, f_rows = False,
                f_select = False, f_commit = Committed\<rparr>"

definition find_vote :: "post_vote_row list \<Rightarrow> int \<Rightarrow> int \<Rightarrow> post_vote_row option" where
  "find_vote rows u p = find (\<lambda>r. pv_user r = u \<and> pv_post r = p) rows"

text \<open>The assignments of \<open>ON DUPLICATE KEY UPDATE\<close>, in their order: \<open>version\<close> is assigned last.\<close>

definition on_duplicate_key :: "post_vote_row \<Rightarrow> post_vote_row \<Rightarrow> post_vote_row" where
  "on_duplicate_key new r =
     (let r1 = r\<lparr>pv_direction := if pv_version r < pv_version new then pv_direction new else pv_direction r\<rparr>;
          r2 = r1\<lparr>pv_last_event_id := if pv_version r1 < pv_version new then pv_last_event_id new
                                      else pv_last_event_id r1\<rparr>;
          r3 = r2\<lparr>pv_updated_at := if pv_version r2 < pv_version new then pv_updated_at new
                                   else pv_updated_at r2\<rparr>
      in r3\<lparr>pv_version := max (pv_version r3) (pv_version new)\<rparr>)"

definition check_constraints :: "post_vote_row \<Rightarrow> bool" where
  "check_constraints r \<longleftrightarrow> pv_direction r \<in> {-1, 0, 1} \<and> 0 < pv_version r"

definition upsert_vote :: "post_vote_row \<Rightarrow> post_vote_row list \<Rightarrow> (nat \<times> post_vote_row list) option" where
  "upsert_vote new rows =
     (if \<not> check_constraints new then None
      else case find_vote rows (pv_user new) (pv_post new) of
        None \<Rightarrow> Some (1, rows @ [new])
      | Some r \<Rightarrow>
          (let r' = on_duplicate_key new r in
           Some (if r' = r then 0 else 2,
                 map (\<lambda>x. if pv_user x = pv_user new \<and> pv_post x = pv_post new then r' else x) rows)))"

definition event_row :: "mysql \<Rightarrow> int \<Rightarrow> VoteEvent \<Rightarrow> post_vote_row option" where
  "event_row M now event =
     (case (sql_bigint M (UserID event), sql_bigint M (PostID event)) of
        (Some u, Some p) \<Rightarrow>
          Some \<lparr>pv_user = u, pv_post = p, pv_direction = Direction event, pv_version = Version event,
                pv_last_event_id = EventID event, pv_updated_at = now\<rparr>
      | _ \<Rightarrow> None)"

definition is_consumed :: "mysql \<Rightarrow> string \<Rightarrow> 'z vote_tables_scheme \<Rightarrow> bool" where
  "is_consumed M eid t \<longleftrightarrow> list_ex (\<lambda>(e, _). coll M e = coll M eid) (consumed t)"

section \<open>A transaction\<close>

text \<open>
  What \<open>Beginx\<close>, \<open>Exec\<close>, \<open>Commit\<close> and \<open>Rollback\<close> do: a transaction works on its own view of the tables. A
  statement that fails is undone by itself and leaves the view of the statements before it, which is
  still there for whatever the code does next; only the commit or the rollback ends the transaction.
\<close>

record 't tx_db =
  db_tables :: 't
  db_tx :: "'t option"

definition Beginx :: "bool \<Rightarrow> (err, unit, 't tx_db) prog" where
  "Beginx fails d = (if fails then (Inl SqlErr, d) else (Inr (), d\<lparr>db_tx := Some (db_tables d)\<rparr>))"

definition tx_stmt :: "bool \<Rightarrow> ('t \<Rightarrow> (err + 'a) \<times> 't) \<Rightarrow> (err, 'a, 't tx_db) prog" where
  "tx_stmt fails f d =
     (case db_tx d of
        None \<Rightarrow> (Inl (ErrText ''sql: transaction has already been committed or rolled back''), d)
      | Some t \<Rightarrow>
          if fails then (Inl SqlErr, d)
          else (case f t of (Inl e, _) \<Rightarrow> (Inl e, d) | (Inr x, t') \<Rightarrow> (Inr x, d\<lparr>db_tx := Some t'\<rparr>)))"

definition tx_commit :: "commit_fate \<Rightarrow> (err, unit, 't tx_db) prog" where
  "tx_commit fate d =
     (case db_tx d of
        None \<Rightarrow> (Inl (ErrText ''sql: transaction has already been committed or rolled back''), d)
      | Some t \<Rightarrow>
          (case fate of
             Committed \<Rightarrow> (Inr (), d\<lparr>db_tables := t, db_tx := None\<rparr>)
           | CommitFailed \<Rightarrow> (Inl SqlErr, d\<lparr>db_tx := None\<rparr>)
           | CommitUnknown \<Rightarrow> (Inl SqlErr, d\<lparr>db_tables := t, db_tx := None\<rparr>)))"

text \<open>\<open>Rollback\<close> after a commit does nothing but return an error, which the code drops.\<close>

definition tx_rollback :: "'t tx_db \<Rightarrow> 't tx_db" where
  "tx_rollback d = d\<lparr>db_tx := None\<rparr>"

text \<open>\<open>defer\<close>: whatever way the body returns, the deferred call runs on the state it leaves.\<close>

definition deferred :: "('s \<Rightarrow> 's) \<Rightarrow> (err, 'a, 's) prog \<Rightarrow> (err, 'a, 's) prog" where
  "deferred f m s = (case m s of (res, s') \<Rightarrow> (res, f s'))"

section \<open>PersistVoteEvent\<close>

definition duplicate_entry :: err where
  "duplicate_entry = ErrText ''Error 1062: Duplicate entry''"

definition insert_consumed :: "mysql \<Rightarrow> VoteEvent \<Rightarrow> 'z vote_tables_scheme \<Rightarrow> (err + unit) \<times> 'z vote_tables_scheme" where
  "insert_consumed M event t =
     (if is_consumed M (EventID event) t then (Inl duplicate_entry, t)
      else (Inr (), t\<lparr>consumed := consumed t @ [(EventID event, EventType event)]\<rparr>))"

definition upsert_event :: "mysql \<Rightarrow> int \<Rightarrow> VoteEvent \<Rightarrow> 'z vote_tables_scheme \<Rightarrow> (err + nat) \<times> 'z vote_tables_scheme" where
  "upsert_event M now event t =
     (case Option.bind (event_row M now event) (\<lambda>r. upsert_vote r (post_vote t)) of
        None \<Rightarrow> (Inl SqlErr, t) | Some (n, rows) \<Rightarrow> (Inr n, t\<lparr>post_vote := rows\<rparr>))"

definition select_current :: "mysql \<Rightarrow> int \<Rightarrow> VoteEvent \<Rightarrow> 'z vote_tables_scheme \<Rightarrow> (err + post_vote_row) \<times> 'z vote_tables_scheme" where
  "select_current M now event t =
     (case Option.bind (event_row M now event) (\<lambda>r. find_vote (post_vote t) (pv_user r) (pv_post r)) of
        None \<Rightarrow> (Inl SqlNoRows, t) | Some r \<Rightarrow> (Inr r, t))"

definition RowsAffected :: "bool \<Rightarrow> nat \<Rightarrow> (err, nat, 's) prog" where
  "RowsAffected fails n = (if fails then raise SqlErr else ret n)"

definition PersistVoteTx ::
    "mysql \<Rightarrow> sql_faults \<Rightarrow> int \<Rightarrow> VoteEvent \<Rightarrow> (err, VotePersistStatus, 'z vote_tables_scheme tx_db) prog" where
  "PersistVoteTx M flt now event =
     thenM (Beginx (f_begin flt)) (\<lambda>_. deferred tx_rollback (\<lambda>d.
       case tx_stmt (f_insert flt) (insert_consumed M event) d of
         (Inl err, d1) \<Rightarrow>
           if err = duplicate_entry then thenM (tx_commit (f_commit flt)) (\<lambda>_. ret VoteDuplicate) d1 else (Inl err, d1)
       | (Inr _, d1) \<Rightarrow>
           thenM (tx_stmt (f_upsert flt) (upsert_event M now event)) (\<lambda>result.
           thenM (RowsAffected (f_rows flt) result) (\<lambda>rowsAffected.
             if rowsAffected = 0 then
               thenM (tx_stmt (f_select flt) (select_current M now event)) (\<lambda>current.
                 if pv_version current = Version event then
                   if pv_direction current \<noteq> Direction event then raise ErrVoteEventConflict
                   else thenM (tx_commit (f_commit flt)) (\<lambda>_. ret VoteSameVersion)
                 else thenM (tx_commit (f_commit flt)) (\<lambda>_. ret VoteStale))
             else thenM (tx_commit (f_commit flt)) (\<lambda>_. ret VotePersisted))) d1))"

text \<open>What others see of it: the tables once it has returned.\<close>

definition PersistVoteEvent ::
    "mysql \<Rightarrow> sql_faults \<Rightarrow> int \<Rightarrow> VoteEvent \<Rightarrow> 'z vote_tables_scheme
       \<Rightarrow> (err + VotePersistStatus) \<times> 'z vote_tables_scheme" where
  "PersistVoteEvent M flt now event t =
     (case PersistVoteTx M flt now event \<lparr>db_tables = t, db_tx = None\<rparr> of (res, d) \<Rightarrow> (res, db_tables d))"

text \<open>The same, with the transaction's outcome at each return.\<close>

definition commit :: "sql_faults \<Rightarrow> 'v \<Rightarrow> 't \<Rightarrow> 't \<Rightarrow> (err + 'v) \<times> 't" where
  "commit flt x old new =
     (case f_commit flt of
        Committed \<Rightarrow> (Inr x, new) | CommitFailed \<Rightarrow> (Inl SqlErr, old) | CommitUnknown \<Rightarrow> (Inl SqlErr, new))"

lemma PersistVoteEvent_eq:
  "PersistVoteEvent M flt now event t =
     (if f_begin flt then (Inl SqlErr, t)
      else if f_insert flt then (Inl SqlErr, t)
      else if is_consumed M (EventID event) t then commit flt VoteDuplicate t t
      else
        let t1 = t\<lparr>consumed := consumed t @ [(EventID event, EventType event)]\<rparr> in
        if f_upsert flt then (Inl SqlErr, t)
        else case Option.bind (event_row M now event) (\<lambda>r. upsert_vote r (post_vote t1)) of
          None \<Rightarrow> (Inl SqlErr, t)
        | Some (rowsAffected, rows) \<Rightarrow>
            let t2 = t1\<lparr>post_vote := rows\<rparr> in
            if f_rows flt then (Inl SqlErr, t)
            else if rowsAffected = 0 then
              if f_select flt then (Inl SqlErr, t)
              else case Option.bind (event_row M now event) (\<lambda>r. find_vote rows (pv_user r) (pv_post r)) of
                None \<Rightarrow> (Inl SqlNoRows, t)
              | Some current \<Rightarrow>
                  if pv_version current = Version event then
                    if pv_direction current \<noteq> Direction event then (Inl ErrVoteEventConflict, t)
                    else commit flt VoteSameVersion t t2
                  else commit flt VoteStale t t2
            else commit flt VotePersisted t t2)"
proof -
  note defs = PersistVoteEvent_def PersistVoteTx_def Beginx_def deferred_def tx_stmt_def tx_commit_def tx_rollback_def
    thenM_def RowsAffected_def insert_consumed_def upsert_event_def select_current_def commit_def
  show ?thesis
    by (cases "Option.bind (event_row M now event) (\<lambda>r. upsert_vote r (post_vote t))")
       (auto simp: defs duplicate_entry_def split: option.splits commit_fate.splits)
qed

text \<open>No way out of it leaves a transaction open, and nothing but a commit reaches the tables.\<close>

lemma PersistVoteTx_ends:
  assumes "PersistVoteTx M flt now event d = (res, d')" "db_tx d = None"
  shows "db_tx d' = None \<and> db_tables d' = snd (PersistVoteEvent M flt now event (db_tables d)) \<and>
    res = fst (PersistVoteEvent M flt now event (db_tables d))"
proof -
  have "d = \<lparr>db_tables = db_tables d, db_tx = None\<rparr>" using assms(2) by (cases d) simp
  then have "PersistVoteTx M flt now event \<lparr>db_tables = db_tables d, db_tx = None\<rparr> = (res, d')" using assms(1) by simp
  moreover have "db_tx d' = None" using assms
    by (auto simp: PersistVoteTx_def Beginx_def thenM_def deferred_def tx_rollback_def split: if_splits prod.splits)
  ultimately show ?thesis by (simp add: PersistVoteEvent_def)
qed

definition CountPostUpVotes :: "int \<Rightarrow> 'z vote_tables_scheme \<Rightarrow> int" where
  "CountPostUpVotes postID t =
     int (length (filter (\<lambda>r. pv_post r = postID \<and> pv_direction r = 1) (post_vote t)))"

end
