(* ===== verification/VotePersist.thy ===== *)
theory VotePersist
  imports VoteTables
begin

text \<open>
  \<open>PersistVoteEvent\<close> is a last-writer-wins register per user and post. The contract is the
  locale \<open>lww_store\<close>: a store remembers the set of events it has taken in, and shows for each
  key the newest of them; from it follows, once, that the order, the repetition and the failures
  of deliveries do not matter. The model of the MySQL code interprets it.
\<close>

section \<open>Events\<close>

definition parsed_id :: "string \<Rightarrow> int" where
  "parsed_id s = (case ParseInt 64 s of Inr n \<Rightarrow> n | Inl _ \<Rightarrow> 0)"

definition event_key :: "VoteEvent \<Rightarrow> int \<times> int" where
  "event_key e = (parsed_id (UserID e), parsed_id (PostID e))"

definition event_ok :: "VoteEvent \<Rightarrow> bool" where
  "event_ok e \<longleftrightarrow>
     ParseInt 64 (UserID e) = Inr (parsed_id (UserID e)) \<and>
     ParseInt 64 (PostID e) = Inr (parsed_id (PostID e)) \<and>
     Direction e \<in> {-1, 0, 1} \<and> 0 < Version e"

definition is_newest :: "VoteEvent set \<Rightarrow> int \<times> int \<Rightarrow> (int \<times> int) option \<Rightarrow> bool" where
  "is_newest S k v \<longleftrightarrow>
     (case v of
        None \<Rightarrow> \<forall>e\<in>S. event_key e \<noteq> k
      | Some (n, d) \<Rightarrow>
          (\<exists>e\<in>S. event_key e = k \<and> Version e = n \<and> Direction e = d) \<and>
          (\<forall>e\<in>S. event_key e = k \<longrightarrow> Version e \<le> n))"

text \<open>
  The events of one system: the collation tells their identifiers apart, each is well-formed,
  and two events for the same user, post and version carry the same direction.
\<close>

definition consistent :: "mysql \<Rightarrow> VoteEvent set \<Rightarrow> bool" where
  "consistent M U \<longleftrightarrow>
     inj_on (\<lambda>e. coll M (EventID e)) U \<and> (\<forall>e\<in>U. event_ok e) \<and>
     (\<forall>e\<in>U. \<forall>e'\<in>U. event_key e = event_key e' \<and> Version e = Version e' \<longrightarrow> Direction e = Direction e')"

lemma is_newest_unique:
  assumes "consistent M U" "S \<subseteq> U" "is_newest S k v" "is_newest S k w"
  shows "v = w"
proof -
  have eq: "Direction e = Direction e'"
    if "e \<in> S" "e' \<in> S" "event_key e = event_key e'" "Version e = Version e'" for e e'
    using assms(1,2) that unfolding consistent_def by blast
  show ?thesis
  proof (cases v; cases w)
    fix x y assume xy: "v = Some x" "w = Some y"
    obtain n d m c where p: "x = (n, d)" "y = (m, c)" by (cases x; cases y)
    from assms(3,4) obtain e e' where
      e: "e \<in> S" "event_key e = k" "Version e = n" "Direction e = d" "\<forall>e\<in>S. event_key e = k \<longrightarrow> Version e \<le> n" and
      e': "e' \<in> S" "event_key e' = k" "Version e' = m" "Direction e' = c" "\<forall>e\<in>S. event_key e = k \<longrightarrow> Version e \<le> m"
      unfolding xy p is_newest_def by auto
    have "n \<le> m" using e(1,2,3) e'(5) by auto
    moreover have "m \<le> n" using e'(1,2,3) e(5) by auto
    ultimately have "n = m" by simp
    with e e' eq [of e e'] xy p show ?thesis by simp
  qed (use assms(3,4) in \<open>auto simp: is_newest_def\<close>)
qed

lemma is_newest_insert:
  assumes "is_newest S k v"
  shows "is_newest (insert e S) k
           (if event_key e \<noteq> k then v
            else case v of
                   None \<Rightarrow> Some (Version e, Direction e)
                 | Some (n, d) \<Rightarrow> if n < Version e then Some (Version e, Direction e) else v)"
  using assms by (fastforce simp: is_newest_def split: option.splits prod.splits)

section \<open>The contract of a last-writer-wins store\<close>

text \<open>A run of deliveries: the state after it, and the events whose delivery was acknowledged.\<close>

fun deliveries :: "('a \<Rightarrow> 's \<Rightarrow> 's) \<Rightarrow> 'a list \<Rightarrow> 's \<Rightarrow> 's" where
  "deliveries f [] s = s"
| "deliveries f (a # as) s = deliveries f as (f a s)"

fun acked :: "('a \<Rightarrow> 's \<Rightarrow> 's) \<Rightarrow> ('a \<Rightarrow> 's \<Rightarrow> bool) \<Rightarrow> ('a \<Rightarrow> 'e) \<Rightarrow> 'a list \<Rightarrow> 's \<Rightarrow> 'e set" where
  "acked f ok ev [] s = {}"
| "acked f ok ev (a # as) s = (if ok a s then {ev a} else {}) \<union> acked f ok ev as (f a s)"

locale lww_store =
  fixes deliver :: "'a \<Rightarrow> 's \<Rightarrow> 's"
    and ev :: "'a \<Rightarrow> VoteEvent"
    and ok :: "'a \<Rightarrow> 's \<Rightarrow> bool"
    and view :: "'s \<Rightarrow> int \<times> int \<Rightarrow> (int \<times> int) option"
    and universe :: "VoteEvent set \<Rightarrow> bool"
    and holds :: "VoteEvent set \<Rightarrow> VoteEvent set \<Rightarrow> 's \<Rightarrow> bool"
  assumes holds_deliver: "universe U \<Longrightarrow> holds U S s \<Longrightarrow> ev a \<in> U \<Longrightarrow>
      holds U (insert (ev a) S) (deliver a s) \<or> (\<not> ok a s \<and> holds U S (deliver a s))"
    and holds_subset: "holds U S s \<Longrightarrow> S \<subseteq> U"
    and holds_view: "holds U S s \<Longrightarrow> is_newest S k (view s k)"
    and view_determined: "universe U \<Longrightarrow> S \<subseteq> U \<Longrightarrow> is_newest S k v \<Longrightarrow> is_newest S k w \<Longrightarrow> v = w"
begin

lemma run_holds:
  assumes "universe U" "holds U S s" "ev ` set as \<subseteq> U"
  shows "\<exists>S'. S \<union> acked deliver ok ev as s \<subseteq> S' \<and> S' \<subseteq> S \<union> ev ` set as \<and> holds U S' (deliveries deliver as s)"
  using assms(2,3)
proof (induction as arbitrary: S s)
  case Nil
  then show ?case by auto
next
  case (Cons a as)
  from holds_deliver [OF assms(1) Cons.prems(1), of a] Cons.prems(2)
  obtain S1 where S1: "holds U S1 (deliver a s)" "S \<subseteq> S1" "S1 \<subseteq> insert (ev a) S" "ok a s \<longrightarrow> ev a \<in> S1"
    by auto
  from Cons.IH [OF S1(1)] Cons.prems(2)
  obtain S' where "S1 \<union> acked deliver ok ev as (deliver a s) \<subseteq> S'" "S' \<subseteq> S1 \<union> ev ` set as" "holds U S' (deliveries deliver as (deliver a s))"
    by auto
  with S1 show ?case by (intro exI [of _ S']) auto
qed

text \<open>Once every event has been acknowledged, the store shows the newest event of each key.\<close>

lemma run_newest:
  assumes "universe U" "holds U {} s" "ev ` set as \<subseteq> U" "ev ` set as \<subseteq> acked deliver ok ev as s"
  shows "is_newest (ev ` set as) k (view (deliveries deliver as s) k)"
proof -
  from run_holds [OF assms(1,2,3)] obtain S' where
    "acked deliver ok ev as s \<subseteq> S'" "S' \<subseteq> ev ` set as" "holds U S' (deliveries deliver as s)" by auto
  with assms(4) have "S' = ev ` set as" by auto
  with \<open>holds U S' (deliveries deliver as s)\<close> show ?thesis by (metis holds_view)
qed

lemma run_converges:
  assumes "universe U" "holds U {} s" "holds U {} s'"
    and "ev ` set as = ev ` set bs" "ev ` set as \<subseteq> U"
    and "ev ` set as \<subseteq> acked deliver ok ev as s" "ev ` set bs \<subseteq> acked deliver ok ev bs s'"
  shows "view (deliveries deliver as s) k = view (deliveries deliver bs s') k"
  using view_determined [OF assms(1,5), of k]
    run_newest [OF assms(1,2,5,6), of k] run_newest [OF assms(1,3), of bs k] assms(4,5,7)
  by simp

end

section \<open>The tables are such a store\<close>

definition vote_view :: "'z vote_tables_scheme \<Rightarrow> int \<times> int \<Rightarrow> (int \<times> int) option" where
  "vote_view t k = map_option (\<lambda>r. (pv_version r, pv_direction r)) (find_vote (post_vote t) (fst k) (snd k))"

definition rows_distinct :: "post_vote_row list \<Rightarrow> bool" where
  "rows_distinct rows \<longleftrightarrow> distinct (map (\<lambda>r. (pv_user r, pv_post r)) rows)"

definition tables_hold :: "mysql \<Rightarrow> VoteEvent set \<Rightarrow> VoteEvent set \<Rightarrow> 'z vote_tables_scheme \<Rightarrow> bool" where
  "tables_hold M U S t \<longleftrightarrow>
     S \<subseteq> U \<and> rows_distinct (post_vote t) \<and>
     (\<forall>e\<in>U. is_consumed M (EventID e) t \<longleftrightarrow> e \<in> S) \<and>
     (\<forall>k. is_newest S k (vote_view t k))"

lemma find_vote_Some: "find_vote rows u p = Some r \<Longrightarrow> pv_user r = u \<and> pv_post r = p \<and> r \<in> set rows"
  by (auto simp: find_vote_def find_Some_iff)

lemma find_vote_append:
  "find_vote (rows @ [new]) u p =
     (case find_vote rows u p of
        None \<Rightarrow> if pv_user new = u \<and> pv_post new = p then Some new else None | Some r \<Rightarrow> Some r)"
  by (induction rows) (auto simp: find_vote_def)

lemma find_vote_replace:
  assumes "pv_user r' = u'" "pv_post r' = p'"
  shows "find_vote (map (\<lambda>x. if pv_user x = u' \<and> pv_post x = p' then r' else x) rows) u p =
     (if u = u' \<and> p = p' then map_option (\<lambda>_. r') (find_vote rows u p) else find_vote rows u p)"
  using assms by (induction rows) (auto simp: find_vote_def)

lemma on_duplicate_key_key [simp]:
  "pv_user (on_duplicate_key new r) = pv_user r" "pv_post (on_duplicate_key new r) = pv_post r"
  by (simp_all add: on_duplicate_key_def Let_def)

lemma on_duplicate_key_newer:
  "pv_version r < pv_version new \<Longrightarrow>
   on_duplicate_key new r = r\<lparr>pv_direction := pv_direction new, pv_last_event_id := pv_last_event_id new,
                              pv_updated_at := pv_updated_at new, pv_version := pv_version new\<rparr>"
  by (simp add: on_duplicate_key_def Let_def)

lemma on_duplicate_key_older: "\<not> pv_version r < pv_version new \<Longrightarrow> on_duplicate_key new r = r"
  by (simp add: on_duplicate_key_def Let_def)

lemma on_duplicate_key_same_iff: "on_duplicate_key new r = r \<longleftrightarrow> \<not> pv_version r < pv_version new"
  by (cases "pv_version r < pv_version new")
     (auto simp: on_duplicate_key_newer on_duplicate_key_older dest: arg_cong [of _ _ pv_version])

text \<open>What the upsert does to every row, and how many rows it reports.\<close>

lemma upsert_vote_spec:
  assumes "upsert_vote new rows = Some (n, rows')"
  shows "find_vote rows' u p =
      (if u = pv_user new \<and> p = pv_post new
       then Some (case find_vote rows u p of None \<Rightarrow> new | Some r \<Rightarrow> on_duplicate_key new r)
       else find_vote rows u p)"
    and "n = (case find_vote rows (pv_user new) (pv_post new) of
                None \<Rightarrow> 1 | Some r \<Rightarrow> if pv_version r < pv_version new then 2 else 0)"
    and "rows_distinct rows \<Longrightarrow> rows_distinct rows'"
proof -
  show "find_vote rows' u p =
      (if u = pv_user new \<and> p = pv_post new
       then Some (case find_vote rows u p of None \<Rightarrow> new | Some r \<Rightarrow> on_duplicate_key new r)
       else find_vote rows u p)"
  proof (cases "find_vote rows (pv_user new) (pv_post new)")
    case None
    with assms show ?thesis
      by (auto simp: upsert_vote_def find_vote_append split: option.splits if_splits)
  next
    case (Some r)
    note key = find_vote_Some [OF Some]
    with find_vote_replace [of "on_duplicate_key new r" "pv_user new" "pv_post new" rows u p] Some assms
    show ?thesis
      by (auto simp: upsert_vote_def Let_def split: if_splits)
  qed
  show "n = (case find_vote rows (pv_user new) (pv_post new) of
                None \<Rightarrow> 1 | Some r \<Rightarrow> if pv_version r < pv_version new then 2 else 0)"
    using assms
    by (auto simp: upsert_vote_def Let_def on_duplicate_key_same_iff split: option.splits if_splits)
  show "rows_distinct rows'" if "rows_distinct rows"
  proof (cases "find_vote rows (pv_user new) (pv_post new)")
    case None
    with assms have "rows' = rows @ [new]" by (auto simp: upsert_vote_def split: if_splits)
    with None that show ?thesis by (auto simp: rows_distinct_def find_vote_def find_None_iff)
  next
    case (Some r)
    note key = find_vote_Some [OF Some]
    have "map (\<lambda>r. (pv_user r, pv_post r)) (map (\<lambda>x. if pv_user x = pv_user new \<and> pv_post x = pv_post new
            then on_duplicate_key new r else x) rows) = map (\<lambda>r. (pv_user r, pv_post r)) rows"
      unfolding map_map by (rule map_cong) (use key in auto)
    moreover from Some assms have "rows' = map (\<lambda>x. if pv_user x = pv_user new \<and> pv_post x = pv_post new
            then on_duplicate_key new r else x) rows"
      by (auto simp: upsert_vote_def Let_def split: if_splits)
    ultimately show ?thesis using that by (simp only: rows_distinct_def)
  qed
qed

lemma upsert_vote_defined: "check_constraints new \<Longrightarrow> \<exists>n rows'. upsert_vote new rows = Some (n, rows')"
  by (auto simp: upsert_vote_def Let_def split: option.splits)

lemma is_consumed_post_vote [simp]: "is_consumed M x (t\<lparr>post_vote := rows\<rparr>) = is_consumed M x t"
  by (simp add: is_consumed_def)

lemma is_consumed_snoc [simp]:
  "is_consumed M x (t\<lparr>consumed := consumed t @ [(y, z)]\<rparr>) \<longleftrightarrow> is_consumed M x t \<or> coll M x = coll M y"
  by (auto simp: is_consumed_def)

lemma tables_hold_view: "tables_hold M U S t \<Longrightarrow> is_newest S k (vote_view t k)"
  unfolding tables_hold_def by blast

text \<open>The part of the transaction that a new event goes through, when no statement fails.\<close>

lemma tables_hold_upsert:
  assumes U: "consistent M U" and t: "tables_hold M U S t" and e: "e \<in> U"
    and row: "pv_user new = fst (event_key e)" "pv_post new = snd (event_key e)"
      "pv_direction new = Direction e" "pv_version new = Version e"
    and ups: "upsert_vote new (post_vote t) = Some (n, rows)"
  shows "tables_hold M U (insert e S)
           (t\<lparr>consumed := consumed t @ [(EventID e, EventType e)], post_vote := rows\<rparr>)" (is "tables_hold M U _ ?t")
proof -
  have inj: "coll M (EventID e') = coll M (EventID e) \<longleftrightarrow> e' = e" if "e' \<in> U" for e'
    using U e that unfolding consistent_def inj_on_def by blast
  have "is_newest (insert e S) k (vote_view ?t k)" for k
  proof -
    note new = is_newest_insert [OF tables_hold_view [OF t], of e k]
    have "vote_view ?t k =
        (if event_key e \<noteq> k then vote_view t k
         else case vote_view t k of
                None \<Rightarrow> Some (Version e, Direction e)
              | Some (m, d) \<Rightarrow> if m < Version e then Some (Version e, Direction e) else vote_view t k)"
      using upsert_vote_spec(1) [OF ups, of "fst k" "snd k"] row
      by (cases k; cases "find_vote (post_vote t) (fst k) (snd k)")
         (auto simp: vote_view_def event_key_def on_duplicate_key_newer on_duplicate_key_older)
    with new show ?thesis by simp
  qed
  with t e upsert_vote_spec(3) [OF ups] inj show ?thesis
    by (auto simp: tables_hold_def)
qed

lemma upsert_zero:
  assumes U: "consistent M U" and t: "tables_hold M U S t" and e: "e \<in> U"
    and row: "pv_user new = fst (event_key e)" "pv_post new = snd (event_key e)"
      "pv_direction new = Direction e" "pv_version new = Version e"
    and ups: "upsert_vote new (post_vote t) = Some (0, rows)"
  shows "\<exists>c. find_vote rows (pv_user new) (pv_post new) = Some c \<and>
             (pv_version c = Version e \<longrightarrow> pv_direction c = Direction e)"
proof -
  from upsert_vote_spec(2) [OF ups] obtain c where
    c: "find_vote (post_vote t) (pv_user new) (pv_post new) = Some c" "\<not> pv_version c < pv_version new"
    by (auto split: option.splits if_splits)
  with upsert_vote_spec(1) [OF ups, of "pv_user new" "pv_post new"]
  have rows: "find_vote rows (pv_user new) (pv_post new) = Some c"
    by (simp add: on_duplicate_key_older)
  from tables_hold_view [OF t, of "event_key e"] c(1) row
  obtain e' where "e' \<in> S" "event_key e' = event_key e" "Version e' = pv_version c" "Direction e' = pv_direction c"
    by (auto simp: vote_view_def is_newest_def)
  moreover have "S \<subseteq> U" using t by (simp add: tables_hold_def)
  ultimately show ?thesis using U e rows unfolding consistent_def by (metis subset_iff)
qed

lemma commit_cases:
  obtains "commit flt x old new = (Inr x, new)"
  | "commit flt x old new = (Inl SqlErr, old)"
  | "commit flt x old new = (Inl SqlErr, new)"
  by (cases "f_commit flt") (auto simp: commit_def)

context mysql_server
begin

lemma event_row_ok:
  assumes "event_ok e"
  shows "\<exists>new. event_row M now e = Some new \<and> check_constraints new \<and>
     pv_user new = fst (event_key e) \<and> pv_post new = snd (event_key e) \<and>
     pv_direction new = Direction e \<and> pv_version new = Version e"
  using assms bigint_parsed [of "UserID e"] bigint_parsed [of "PostID e"]
  by (auto simp: event_ok_def event_row_def event_key_def check_constraints_def)

lemma PersistVoteEvent_holds:
  assumes U: "consistent M U" and t: "tables_hold M U S t" and e: "e \<in> U"
    and run: "PersistVoteEvent M flt now e t = (r, t')"
  shows "tables_hold M U (insert e S) t' \<and> (r = Inl SqlErr \<or> (\<exists>st. r = Inr st)) \<or> r = Inl SqlErr \<and> t' = t"
proof (cases "is_consumed M (EventID e) t")
  case True
  then have "insert e S = S" using t e by (auto simp: tables_hold_def)
  with True t run show ?thesis
    by (auto simp: PersistVoteEvent_eq commit_def split: if_splits commit_fate.splits)
next
  case False
  from U e have "event_ok e" by (simp add: consistent_def)
  from event_row_ok [OF this] obtain new where new: "event_row M now e = Some new" "check_constraints new" and
    row: "pv_user new = fst (event_key e)" "pv_post new = snd (event_key e)"
      "pv_direction new = Direction e" "pv_version new = Version e" by blast
  from upsert_vote_defined [OF new(2)] obtain n rows where
    ups: "upsert_vote new (post_vote t) = Some (n, rows)" by blast
  note hold = tables_hold_upsert [OF U t e row ups]
  show ?thesis
  proof (cases "n = 0")
    case True
    with upsert_zero [OF U t e row] ups obtain c where
      "find_vote rows (pv_user new) (pv_post new) = Some c" "pv_version c = Version e \<longrightarrow> pv_direction c = Direction e"
      by blast
    with True False new ups hold run show ?thesis
      by (auto simp: PersistVoteEvent_eq Let_def commit_def split: if_splits commit_fate.splits)
  next
    case False': False
    with False new ups hold run show ?thesis
      by (auto simp: PersistVoteEvent_eq Let_def commit_def split: if_splits commit_fate.splits)
  qed
qed

end

section \<open>What the consumer's deliveries do to the tables\<close>

text \<open>One attempt to persist an event: the faults of the database, the clock and the event.\<close>

type_synonym attempt = "sql_faults \<times> int \<times> VoteEvent"

definition attempt_event :: "attempt \<Rightarrow> VoteEvent" where
  "attempt_event a = snd (snd a)"

definition persist :: "mysql \<Rightarrow> attempt \<Rightarrow> 'z vote_tables_scheme \<Rightarrow> 'z vote_tables_scheme" where
  "persist M a t = (case a of (flt, now, e) \<Rightarrow> snd (PersistVoteEvent M flt now e t))"

definition persist_ok :: "mysql \<Rightarrow> attempt \<Rightarrow> 'z vote_tables_scheme \<Rightarrow> bool" where
  "persist_ok M a t = (case a of (flt, now, e) \<Rightarrow> \<not> isl (fst (PersistVoteEvent M flt now e t)))"

sublocale mysql_server \<subseteq> sink: lww_store "persist M" attempt_event "persist_ok M" vote_view "consistent M" "tables_hold M"
proof
  fix U S t a
  assume U: "consistent M U" and t: "tables_hold M U S t" and e: "attempt_event a \<in> U"
  obtain flt now e r t' where a: "a = (flt, now, e)" "PersistVoteEvent M flt now e t = (r, t')"
    by (metis surj_pair)
  then show "tables_hold M U (insert (attempt_event a) S) (persist M a t) \<or>
      (\<not> persist_ok M a t \<and> tables_hold M U S (persist M a t))"
    using PersistVoteEvent_holds [OF U t, of e flt now r t'] e t
    by (auto simp: persist_def persist_ok_def attempt_event_def)
next
  show "tables_hold M U S t \<Longrightarrow> S \<subseteq> U" for U S t
    by (simp add: tables_hold_def)
  show "tables_hold M U S t \<Longrightarrow> is_newest S k (vote_view t k)" for U S t k
    by (rule tables_hold_view)
  show "consistent M U \<Longrightarrow> S \<subseteq> U \<Longrightarrow> is_newest S k v \<Longrightarrow> is_newest S k w \<Longrightarrow> v = w" for U S k v w
    by (rule is_newest_unique)
qed

context mysql_server
begin

lemmas persist_newest = sink.run_newest
lemmas persist_converges = sink.run_converges

end

definition empty_tables :: vote_tables where
  "empty_tables = \<lparr>consumed = [], post_vote = []\<rparr>"

lemma tables_hold_empty: "tables_hold M U {} empty_tables"
  by (auto simp: tables_hold_def rows_distinct_def empty_tables_def is_consumed_def is_newest_def
      vote_view_def find_vote_def)

text \<open>
  C5: the final state does not depend on how the events arrive. Take any sequence of attempts to
  persist vote events, in any order, with any repetitions and any failures of single statements
  and commits (a commit may even fail after it took effect), such that each event is persisted
  without an error at least once. Then for every user and post the table shows the direction and
  version of the newest event, and any other such sequence of the same events ends in the same
  votes.
\<close>

theorem PersistVoteEvent_converges:
  assumes "mysql_server M" "consistent M U"
    and "attempt_event ` set as \<subseteq> U" "attempt_event ` set bs = attempt_event ` set as"
    and "attempt_event ` set as \<subseteq> acked (persist M) (persist_ok M) attempt_event as empty_tables"
    and "attempt_event ` set bs \<subseteq> acked (persist M) (persist_ok M) attempt_event bs empty_tables"
  shows "is_newest (attempt_event ` set as) k (vote_view (deliveries (persist M) as empty_tables) k) \<and>
         vote_view (deliveries (persist M) as empty_tables) k = vote_view (deliveries (persist M) bs empty_tables) k"
  using mysql_server.persist_newest [OF assms(1,2) tables_hold_empty assms(3,5), of k]
    mysql_server.persist_converges [OF assms(1,2) tables_hold_empty tables_hold_empty
      assms(4) [symmetric] assms(3,5,6), of k]
  by simp

definition demo_event :: "string \<Rightarrow> int \<Rightarrow> int \<Rightarrow> VoteEvent" where
  "demo_event eid d v = \<lparr>EventID = eid, EventType = VoteChangedEventType, UserID = ''7'', PostID = ''31'',
                         Direction = d, Version = v, OccurredAt = 1700000000\<rparr>"

definition demo_attempts :: "attempt list" where
  "demo_attempts = [(no_faults, 10, demo_event ''31:7:1'' 1 1), (no_faults, 11, demo_event ''31:7:2'' (-1) 2)]"

definition demo_retries :: "attempt list" where
  "demo_retries =
     [(no_faults\<lparr>f_commit := CommitUnknown\<rparr>, 20, demo_event ''31:7:2'' (-1) 2),
      (no_faults\<lparr>f_upsert := True\<rparr>, 21, demo_event ''31:7:1'' 1 1),
      (no_faults, 22, demo_event ''31:7:2'' (-1) 2), (no_faults, 23, demo_event ''31:7:1'' 1 1)]"

lemmas demo_defs = demo_attempts_def demo_retries_def demo_event_def attempt_event_def

lemma demo_parse [simp]: "ParseInt 64 ''7'' = Inr 7" "ParseInt 64 ''31'' = Inr 31"
  by code_simp+

lemma demo_consistent: "consistent ref_mysql (attempt_event ` set demo_attempts)"
  by (auto simp: consistent_def inj_on_def demo_defs event_ok_def parsed_id_def ref_mysql_def)

lemma demo_acked:
  "acked (persist ref_mysql) (persist_ok ref_mysql) attempt_event demo_attempts empty_tables =
     attempt_event ` set demo_attempts"
  "acked (persist ref_mysql) (persist_ok ref_mysql) attempt_event demo_retries empty_tables =
     attempt_event ` set demo_attempts"
  by code_simp+

theorem PersistVoteEvent_converges_witness:
  "vote_view (deliveries (persist ref_mysql) demo_attempts empty_tables) (7, 31) =
   vote_view (deliveries (persist ref_mysql) demo_retries empty_tables) (7, 31)"
  using PersistVoteEvent_converges [OF refsql.mysql_server_axioms demo_consistent, of demo_attempts demo_retries "(7, 31)"]
    demo_acked by (auto simp: demo_defs)

text \<open>
  C21: a failed attempt leaves nothing behind. However the transaction is left, by the failure of any
  statement, because the event contradicts the stored row, or normally, it has been ended: none is open
  with half of the work in it. After an error both tables are as before, so the event is not marked as
  consumed and its retry is not mistaken for a duplicate; only when the answer to the commit is lost the
  tables may instead be those of the whole transaction.
\<close>

theorem PersistVoteEvent_rolls_back:
  assumes "PersistVoteTx M flt now event d = (res, d')" "db_tx d = None"
  shows "db_tx d' = None \<and>
    (isl res \<and> f_commit flt \<noteq> CommitUnknown \<longrightarrow> db_tables d' = db_tables d) \<and>
    (isl res \<and> f_commit flt = CommitUnknown \<longrightarrow> db_tables d' = db_tables d \<or>
       (\<exists>st. PersistVoteTx M (flt\<lparr>f_commit := Committed\<rparr>) now event d = (Inr st, d')))"
proof -
  obtain r1 d1 where 1: "PersistVoteTx M (flt\<lparr>f_commit := Committed\<rparr>) now event d = (r1, d1)" by fastforce
  note ends = PersistVoteTx_ends [OF assms] PersistVoteTx_ends [OF 1 assms(2)]
  have "d1 = d'" if "db_tables d1 = db_tables d'" using ends that by (cases d1; cases d') simp
  then show ?thesis
    using ends 1
    by (auto simp: PersistVoteEvent_eq commit_def Let_def
        split: if_splits commit_fate.splits option.splits prod.splits)
qed

theorem PersistVoteEvent_rolls_back_witness:
  "\<exists>res. PersistVoteTx ref_mysql (no_faults\<lparr>f_rows := True\<rparr>) 0 (demo_event ''31:7:1'' 1 1) \<lparr>db_tables = empty_tables, db_tx = None\<rparr> =
     (Inl res, \<lparr>db_tables = empty_tables, db_tx = None\<rparr>)"
proof -
  let ?d = "\<lparr>db_tables = empty_tables, db_tx = None\<rparr>"
  obtain res d' where run: "PersistVoteTx ref_mysql (no_faults\<lparr>f_rows := True\<rparr>) 0 (demo_event ''31:7:1'' 1 1) ?d = (res, d')"
    by fastforce
  have "isl (fst (PersistVoteEvent ref_mysql (no_faults\<lparr>f_rows := True\<rparr>) 0 (demo_event ''31:7:1'' 1 1) empty_tables))"
    by code_simp
  then have "isl res" using PersistVoteTx_ends [OF run] by simp
  with PersistVoteEvent_rolls_back [OF run] run show ?thesis
    by (cases d'; cases res) (simp_all add: no_faults_def)
qed

lemma vote_view_upsert:
  assumes "upsert_vote new (post_vote t) = Some (n, rows)"
  shows "find_vote rows u p =
     (case find_vote (post_vote t) u p of
        None \<Rightarrow> if u = pv_user new \<and> p = pv_post new then Some new else None
      | Some r \<Rightarrow> if u = pv_user new \<and> p = pv_post new then Some (on_duplicate_key new r) else Some r)"
  using upsert_vote_spec(1) [OF assms, of u p] by (auto split: option.splits)

lemma on_duplicate_key_monotone:
  "pv_version r \<le> pv_version (on_duplicate_key new r) \<and>
   (pv_version (on_duplicate_key new r) = pv_version r \<longrightarrow> on_duplicate_key new r = r)"
  by (cases "pv_version r < pv_version new") (simp_all add: on_duplicate_key_newer on_duplicate_key_older)

lemma PersistVoteEvent_tables:
  assumes "PersistVoteEvent M flt now event t = (r, t')"
  obtains "post_vote t' = post_vote t"
  | new n where "upsert_vote new (post_vote t) = Some (n, post_vote t')"
  using assms
  by (auto simp: PersistVoteEvent_eq commit_def Let_def bind_eq_Some_conv
           split: if_splits commit_fate.splits option.splits prod.splits)

text \<open>
  C22: versions only grow. Whatever event is delivered, and whatever fails, the row of a user and a
  post never disappears, its version never decreases, and its direction changes only together with
  a strictly greater version: a late or repeated event cannot bring an old vote back.
\<close>

theorem PersistVoteEvent_monotone:
  assumes "PersistVoteEvent M flt now event t = (r, t')" "vote_view t k = Some (v, d)"
  shows "\<exists>v' d'. vote_view t' k = Some (v', d') \<and> v \<le> v' \<and> (v' = v \<longrightarrow> d' = d)"
  using assms(1)
proof (cases rule: PersistVoteEvent_tables)
  case 1
  then have "vote_view t' k = vote_view t k" by (simp add: vote_view_def)
  with assms(2) show ?thesis by simp
next
  case (2 new n)
  from assms(2) obtain row where row: "find_vote (post_vote t) (fst k) (snd k) = Some row" "v = pv_version row" "d = pv_direction row"
    by (auto simp: vote_view_def)
  with vote_view_upsert [OF 2, of "fst k" "snd k"] on_duplicate_key_monotone [of row new]
  show ?thesis by (auto simp: vote_view_def)
qed

theorem PersistVoteEvent_monotone_witness:
  "\<exists>v' d'. vote_view (snd (PersistVoteEvent ref_mysql no_faults 9 (demo_event ''31:7:1'' 1 1)
      (deliveries (persist ref_mysql) [(no_faults, 10, demo_event ''31:7:2'' (-1) 2)] empty_tables))) (7, 31) =
      Some (v', d') \<and> 2 \<le> v' \<and> (v' = 2 \<longrightarrow> d' = -1)"
  by (rule PersistVoteEvent_monotone [OF prod.collapse [symmetric]]) code_simp

text \<open>
  What one delivery reports and whether it writes, from the faults, from whether the event was consumed
  before, and from the version and direction of the row: the decision table of \<open>PersistVoteEvent\<close>.
\<close>

definition persist_table ::
    "sql_faults \<Rightarrow> bool \<Rightarrow> (int \<times> int) option \<Rightarrow> VoteEvent \<Rightarrow> (err + VotePersistStatus) \<times> bool" where
  "persist_table flt dup row e =
     (if f_begin flt \<or> f_insert flt then (Inl SqlErr, False)
      else if dup then (fst (commit flt VoteDuplicate False False), False)
      else if f_upsert flt \<or> f_rows flt then (Inl SqlErr, False)
      else case row of
        None \<Rightarrow> commit flt VotePersisted False True
      | Some (v, d) \<Rightarrow>
          if v < Version e then commit flt VotePersisted False True
          else if f_select flt then (Inl SqlErr, False)
          else if v \<noteq> Version e then commit flt VoteStale False True
          else if d = Direction e then commit flt VoteSameVersion False True
          else (Inl ErrVoteEventConflict, False))"

text \<open>
  C20: what one delivery reports and stores, on every branch, errors included. An event already consumed
  is a duplicate; without a row, or with an older one, the vote is stored; the same version with the
  same direction, and an older event, leave the row as it is and are only marked as consumed; the same
  version with another direction is a conflict, and is not marked. A failing \<open>Begin\<close>, statement, \<open>RowsAffected\<close>
  or commit is an error that writes nothing, a commit whose answer is lost one that has written.
\<close>

theorem PersistVoteEvent_outcome:
  assumes "mysql_server M" "event_ok e"
  shows "\<exists>t'. PersistVoteEvent M flt now e t =
      (case persist_table flt (is_consumed M (EventID e) t) (vote_view t (event_key e)) e of
         (res, written) \<Rightarrow> (res, if written then t' else t)) \<and>
     consumed t' = consumed t @ [(EventID e, EventType e)] \<and>
     (\<forall>k. vote_view t' k =
        (if k = event_key e \<and> (case vote_view t k of None \<Rightarrow> True | Some (v, d) \<Rightarrow> v < Version e)
         then Some (Version e, Direction e) else vote_view t k))"
proof -
  from mysql_server.event_row_ok [OF assms, of now] obtain new where
    new: "event_row M now e = Some new" "check_constraints new" and
    row: "pv_user new = fst (event_key e)" "pv_post new = snd (event_key e)"
      "pv_direction new = Direction e" "pv_version new = Version e" by blast
  from upsert_vote_defined [OF new(2)] obtain n rows where
    ups: "upsert_vote new (post_vote t) = Some (n, rows)" by blast
  let ?t = "t\<lparr>consumed := consumed t @ [(EventID e, EventType e)], post_vote := rows\<rparr>"
  have view: "vote_view ?t k =
        (if k = event_key e \<and> (case vote_view t k of None \<Rightarrow> True | Some (v, d) \<Rightarrow> v < Version e)
         then Some (Version e, Direction e) else vote_view t k)" for k
    using vote_view_upsert [OF ups, of "fst k" "snd k"] row
    by (cases "find_vote (post_vote t) (fst k) (snd k)")
       (auto simp: vote_view_def prod_eq_iff on_duplicate_key_newer on_duplicate_key_older)
  show ?thesis
  proof (intro exI [of _ ?t] conjI allI view)
    show "PersistVoteEvent M flt now e t =
      (case persist_table flt (is_consumed M (EventID e) t) (vote_view t (event_key e)) e of
         (res, written) \<Rightarrow> (res, if written then ?t else t))"
      using upsert_vote_spec(1) [OF ups, of "fst (event_key e)" "snd (event_key e)"]
        upsert_vote_spec(2) [OF ups] new(1) ups row
      by (cases "f_commit flt")
         (auto simp: PersistVoteEvent_eq persist_table_def commit_def vote_view_def on_duplicate_key_older Let_def split: option.splits)
  qed simp
qed

theorem PersistVoteEvent_outcome_witness:
  "PersistVoteEvent ref_mysql (no_faults\<lparr>f_select := True\<rparr>) 9 (demo_event ''31:7:x'' 1 2)
      (deliveries (persist ref_mysql) demo_attempts empty_tables) = (Inl SqlErr, deliveries (persist ref_mysql) demo_attempts empty_tables) \<and>
   fst (PersistVoteEvent ref_mysql no_faults 9 (demo_event ''31:7:x'' 1 2)
      (deliveries (persist ref_mysql) demo_attempts empty_tables)) = Inl ErrVoteEventConflict"
proof -
  let ?t = "deliveries (persist ref_mysql) demo_attempts empty_tables"
  have ok: "event_ok (demo_event ''31:7:x'' 1 2)" by (simp add: demo_event_def event_ok_def parsed_id_def)
  have v: "vote_view ?t (7, 31) = Some (2, -1)" "\<not> is_consumed ref_mysql ''31:7:x'' ?t" by code_simp+
  have k: "event_key (demo_event ''31:7:x'' 1 2) = (7, 31)" "EventID (demo_event ''31:7:x'' 1 2) = ''31:7:x''"
    "Version (demo_event ''31:7:x'' 1 2) = 2" "Direction (demo_event ''31:7:x'' 1 2) = 1"
    by (simp_all add: demo_event_def event_key_def parsed_id_def)
  note out = PersistVoteEvent_outcome [OF refsql.mysql_server_axioms ok, of _ 9 ?t]
  show ?thesis
    using out [of "no_faults\<lparr>f_select := True\<rparr>"] out [of no_faults]
    by (auto simp: persist_table_def k v no_faults_def)
qed

lemma find_vote_iff:
  "rows_distinct rows \<Longrightarrow> find_vote rows u p = Some r \<longleftrightarrow> r \<in> set rows \<and> pv_user r = u \<and> pv_post r = p"
  by (induction rows) (auto simp: find_vote_def rows_distinct_def rev_image_eqI)

lemma distinct_voters:
  "rows_distinct rows \<Longrightarrow> distinct (map pv_user (filter (\<lambda>r. pv_post r = p \<and> pv_direction r = 1) rows))"
  by (induction rows) (auto simp: rows_distinct_def)

text \<open>
  The number of up-votes that the database reports for a post is the number of users whose
  stored vote is up, for any tables that deliveries can produce.
\<close>

theorem CountPostUpVotes_counts:
  assumes "tables_hold M U S t"
  shows "CountPostUpVotes p t = int (card {u. \<exists>v. vote_view t (u, p) = Some (v, 1)})"
proof -
  let ?rows = "filter (\<lambda>r. pv_post r = p \<and> pv_direction r = 1) (post_vote t)"
  have d: "distinct (map (\<lambda>r. (pv_user r, pv_post r)) (post_vote t))"
    using assms by (simp add: tables_hold_def rows_distinct_def)
  have found: "find_vote (post_vote t) u q = Some r \<longleftrightarrow> r \<in> set (post_vote t) \<and> pv_user r = u \<and> pv_post r = q" for u q r
    using find_vote_iff d by (simp add: rows_distinct_def)
  have "{u. \<exists>v. vote_view t (u, p) = Some (v, 1)} = pv_user ` set ?rows"
    by (force simp: vote_view_def found image_iff)
  moreover have "distinct (map pv_user ?rows)"
    using distinct_voters d by (simp add: rows_distinct_def)
  ultimately show ?thesis
    using distinct_card [of "map pv_user ?rows"] by (simp add: CountPostUpVotes_def)
qed

theorem CountPostUpVotes_counts_witness:
  "CountPostUpVotes 31 (deliveries (persist ref_mysql) [hd demo_attempts] empty_tables) =
   int (card {u. \<exists>v. vote_view (deliveries (persist ref_mysql) [hd demo_attempts] empty_tables) (u, 31) = Some (v, 1)})"
proof -
  have "attempt_event ` set [hd demo_attempts] \<subseteq> attempt_event ` set demo_attempts"
    by (simp add: demo_attempts_def)
  from refsql.sink.run_holds [OF demo_consistent tables_hold_empty this] show ?thesis
    by (blast intro: CountPostUpVotes_counts)
qed

end
