(* ===== verification/Worker.thy ===== *)
theory Worker
  imports Outbox Mq VotePersist
begin

text \<open>
  The two background workers: the relay of \<open>worker/vote_relay.go\<close>, which moves events from the
  outbox to the broker, and the consumer of \<open>worker/vote_consumer.go\<close>, which stores them in MySQL,
  retries a failed delivery through the retry queue and moves a hopeless one to the dead-letter queue.
  The services they use are one record of parameters. Between any two of a worker's calls all other
  instances may change what it shares with them.
\<close>

section \<open>Runs among other instances\<close>

record ('r, 'b) services =
  sv_redis :: "'r redis_call"
  sv_decl :: "amqp_op \<Rightarrow> 'b \<Rightarrow> bool \<times> 'b"
  sv_pub :: "string \<Rightarrow> string \<Rightarrow> message \<Rightarrow> 'b \<Rightarrow> notif list \<times> 'b"
  sv_ack :: "string \<Rightarrow> message \<Rightarrow> 'b \<Rightarrow> bool \<times> 'b"
  sv_mysql :: mysql
  sv_error_text :: "err \<Rightarrow> string"

text \<open>What the network does at one call of the RabbitMQ client; the last three fields are for \<open>ConsumeVote\<close>.\<close>

record net_env =
  n_mq :: mq_env
  n_channel :: bool
  n_qos :: bool
  n_consume :: bool

text \<open>
  A worker calls Redis, the broker and MySQL, which it shares with all other instances. \<open>w_others i\<close> is what
  these do before its call number \<open>i\<close>; it works on the shared state and on \<open>w_rest\<close>, which stands for whatever
  else the others have. The faults, the clock and the state of the context at each look are streams too.
  A run can be watched up to any call: call number \<open>w_stop\<close> is not made, and the run is cut there.
\<close>

record ('r, 'b, 'g) world =
  w_redis :: "'r conn"
  w_client :: client
  w_broker :: 'b
  w_tables :: vote_tables
  w_rest :: 'g
  w_others :: "nat \<Rightarrow> 'r \<times> 'b \<times> vote_tables \<times> 'g \<Rightarrow> 'r \<times> 'b \<times> vote_tables \<times> 'g"
  w_net :: "nat \<Rightarrow> net_env"
  w_sql :: "nat \<Rightarrow> sql_faults \<times> int"
  w_calls :: nat
  w_stop :: nat
  w_ctx :: "nat \<Rightarrow> bool"
  w_looks :: nat

datatype ('a, 'w) run = Done 'a 'w | Cut 'w

definition then_run :: "('a, 'w) run \<Rightarrow> ('a \<Rightarrow> 'w \<Rightarrow> ('b, 'w) run) \<Rightarrow> ('b, 'w) run" where
  "then_run r f = (case r of Done x w \<Rightarrow> f x w | Cut w \<Rightarrow> Cut w)"

definition interfere :: "('r, 'b, 'g) world \<Rightarrow> ('r, 'b, 'g) world" where
  "interfere w =
     (case w_others w (w_calls w) (srv (w_redis w), w_broker w, w_tables w, w_rest w) of
        (r, b, t, g) \<Rightarrow> w\<lparr>w_redis := (w_redis w)\<lparr>srv := r\<rparr>, w_broker := b, w_tables := t, w_rest := g,
                          w_calls := Suc (w_calls w)\<rparr>)"

text \<open>A call: the others act, then the call does; it is given its number.\<close>

definition call_run ::
    "(nat \<Rightarrow> ('r, 'b, 'g) world \<Rightarrow> ('a, ('r, 'b, 'g) world) run) \<Rightarrow> ('r, 'b, 'g) world \<Rightarrow> ('a, ('r, 'b, 'g) world) run" where
  "call_run f w = (if w_stop w \<le> w_calls w then Cut w else f (w_calls w) (interfere w))"

definition on_redis :: "(err, 'a, 'r conn) prog \<Rightarrow> ('r, 'b, 'g) world \<Rightarrow> (err + 'a, ('r, 'b, 'g) world) run" where
  "on_redis f = call_run (\<lambda>_ w. case f (w_redis w) of (res, c) \<Rightarrow> Done res (w\<lparr>w_redis := c\<rparr>))"

text \<open>\<open>Publish\<close> always returns (\<open>Publish_returns\<close> of Mq), so the last case does not occur.\<close>

definition mq_publish ::
    "('r, 'b) services \<Rightarrow> string \<Rightarrow> message \<Rightarrow> ('r, 'b, 'g) world \<Rightarrow> (err + unit, ('r, 'b, 'g) world) run" where
  "mq_publish sv exchange m = call_run (\<lambda>i w.
     case Publish (sv_decl sv) (sv_pub sv) (n_mq (w_net w i)) exchange m (w_client w) (w_broker w) of
       Some (res, c, b) \<Rightarrow> Done res (w\<lparr>w_client := c, w_broker := b\<rparr>)
     | None \<Rightarrow> Cut w)"

text \<open>A look at the context: true while it is alive. \<open>waitForRetry\<close> is one, after a second.\<close>

definition ctx_alive :: "('r, 'b, 'g) world \<Rightarrow> (bool, ('r, 'b, 'g) world) run" where
  "ctx_alive w = Done (w_ctx w (w_looks w)) (w\<lparr>w_looks := Suc (w_looks w)\<rparr>)"

definition waitForRetry :: "('r, 'b, 'g) world \<Rightarrow> (bool, ('r, 'b, 'g) world) run" where
  "waitForRetry w = ctx_alive w"

section \<open>The relay (vote_relay.go)\<close>

definition relay_message :: "VoteEvent \<Rightarrow> message" where
  "relay_message e = \<lparr>m_body = JsonEvent e, m_id = EventID e, m_headers = Map.empty\<rparr>"

fun publishVoteMessages ::
    "('r, 'b) services \<Rightarrow> RabbitMQConfig \<Rightarrow> VoteOutboxMessage list \<Rightarrow> ('r, 'b, 'g) world \<Rightarrow> (bool, ('r, 'b, 'g) world) run" where
  "publishVoteMessages sv config [] w = Done True w"
| "publishVoteMessages sv config (m # ms) w =
     then_run (mq_publish sv (Exchange config) (relay_message (mEvent m)) w) (\<lambda>res w1.
       if isl res then waitForRetry w1
       else then_run (on_redis (AckVoteOutbox (sv_redis sv) (mStreamID m)) w1) (\<lambda>acked w2.
         if isl acked then waitForRetry w2 else publishVoteMessages sv config ms w2))"

text \<open>The loop over batches; the run is watched for at most \<open>n\<close> of its rounds.\<close>

fun relayVoteMessages ::
    "('r, 'b) services \<Rightarrow> RabbitMQConfig \<Rightarrow> nat \<Rightarrow> string \<Rightarrow> read_from \<Rightarrow> ('r, 'b, 'g) world \<Rightarrow> (bool, ('r, 'b, 'g) world) run" where
  "relayVoteMessages sv config 0 consumerName start w = Cut w"
| "relayVoteMessages sv config (Suc n) consumerName start w =
     then_run (on_redis (ReadVoteOutbox (sv_redis sv) consumerName start 32) w) (\<lambda>read w1.
       case read of
         Inl _ \<Rightarrow> waitForRetry w1
       | Inr messages \<Rightarrow>
           if messages = [] then Done True w1
           else then_run (publishVoteMessages sv config messages w1) (\<lambda>ok w2.
             if \<not> ok then Done False w2
             else if start = NewEntries then Done True w2
             else relayVoteMessages sv config n consumerName start w2))"

definition staleIdle :: nat where "staleIdle = 30000"

definition relay_round ::
    "('r, 'b) services \<Rightarrow> RabbitMQConfig \<Rightarrow> nat \<Rightarrow> string \<Rightarrow> ('r, 'b, 'g) world \<Rightarrow> (bool, ('r, 'b, 'g) world) run" where
  "relay_round sv config n consumerName w =
     then_run (on_redis (EnsureVoteOutboxGroup (sv_redis sv)) w) (\<lambda>ensured w1.
       if isl ensured then waitForRetry w1
       else then_run (on_redis (ClaimStaleVoteOutbox (sv_redis sv) consumerName staleIdle 32) w1) (\<lambda>claim w2.
         case claim of
           Inl _ \<Rightarrow> waitForRetry w2
         | Inr claimed \<Rightarrow>
             then_run (publishVoteMessages sv config claimed w2) (\<lambda>ok w3.
               if \<not> ok then Done False w3
               else then_run (relayVoteMessages sv config n consumerName (PendingFrom (StreamID 0 0)) w3) (\<lambda>ok w4.
                 if \<not> ok then Done False w4
                 else relayVoteMessages sv config n consumerName NewEntries w4))))"

text \<open>The outer loop, watched for at most \<open>k\<close> rounds. It only ends when its context does.\<close>

fun RunVoteRelay ::
    "('r, 'b) services \<Rightarrow> RabbitMQConfig \<Rightarrow> nat \<Rightarrow> nat \<Rightarrow> string \<Rightarrow> ('r, 'b, 'g) world \<Rightarrow> (unit, ('r, 'b, 'g) world) run" where
  "RunVoteRelay sv config n 0 consumerName w = Cut w"
| "RunVoteRelay sv config n (Suc k) consumerName w =
     then_run (ctx_alive w) (\<lambda>alive w1.
       if \<not> alive then Done () w1
       else then_run (relay_round sv config n consumerName w1) (\<lambda>ok w2.
         if \<not> ok then Done () w2 else RunVoteRelay sv config n k consumerName w2))"

section \<open>The consumer (vote_consumer.go)\<close>

definition retryHeader :: string where "retryHeader = ''x-retry-count''"

definition headerInt :: "(string \<rightharpoonup> header) \<Rightarrow> string \<Rightarrow> int" where
  "headerInt headers key =
     (case headers key of
        None \<Rightarrow> 0 | Some (HInt _ n) \<Rightarrow> n | Some (HString s) \<Rightarrow> Atoi_val s | Some HOther \<Rightarrow> 0)"

definition validateVoteEvent :: "VoteEvent \<Rightarrow> err + unit" where
  "validateVoteEvent event =
     (if EventID event = [] \<or> 64 < length (EventID event) \<or> UserID event = [] \<or> PostID event = [] \<or>
         Version event \<le> 0 \<or> OccurredAt event \<le> 0
      then Inl (ErrText ''vote event is missing required fields'')
      else if EventType event \<noteq> VoteChangedEventType then Inl (ErrText ''unsupported vote event type'')
      else if Direction event \<noteq> -1 \<and> Direction event \<noteq> 0 \<and> Direction event \<noteq> 1
      then Inl (ErrText ''invalid vote direction'')
      else case ParseInt 64 (UserID event) of
        Inl _ \<Rightarrow> Inl (Wrapped ''invalid user id'' (ErrText ''strconv''))
      | Inr userID \<Rightarrow>
      if userID \<le> 0 then Inl (ErrText ''user id must be positive'')
      else case ParseInt 64 (PostID event) of
        Inl _ \<Rightarrow> Inl (Wrapped ''invalid post id'' (ErrText ''strconv''))
      | Inr postID \<Rightarrow>
      if postID \<le> 0 then Inl (ErrText ''post id must be positive'') else Inr ())"

definition ackDelivery ::
    "('r, 'b) services \<Rightarrow> RabbitMQConfig \<Rightarrow> message \<Rightarrow> ('r, 'b, 'g) world \<Rightarrow> (unit, ('r, 'b, 'g) world) run" where
  "ackDelivery sv config delivery =
     call_run (\<lambda>_ w. Done () (w\<lparr>w_broker := snd (sv_ack sv (VoteQueue config) delivery (w_broker w))\<rparr>))"

definition persist_delivery ::
    "('r, 'b) services \<Rightarrow> VoteEvent \<Rightarrow> ('r, 'b, 'g) world \<Rightarrow> (err + VotePersistStatus, ('r, 'b, 'g) world) run" where
  "persist_delivery sv event = call_run (\<lambda>i w.
     case w_sql w i of (flt, now) \<Rightarrow>
       (case PersistVoteEvent (sv_mysql sv) flt now event (w_tables w) of (res, t) \<Rightarrow> Done res (w\<lparr>w_tables := t\<rparr>)))"

text \<open>A negative acknowledgement with requeue does nothing here: that the broker then gives the message
  out again is a step of the broker.\<close>

definition moveToDeadLetter ::
    "('r, 'b) services \<Rightarrow> RabbitMQConfig \<Rightarrow> message \<Rightarrow> string \<Rightarrow> err \<Rightarrow> ('r, 'b, 'g) world \<Rightarrow> (unit, ('r, 'b, 'g) world) run" where
  "moveToDeadLetter sv config delivery eventID cause w =
     (let headers = [retryHeader \<mapsto> HInt 64 (headerInt (m_headers delivery) retryHeader),
                     ''x-error'' \<mapsto> HString (sv_error_text sv cause)] in
      then_run (mq_publish sv DeadExchange \<lparr>m_body = m_body delivery, m_id = eventID, m_headers = headers\<rparr> w)
        (\<lambda>res w1. if isl res then Done () w1 else ackDelivery sv config delivery w1))"

definition retryVoteDelivery ::
    "('r, 'b) services \<Rightarrow> RabbitMQConfig \<Rightarrow> message \<Rightarrow> string \<Rightarrow> err \<Rightarrow> ('r, 'b, 'g) world \<Rightarrow> (unit, ('r, 'b, 'g) world) run" where
  "retryVoteDelivery sv config delivery eventID cause w =
     (let retryCount = wrap_int 64 (headerInt (m_headers delivery) retryHeader + 1) in
      if MaxRetries config < retryCount then moveToDeadLetter sv config delivery eventID cause w
      else
        let headers = [retryHeader \<mapsto> HInt 32 (wrap_int 32 retryCount)] in
        then_run (mq_publish sv RetryExchange \<lparr>m_body = m_body delivery, m_id = eventID, m_headers = headers\<rparr> w)
          (\<lambda>res w1. if isl res then Done () w1 else ackDelivery sv config delivery w1))"

definition handleVoteDelivery ::
    "('r, 'b) services \<Rightarrow> RabbitMQConfig \<Rightarrow> message \<Rightarrow> ('r, 'b, 'g) world \<Rightarrow> (unit, ('r, 'b, 'g) world) run" where
  "handleVoteDelivery sv config delivery w =
     (case m_body delivery of
       NotJson s \<Rightarrow>
         moveToDeadLetter sv config delivery (m_id delivery) (Wrapped ''invalid json'' (ErrText s)) w
     | JsonEvent event \<Rightarrow>
         (case validateVoteEvent event of
            Inl err \<Rightarrow> moveToDeadLetter sv config delivery (EventID event) err w
          | Inr _ \<Rightarrow>
              then_run (persist_delivery sv event w) (\<lambda>res w1.
                case res of
                  Inr status \<Rightarrow> ackDelivery sv config delivery w1
                | Inl err \<Rightarrow>
                    if errors_is err ErrVoteEventConflict
                    then moveToDeadLetter sv config delivery (EventID event) err w1
                    else retryVoteDelivery sv config delivery (EventID event) err w1)))"

section \<open>ConsumeVote (mq/rabbitmq.go) and the loop of the consumer\<close>

definition ConsumeVote ::
    "(amqp_op \<Rightarrow> 'b \<Rightarrow> bool \<times> 'b) \<Rightarrow> net_env \<Rightarrow> client \<Rightarrow> 'b \<Rightarrow> bool \<times> client \<times> 'b" where
  "ConsumeVote decl env c b =
     (case connectLocked decl (n_mq env) c b of
        (ok, c1, b1) \<Rightarrow>
          if \<not> ok then (False, c1, b1)
          else if \<not> n_channel env then (False, Close c1, b1)
          else if \<not> n_qos env then (False, c1, b1)
          else if \<not> n_consume env then (False, c1, b1)
          else (True, c1, b1))"

definition consume_vote :: "('r, 'b) services \<Rightarrow> ('r, 'b, 'g) world \<Rightarrow> (bool, ('r, 'b, 'g) world) run" where
  "consume_vote sv = call_run (\<lambda>i w.
     case ConsumeVote (sv_decl sv) (w_net w i) (w_client w) (w_broker w) of
       (ok, c, b) \<Rightarrow> Done ok (w\<lparr>w_client := c, w_broker := b\<rparr>))"

text \<open>
  \<open>recv queue n\<close> is the receive from the channel of deliveries that is call number \<open>n\<close>: the message the broker
  gives out, which is then no longer ready, or nothing when the channel is closed.
\<close>

locale amqp_deliveries =
  fixes topo :: "'b \<Rightarrow> topology"
    and queue :: "'b \<Rightarrow> string \<Rightarrow> message list"
    and recv :: "string \<Rightarrow> nat \<Rightarrow> 'b \<Rightarrow> (message \<times> 'b) option"
  assumes recv_topo: "recv q n b = Some (m, b') \<Longrightarrow> topo b' = topo b"
    and recv_queue: "recv q n b = Some (m, b') \<Longrightarrow>
      \<exists>xs ys. queue b q = xs @ m # ys \<and> queue b' = (queue b)(q := xs @ ys)"

definition next_delivery ::
    "(string \<Rightarrow> nat \<Rightarrow> 'b \<Rightarrow> (message \<times> 'b) option) \<Rightarrow> RabbitMQConfig \<Rightarrow> ('r, 'b, 'g) world \<Rightarrow> (message option, ('r, 'b, 'g) world) run" where
  "next_delivery recv config = call_run (\<lambda>i w.
     case recv (VoteQueue config) i (w_broker w) of
       None \<Rightarrow> Done None w | Some (delivery, b) \<Rightarrow> Done (Some delivery) (w\<lparr>w_broker := b\<rparr>))"

text \<open>\<open>for delivery := range deliveries\<close>, watched for at most \<open>n\<close> deliveries.\<close>

fun consume_deliveries ::
    "('r, 'b) services \<Rightarrow> RabbitMQConfig \<Rightarrow> (string \<Rightarrow> nat \<Rightarrow> 'b \<Rightarrow> (message \<times> 'b) option) \<Rightarrow> nat
       \<Rightarrow> ('r, 'b, 'g) world \<Rightarrow> (unit, ('r, 'b, 'g) world) run" where
  "consume_deliveries sv config recv 0 w = Cut w"
| "consume_deliveries sv config recv (Suc n) w =
     then_run (next_delivery recv config w) (\<lambda>got w1.
       case got of
         None \<Rightarrow> Done () w1
       | Some delivery \<Rightarrow>
           then_run (handleVoteDelivery sv config delivery w1) (\<lambda>_ w2. consume_deliveries sv config recv n w2))"

text \<open>The outer loop, watched for at most \<open>k\<close> rounds.\<close>

fun RunVoteConsumer ::
    "('r, 'b) services \<Rightarrow> RabbitMQConfig \<Rightarrow> (string \<Rightarrow> nat \<Rightarrow> 'b \<Rightarrow> (message \<times> 'b) option) \<Rightarrow> nat \<Rightarrow> nat
       \<Rightarrow> ('r, 'b, 'g) world \<Rightarrow> (unit, ('r, 'b, 'g) world) run" where
  "RunVoteConsumer sv config recv n 0 w = Cut w"
| "RunVoteConsumer sv config recv n (Suc k) w =
     then_run (ctx_alive w) (\<lambda>alive w1.
       if \<not> alive then Done () w1
       else then_run (consume_vote sv w1) (\<lambda>ok w2.
         if \<not> ok
         then then_run (waitForRetry w2) (\<lambda>again w3. if again then RunVoteConsumer sv config recv n k w3 else Done () w3)
         else then_run (consume_deliveries sv config recv n w2) (\<lambda>_ w3. RunVoteConsumer sv config recv n k w3)))"

end
