(* ===== verification/VoteCorrect.thy ===== *)
theory VoteCorrect
  imports VoteScript
begin

text \<open>
  The vote script is correct: it never stops half-way on a well-formed state, it implements the
  abstract vote machine, and it keeps the invariants of the vote state.
\<close>

section \<open>The types of the keys\<close>

definition types_match :: "keyspace \<Rightarrow> (string \<times> string) list \<Rightarrow> bool" where
  "types_match ks kts \<longleftrightarrow>
     list_all (\<lambda>(k, t). value_type (ks k) = ''none'' \<or> value_type (ks k) = t) kts"

context redis_server
begin

lemma types_ok_run:
  "fst (types_ok call kts r) = Inr (types_match (db r) kts) \<and> db (snd (types_ok call kts r)) = db r"
proof (induction kts arbitrary: r)
  case Nil
  then show ?case by (simp add: types_match_def)
next
  case (Cons x kts)
  then show ?case
    by (cases x) (simp add: thenM_run type_is_def key_type_def call_reply call_db types_match_def)
qed

end

declare types_ok.simps [simp del]

lemma vote_keys_types:
  assumes "vote_wf ks"
  shows "types_match ks [(time_key, ''zset''), (score_key, ''zset''), (voted_key p, ''zset''),
           (version_key p, ''hash''), (outbox_key, ''stream'')]"
proof -
  have "zset_at ks time_key \<noteq> None" "zset_at ks score_key \<noteq> None" "zset_at ks (voted_key p) \<noteq> None"
    "hash_at ks (version_key p) \<noteq> None" "stream_at ks outbox_key \<noteq> None"
    using assms unfolding vote_wf_def by (metis option.distinct(1))+
  then show ?thesis
    unfolding zset_at_None_iff hash_at_None_iff stream_at_None_iff by (simp add: types_match_def)
qed

section \<open>The effect of an accepted vote\<close>

definition applied :: "keyspace \<Rightarrow> keyspace \<Rightarrow> vote_args \<Rightarrow> int \<Rightarrow> int \<Rightarrow> int \<Rightarrow> bool" where
  "applied ks ks' a delta d v \<longleftrightarrow>
     (\<exists>z2 z3 h s i.
        zset_at ks score_key = Some z2 \<and> zset_at ks (voted_key (arg_post a)) = Some z3 \<and>
        hash_at ks (version_key (arg_post a)) = Some h \<and> stream_at ks outbox_key = Some s \<and>
        last_id s < i \<and>
        ks' = (put_zset
                (put_zset ks score_key
                   (zs_add (arg_post a) (score_plus z2 (arg_post a) delta) z2))
                (voted_key (arg_post a))
                (if d = 0 then zs_rem (arg_user a) z3 else zs_add (arg_user a) d z3))
               (version_key (arg_post a) \<mapsto> VHash (h(arg_user a \<mapsto> FormatInt v)),
                outbox_key \<mapsto> VStream (s\<lparr>entries := entries s @ [(i, vote_event_fields a d v)],
                                         last_id := i\<rparr>)))"

context redis_server
begin

lemma vote_lua_apply_run:
  assumes z2: "zset_at (db r) score_key = Some z2"
    and z3: "zset_at (db r) (voted_key (arg_post a)) = Some z3"
    and h: "hash_at (db r) (version_key (arg_post a)) = Some h"
    and s: "stream_at (db r) outbox_key = Some s"
    and v: "stored_int (h (arg_user a)) = Some v" "int_range 64 (v + 1)"
    and w: "tonumber (arg_score a) = Some w"
  shows "\<exists>sid. fst (vote_lua_apply call (vote_keys (arg_post a)) a d (Some old) r) =
             Inr (RArray [RInt 0, RInt old, RInt d, RInt (d - old), RInt (v + 1), sid])"
    and "applied (db r) (db (snd (vote_lua_apply call (vote_keys (arg_post a)) a d (Some old) r)))
           a ((d - old) * w) d (v + 1)"
  using assms
  by (auto simp: vote_lua_apply_def vote_keys_def lua_arith_def lua_num_def thenM_run call_reply call_db
        on_zset_def on_hash_def on_stream_def int_reply_def Let_def applied_def split: if_splits)
     (rule exI, rule conjI, rule nid_fresh, auto simp: call_db on_zset_def on_hash_def)+

end

section \<open>Reading a well-formed vote state\<close>

lemma vote_wfE:
  assumes "vote_wf ks"
  obtains z1 z2 z3 h s where
    "zset_at ks time_key = Some z1" "zs_wf z1" "zset_at ks score_key = Some z2" "zs_wf z2"
    "zset_at ks (voted_key p) = Some z3" "voted_wf z3"
    "hash_at ks (version_key p) = Some h" "versions_wf h" "stream_at ks outbox_key = Some s"
  using assms unfolding vote_wf_def by metis

lemma stored_int_FormatInt [simp]: "int_range 64 n \<Longrightarrow> stored_int (Some (FormatInt n)) = Some n"
  by (simp add: stored_int_def ParseInt_FormatInt)

lemma versions_wfD:
  "versions_wf h \<Longrightarrow> h u = Some s \<Longrightarrow> \<exists>n. s = FormatInt n \<and> 0 < n \<and> int_range 64 n"
  by (simp add: versions_wf_def)

lemma stored_version:
  assumes "hash_at ks (version_key p) = Some h" "versions_wf h"
  shows "stored_int (h u) = Some (version_of ks p u)"
  using assms
  by (cases "h u") (auto simp: version_of_def hget_def stored_int_def [of None] dest!: versions_wfD)

lemma read_version:
  assumes "hash_at ks (version_key p) = Some h" "versions_wf h"
  shows "tonumber (bulk_or ''0'' (case h u of None \<Rightarrow> RNil | Some v \<Rightarrow> RBulk v)) = Some (version_of ks p u)"
  using assms
  by (cases "h u") (auto simp: version_of_def hget_def bulk_or_def dest!: versions_wfD)

lemma read_direction:
  assumes "zset_at ks (voted_key p) = Some z"
  shows "tonumber (bulk_or ''0'' (case map_of z u of None \<Rightarrow> RNil | Some s \<Rightarrow> RBulk (FormatInt s)))
         = Some (direction_of ks p u)"
  using assms by (cases "map_of z u") (auto simp: direction_of_def zscore_def bulk_or_def)

lemma version_nonneg: "vote_wf ks \<Longrightarrow> 0 \<le> version_of ks p u"
  by (erule vote_wfE [of _ p])
     (fastforce simp: version_of_def hget_def versions_wf_def split: option.splits)

section \<open>An accepted vote, abstractly\<close>

lemma abs_vote_applied:
  assumes "applied ks ks' a delta d v" "zscore ks score_key (arg_post a) = Some sc"
  shows "abs_vote ks' = (abs_vote ks)
    \<lparr>vs_score := (zscore ks score_key)(arg_post a \<mapsto> sc + delta),
     vs_dir := (direction_of ks)(arg_post a := (direction_of ks (arg_post a))(arg_user a := d)),
     vs_ver := (version_of ks)(arg_post a := (version_of ks (arg_post a))(arg_user a := v)),
     vs_out := outbox ks @ [vote_event_fields a d v]\<rparr>"
proof -
  from assms(1) obtain z2 z3 h s i where
    z2: "zset_at ks score_key = Some z2" and
    z3: "zset_at ks (voted_key (arg_post a)) = Some z3" and
    h: "hash_at ks (version_key (arg_post a)) = Some h" and s: "stream_at ks outbox_key = Some s" and
    ks': "ks' = (put_zset
                (put_zset ks score_key (zs_add (arg_post a) (score_plus z2 (arg_post a) delta) z2))
                (voted_key (arg_post a))
                (if d = 0 then zs_rem (arg_user a) z3 else zs_add (arg_user a) d z3))
               (version_key (arg_post a) \<mapsto> VHash (h(arg_user a \<mapsto> FormatInt v)),
                outbox_key \<mapsto> VStream (s\<lparr>entries := entries s @ [(i, vote_event_fields a d v)],
                                         last_id := i\<rparr>))"
    unfolding applied_def by blast
  have sc: "map_of z2 (arg_post a) = Some sc"
    using assms(2) z2 by (simp add: zscore_def)
  have "zscore ks' time_key = zscore ks time_key"
    by (rule ext) (simp add: zscore_def ks')
  moreover have "zscore ks' score_key = (zscore ks score_key)(arg_post a \<mapsto> sc + delta)"
    by (rule ext) (simp add: zscore_def ks' z2 map_of_zs_add sc score_plus_def)
  moreover have "direction_of ks' =
      (direction_of ks)(arg_post a := (direction_of ks (arg_post a))(arg_user a := d))"
    by (intro ext) (simp add: direction_of_def zscore_def ks' z3 map_of_zs_add map_of_zs_rem)
  moreover have "version_of ks' =
      (version_of ks)(arg_post a := (version_of ks (arg_post a))(arg_user a := v))"
    by (intro ext) (simp add: version_of_def hget_def ks' h)
  moreover have "outbox ks' = outbox ks @ [vote_event_fields a d v]"
    by (simp add: outbox_def ks' s)
  ultimately show ?thesis by (simp add: abs_vote_def)
qed

lemma spec_vote_version:
  "spec_vote u p d eid now s = (Inr res, s') \<Longrightarrow>
   vs_ver s' p u = rVersion res \<and> vs_ver s' p u \<le> vs_ver s p u + 1"
  by (auto simp: spec_vote_def Let_def split: if_splits option.splits)

lemma spec_vote_again:
  "spec_vote u p d eid now s = (Inr res, s') \<Longrightarrow> vs_time s p = Some created \<Longrightarrow>
   now2 - created \<le> oneWeekInSeconds \<Longrightarrow>
   spec_vote u p d eid2 now2 s' = (Inr (res\<lparr>rChanged := False\<rparr>), s')"
  by (auto simp: spec_vote_def Let_def split: if_splits option.splits)

section \<open>The script implements the vote machine\<close>

definition vote_done ::
    "int \<Rightarrow> keyspace \<Rightarrow> keyspace \<Rightarrow> vote_args \<Rightarrow> (string + reply) \<Rightarrow> (err + VoteResult) \<times> vote_state \<Rightarrow> bool" where
  "vote_done d ks ks' a result spec \<longleftrightarrow>
     (\<exists>rep. result = Inr rep \<and> vote_reply_result d rep = fst spec) \<and>
     abs_vote ks' = snd spec \<and>
     (ks' = ks \<or>
      d \<in> {-1, 0, 1} \<and> zscore ks score_key (arg_post a) \<noteq> None \<and>
      applied ks ks' a ((d - direction_of ks (arg_post a) (arg_user a)) * scorePerVote) d
        (version_of ks (arg_post a) (arg_user a) + 1))"

lemma vote_reply_rejected:
  "vote_reply_result d (RArray [RInt 1, x1, x2, x3, RInt 0, x5]) = Inl ErrVoteTimeExpired"
  "vote_reply_result d (RArray [RInt 3, x1, x2, x3, RInt 0, x5]) = Inl ErrPostNotInitialized"
  "vote_reply_result d (RArray [RInt 4, x1, x2, x3, RInt 0, x5]) = Inl ErrInvalidDirection"
  "vote_reply_result d (RArray [RInt 5, x1, x2, x3, RInt 0, x5]) = Inl ErrVoteKeyType"
  by (simp_all add: vote_reply_result_def redisInt64_def)

lemma vote_reply_accepted:
  "vote_reply_result d (RArray [RInt 0, x1, x2, x3, RInt v, x5]) =
     Inr \<lparr>rDirection = d, rVersion = v, rChanged = True\<rparr>"
  "vote_reply_result d (RArray [RInt 2, x1, x2, x3, RInt v, x5]) =
     Inr \<lparr>rDirection = d, rVersion = v, rChanged = False\<rparr>"
  by (simp_all add: vote_reply_result_def redisInt64_def)

context redis_server
begin

lemma vote_lua_run:
  assumes wf: "vote_wf (db r)"
    and room: "int_range 64 (version_of (db r) p u + 1)"
  shows "vote_done d (db r) (db (snd (vote_lua call (vote_keys p) (vote_argv u p d eid now) r)))
           (vote_argv u p d eid now)
           (fst (vote_lua call (vote_keys p) (vote_argv u p d eid now) r))
           (spec_vote u p d eid now (abs_vote (db r)))"
proof -
  obtain z1 z2 z3 h s where
    z: "zset_at (db r) time_key = Some z1" "zset_at (db r) score_key = Some z2"
       "zset_at (db r) (voted_key p) = Some z3" "hash_at (db r) (version_key p) = Some h"
       "versions_wf h" "stream_at (db r) outbox_key = Some s"
    using wf by (rule vote_wfE [of _ p])
  let ?tk = "types_ok call [(time_key, ''zset''), (score_key, ''zset''), (voted_key p, ''zset''),
       (version_key p, ''hash''), (outbox_key, ''stream'')]"
  have t: "fst (?tk r) = Inr True" "db (snd (?tk r)) = db r"
    using types_ok_run vote_keys_types [OF wf, of p] by simp_all
  note run = vote_lua_def vote_keys_def thenM_run t
    and checks = lua_num_def call_reply call_db on_zset_def on_hash_def z zscore_def bulk_or_def
    and spec = vote_done_def spec_vote_def abs_vote_def vote_argv_def vote_reply_rejected
  consider (dir) "d \<notin> {-1, 0, 1}"
    | (absent) "d \<in> {-1, 0, 1}" "map_of z1 p = None \<or> map_of z2 p = None"
    | (expired) t1 sc where "d \<in> {-1, 0, 1}" "map_of z1 p = Some t1" "map_of z2 p = Some sc"
        "oneWeekInSeconds < now - t1"
    | (live) t1 sc where "d \<in> {-1, 0, 1}" "map_of z1 p = Some t1" "map_of z2 p = Some sc"
        "\<not> oneWeekInSeconds < now - t1"
    by (metis not_Some_eq)
  then show ?thesis
  proof cases
    case dir
    then show ?thesis by (auto simp: run spec)
  next
    case absent
    then show ?thesis by (auto simp: run checks spec split: option.splits)
  next
    case expired
    then show ?thesis by (auto simp: run checks spec)
  next
    case live
    note old = read_direction [OF z(3), of u] and ver = read_version [OF z(4,5), of u]
    show ?thesis
    proof (cases "direction_of (db r) p u = d")
      case True
      with live old ver show ?thesis
        by (auto simp: run lua_num_def call_reply call_db on_zset_def on_hash_def z zscore_def
              bulk_or_def [of "[]"] spec vote_reply_accepted)
    next
      case False
      define r3 where "r3 = snd (call (HGET (version_key p) u) (snd (call (ZSCORE (voted_key p) u)
        (snd (call (ZSCORE score_key p) (snd (call (ZSCORE time_key p) (snd (?tk r)))))))))"
      let ?a = "vote_argv u p d eid now" and ?old = "direction_of (db r) p u"
        and ?v = "version_of (db r) p u"
      have r3: "db r3 = db r"
        by (simp add: r3_def call_db on_zset_def on_hash_def z t)
      have eq: "vote_lua call (vote_keys p) ?a r = vote_lua_apply call (vote_keys (arg_post ?a)) ?a d (Some ?old) r3"
        using live old ver False
        by (auto simp: run lua_num_def call_reply call_db on_zset_def on_hash_def z
              bulk_or_def [of "[]"] vote_argv_def r3_def)
      have v: "stored_int (h u) = Some ?v" by (rule stored_version [OF z(4,5)])
      have a: "arg_post ?a = p" "arg_user ?a = u" "tonumber (arg_score ?a) = Some scorePerVote"
        by (simp_all add: vote_argv_def)
      note ap = vote_lua_apply_run [of r3 z2 ?a z3 h s ?v scorePerVote d ?old, unfolded r3 a, OF z(2,3,4,6) v room refl]
      have sc: "zscore (db r) score_key p = Some sc" using live z by (simp add: zscore_def)
      have abs: "abs_vote (db (snd (vote_lua call (vote_keys p) ?a r))) = snd (spec_vote u p d eid now (abs_vote (db r)))"
        using abs_vote_applied [OF ap(2), unfolded a, OF sc] live False z
        by (auto simp: eq a spec_vote_def abs_vote_def zscore_def Let_def)
      show ?thesis
        unfolding vote_done_def abs
        using ap live False z by (auto simp: eq a spec_vote_def abs_vote_def zscore_def Let_def vote_reply_accepted)
    qed
  qed
qed

end

section \<open>Invariants of an accepted vote\<close>

definition net_votes :: "keyspace \<Rightarrow> string \<Rightarrow> int" where
  "net_votes ks p = (case zset_at ks (voted_key p) of None \<Rightarrow> 0 | Some z \<Rightarrow> sum_list (map snd z))"

text \<open>A post's score is its creation time plus 432 for each vote up, minus 432 for each vote down.\<close>

definition score_inv :: "keyspace \<Rightarrow> bool" where
  "score_inv ks \<longleftrightarrow>
     (\<forall>p. zscore ks score_key p =
           map_option (\<lambda>t. t + net_votes ks p * scorePerVote) (zscore ks time_key p))"

lemma sum_list_insort: "sum_list (map snd (insort_key f x z)) = snd x + sum_list (map snd z)"
  for z :: "('a \<times> int) list"
  by (induction z) auto

lemma sum_list_rem:
  "distinct (map fst z) \<Longrightarrow>
   sum_list (map snd (zs_rem m z)) = sum_list (map snd z) - (case map_of z m of None \<Rightarrow> 0 | Some d \<Rightarrow> d)"
proof (induction z)
  case (Cons x z)
  then show ?case
    using zs_rem_absent [of z m]
    by (cases x) (auto simp: zs_rem_def map_of_eq_None_iff split: option.splits)
qed (simp add: zs_rem_def)

lemma sum_list_add:
  "zs_wf z \<Longrightarrow>
   sum_list (map snd (zs_add m d z)) = sum_list (map snd z) - (case map_of z m of None \<Rightarrow> 0 | Some d \<Rightarrow> d) + d"
  by (simp add: zs_add_def sum_list_insort sum_list_rem zs_wf_def)

lemma voted_wf_rem: "voted_wf z \<Longrightarrow> voted_wf (zs_rem u z)"
  by (auto simp: voted_wf_def zs_wf_rem set_zs_rem)

lemma voted_wf_add: "voted_wf z \<Longrightarrow> d = -1 \<or> d = 1 \<Longrightarrow> voted_wf (zs_add u d z)"
  by (auto simp: voted_wf_def zs_wf_add set_zs_add)

lemma versions_wf_upd: "versions_wf h \<Longrightarrow> 0 < n \<Longrightarrow> int_range 64 n \<Longrightarrow> versions_wf (h(u \<mapsto> FormatInt n))"
  by (auto simp: versions_wf_def)

lemma appliedE:
  assumes "applied ks ks' a delta d v"
  obtains z2 z3 h s i where
    "zset_at ks score_key = Some z2" "zset_at ks (voted_key (arg_post a)) = Some z3"
    "hash_at ks (version_key (arg_post a)) = Some h" "stream_at ks outbox_key = Some s" "last_id s < i"
    "ks' = (put_zset
                (put_zset ks score_key (zs_add (arg_post a) (score_plus z2 (arg_post a) delta) z2))
                (voted_key (arg_post a))
                (if d = 0 then zs_rem (arg_user a) z3 else zs_add (arg_user a) d z3))
               (version_key (arg_post a) \<mapsto> VHash (h(arg_user a \<mapsto> FormatInt v)),
                outbox_key \<mapsto> VStream (s\<lparr>entries := entries s @ [(i, vote_event_fields a d v)],
                                         last_id := i\<rparr>))"
  using assms unfolding applied_def by blast

lemma vote_wf_applied:
  assumes "applied ks ks' a delta d v" "vote_wf ks" "d \<in> {-1, 0, 1}" "0 < v" "int_range 64 v"
  shows "vote_wf ks'"
  unfolding vote_wf_def
proof (intro conjI allI)
  obtain z2 z3 h s i where
    at: "zset_at ks score_key = Some z2" "zset_at ks (voted_key (arg_post a)) = Some z3"
    "hash_at ks (version_key (arg_post a)) = Some h" "stream_at ks outbox_key = Some s" and
    ks': "ks' = (put_zset
                (put_zset ks score_key (zs_add (arg_post a) (score_plus z2 (arg_post a) delta) z2))
                (voted_key (arg_post a))
                (if d = 0 then zs_rem (arg_user a) z3 else zs_add (arg_user a) d z3))
               (version_key (arg_post a) \<mapsto> VHash (h(arg_user a \<mapsto> FormatInt v)),
                outbox_key \<mapsto> VStream (s\<lparr>entries := entries s @ [(i, vote_event_fields a d v)],
                                         last_id := i\<rparr>))"
    using assms(1) by (rule appliedE)
  show "\<exists>z. zset_at ks' time_key = Some z \<and> zs_wf z"
    using assms(2) by (rule vote_wfE [of _ "arg_post a"]) (simp add: ks')
  show "\<exists>z. zset_at ks' score_key = Some z \<and> zs_wf z"
    using assms(2) at by (auto simp: ks' elim!: vote_wfE [of _ "arg_post a"] intro!: zs_wf_add)
  show "\<exists>z. zset_at ks' (voted_key p) = Some z \<and> voted_wf z" for p
    using assms(2) at assms(3)
    by (cases "p = arg_post a")
       (auto simp: ks' elim!: vote_wfE [of _ p] intro!: voted_wf_rem voted_wf_add)
  show "\<exists>h. hash_at ks' (version_key p) = Some h \<and> versions_wf h" for p
    using assms(2) at assms(4,5)
    by (cases "p = arg_post a")
       (auto simp: ks' elim!: vote_wfE [of _ p] intro!: versions_wf_upd)
  show "\<exists>s. stream_at ks' outbox_key = Some s"
    by (simp add: ks')
qed

lemma score_inv_applied:
  assumes ap: "applied ks ks' a ((d - direction_of ks (arg_post a) (arg_user a)) * scorePerVote) d v"
    and wf: "vote_wf ks" and inv: "score_inv ks" and post: "zscore ks score_key (arg_post a) \<noteq> None"
  shows "score_inv ks'"
  unfolding score_inv_def
proof
  fix p
  obtain z2 z3 h s i where
    at: "zset_at ks score_key = Some z2" "zset_at ks (voted_key (arg_post a)) = Some z3" and
    ks': "ks' = (put_zset
                (put_zset ks score_key (zs_add (arg_post a) (score_plus z2 (arg_post a)
                   ((d - direction_of ks (arg_post a) (arg_user a)) * scorePerVote)) z2))
                (voted_key (arg_post a))
                (if d = 0 then zs_rem (arg_user a) z3 else zs_add (arg_user a) d z3))
               (version_key (arg_post a) \<mapsto> VHash (h(arg_user a \<mapsto> FormatInt v)),
                outbox_key \<mapsto> VStream (s\<lparr>entries := entries s @ [(i, vote_event_fields a d v)],
                                         last_id := i\<rparr>))"
    using ap by (rule appliedE)
  have z3: "zs_wf z3" using wf at(2) by (auto simp: voted_wf_def elim!: vote_wfE [of _ "arg_post a"])
  have time: "zscore ks' time_key p = zscore ks time_key p" by (simp add: zscore_def ks')
  have inv_p: "zscore ks score_key p =
      map_option (\<lambda>t. t + net_votes ks p * scorePerVote) (zscore ks time_key p)"
    using inv by (simp add: score_inv_def)
  show "zscore ks' score_key p =
      map_option (\<lambda>t. t + net_votes ks' p * scorePerVote) (zscore ks' time_key p)"
  proof (cases "p = arg_post a")
    case True
    have old: "(case map_of z3 (arg_user a) of None \<Rightarrow> 0 | Some d \<Rightarrow> d) = direction_of ks p (arg_user a)"
      using at True by (simp add: direction_of_def zscore_def)
    have net: "net_votes ks' p = net_votes ks p + (d - direction_of ks p (arg_user a))"
      using at z3 True old
      by (auto simp: net_votes_def ks' sum_list_add sum_list_rem zs_wf_def)
    obtain sc where sc: "map_of z2 p = Some sc" using post at True by (auto simp: zscore_def)
    have "zscore ks' score_key p = Some (sc + (d - direction_of ks p (arg_user a)) * scorePerVote)"
      using True sc by (simp add: zscore_def ks' map_of_zs_add score_plus_def)
    moreover have "zscore ks score_key p = Some sc" using at sc by (simp add: zscore_def)
    ultimately show ?thesis using inv_p time by (auto simp: net scorePerVote_def algebra_simps)
  next
    case False
    then have "net_votes ks' p = net_votes ks p" "zscore ks' score_key p = zscore ks score_key p"
      using at by (simp_all add: net_votes_def zscore_def ks' map_of_zs_add)
    with inv_p time show ?thesis by simp
  qed
qed

section \<open>VoteForPost over a faulty connection\<close>

text \<open>
  What a caller can observe: the outcome the abstract machine prescribes, together with its
  state; or a connection error, with the state as before or as after the vote.
\<close>

definition vote_observed ::
    "(err + VoteResult) \<Rightarrow> vote_state \<Rightarrow> vote_state \<Rightarrow> (err + VoteResult) \<times> vote_state \<Rightarrow> bool" where
  "vote_observed result before after spec \<longleftrightarrow>
     (result = fst spec \<and> after = snd spec) \<or>
     (result = Inl NetErr \<and> (after = before \<or> after = snd spec))"

context redis_server
begin

lemma VoteForPost_outcome:
  assumes wf: "vote_wf (db (srv c))" and room: "int_range 64 (version_of (db (srv c)) p u + 1)"
  shows "vote_observed (fst (VoteForPost call u p d eid now c)) (abs_vote (db (srv c)))
           (abs_vote (db (srv (snd (VoteForPost call u p d eid now c)))))
           (spec_vote u p d eid now (abs_vote (db (srv c))))" (is ?obs)
    and "db (srv (snd (VoteForPost call u p d eid now c))) = db (srv c) \<or>
         d \<in> {-1, 0, 1} \<and> zscore (db (srv c)) score_key p \<noteq> None \<and>
         applied (db (srv c)) (db (srv (snd (VoteForPost call u p d eid now c))))
           (vote_argv u p d eid now) ((d - direction_of (db (srv c)) p u) * scorePerVote) d
           (version_of (db (srv c)) p u + 1)" (is ?eff)
proof -
  let ?f = "vote_lua call (vote_keys p) (vote_argv u p d eid now)"
  have a: "arg_post (vote_argv u p d eid now) = p" "arg_user (vote_argv u p d eid now) = u"
    by (simp_all add: vote_argv_def)
  note res = vote_lua_run [OF wf room, of d eid now, unfolded vote_done_def a]
  from res obtain rep where rep: "fst (?f (srv c)) = Inr rep"
    "vote_reply_result d rep = fst (spec_vote u p d eid now (abs_vote (db (srv c))))" by blast
  show ?obs
    using res rep
    by (cases rule: exec_cases [of ?f c])
       (auto simp: VoteForPost_def thenM_run vote_observed_def lift_reply_def split: sum.splits)
  show ?eff
    using res rep
    by (cases rule: exec_cases [of ?f c])
       (auto simp: VoteForPost_def thenM_run lift_reply_def split: sum.splits)
qed

lemma VoteForPost_no_fault:
  assumes wf: "vote_wf (db (srv c))" and room: "int_range 64 (version_of (db (srv c)) p u + 1)"
    and f: "fates c = []"
  shows "fst (VoteForPost call u p d eid now c) = fst (spec_vote u p d eid now (abs_vote (db (srv c))))"
    and "abs_vote (db (srv (snd (VoteForPost call u p d eid now c)))) =
         snd (spec_vote u p d eid now (abs_vote (db (srv c))))"
    and "fates (snd (VoteForPost call u p d eid now c)) = []"
  using vote_lua_run [OF wf room, of d eid now] f
  by (auto simp: VoteForPost_def thenM_run exec_no_fault lift_reply_def vote_done_def split: sum.splits)

end

section \<open>Rejections\<close>

context redis_server
begin

text \<open>A key of the wrong type stops the script before any write, whatever else the state holds.\<close>

lemma vote_lua_wrong_type:
  assumes "\<not> types_match (db r) [(time_key, ''zset''), (score_key, ''zset''), (voted_key p, ''zset''),
       (version_key p, ''hash''), (outbox_key, ''stream'')]"
  shows "fst (vote_lua call (vote_keys p) a r) = Inr (RArray [RInt 5, RInt 0, RInt 0, RInt 0, RInt 0, RBulk []])
    \<and> db (snd (vote_lua call (vote_keys p) a r)) = db r"
  using assms by (simp add: vote_lua_def vote_keys_def thenM_run types_ok_run)

end

section \<open>Posts enter the indexes\<close>

context redis_server
begin

lemma create_post_run:
  assumes "zset_at (db r) time_key = Some z1" "zset_at (db r) score_key = Some z2"
    and "set_at (db r) (community_key (FormatInt cid)) = Some s"
  shows "\<exists>reps. first_error (fst (run_all call (create_post_cmds now pid cid) r)) = Inr reps"
    and "db (snd (run_all call (create_post_cmds now pid cid) r)) =
      (put_zset (put_zset (db r) time_key (zs_add (FormatInt pid) now z1))
         score_key (zs_add (FormatInt pid) now z2))
       (community_key (FormatInt cid) \<mapsto> VSet (add_to_set (FormatInt pid) s))"
  using assms
  by (simp_all add: create_post_cmds_def call_reply call_db on_zset_def on_set_def)

end

section \<open>Properties\<close>

text \<open>A small state to apply the properties to: post 7 of community 1, created at second 1000.\<close>

definition demo_ks :: keyspace where
  "demo_ks = [time_key \<mapsto> VZSet [(''7'', 1000)], score_key \<mapsto> VZSet [(''7'', 1000)],
              community_key ''1'' \<mapsto> VSet [''7'']]"

lemma demo_at [simp]:
  "zset_at demo_ks time_key = Some [(''7'', 1000)]" "zset_at demo_ks score_key = Some [(''7'', 1000)]"
  "zset_at demo_ks (voted_key p) = Some []" "hash_at demo_ks (version_key p) = Some Map.empty"
  "stream_at demo_ks outbox_key = Some empty_stream"
  "set_at demo_ks (community_key ''1'') = Some [''7'']"
  by (simp_all add: demo_ks_def zset_at_def hash_at_def stream_at_def set_at_def)

lemma demo_vote_wf: "vote_wf demo_ks"
  by (simp add: vote_wf_def zs_wf_def voted_wf_def versions_wf_def)

lemma demo_score_inv: "score_inv demo_ks"
  by (simp add: score_inv_def zscore_def net_votes_def)

lemma demo_version [simp]: "version_of demo_ks p u = 0"
  by (simp add: version_of_def hget_def)

text \<open>
  C4: \<open>VoteForPost\<close> refines the abstract vote machine. Whatever the connection does, the caller
  sees the outcome and the state the machine prescribes, or a connection error with the state
  before the vote or after it: a vote is applied whole or not at all, and once.
\<close>
theorem VoteForPost_refines:
  assumes "redis_server call db nid" "vote_wf (db (srv c))"
    and "int_range 64 (version_of (db (srv c)) p u + 1)"
  shows "vote_observed (fst (VoteForPost call u p d eid now c)) (abs_vote (db (srv c)))
           (abs_vote (db (srv (snd (VoteForPost call u p d eid now c)))))
           (spec_vote u p d eid now (abs_vote (db (srv c))))"
  by (rule redis_server.VoteForPost_outcome(1) [OF assms])

theorem VoteForPost_refines_witness:
  "vote_observed (fst (VoteForPost ref_call ''5'' ''7'' 1 ''e1'' 1001 \<lparr>srv = demo_ks, fates = [ReplyLost 0]\<rparr>))
     (abs_vote demo_ks)
     (abs_vote (srv (snd (VoteForPost ref_call ''5'' ''7'' 1 ''e1'' 1001 \<lparr>srv = demo_ks, fates = [ReplyLost 0]\<rparr>))))
     (spec_vote ''5'' ''7'' 1 ''e1'' 1001 (abs_vote demo_ks))"
  using VoteForPost_refines [OF ref.redis_server_axioms,
      of "\<lparr>srv = demo_ks, fates = [ReplyLost 0]\<rparr>" "''7''" "''5''" 1 "''e1''" 1001]
  by (simp add: demo_vote_wf int_range_def)

text \<open>
  C19: a vote keeps the vote state well-formed, and keeps every post's score equal to its
  creation time plus 432 times its net votes, under any connection faults.
\<close>
theorem VoteForPost_keeps_score_inv:
  assumes "redis_server call db nid" "vote_wf (db (srv c))" "score_inv (db (srv c))"
    and "int_range 64 (version_of (db (srv c)) p u + 1)"
  shows "vote_wf (db (srv (snd (VoteForPost call u p d eid now c)))) \<and>
         score_inv (db (srv (snd (VoteForPost call u p d eid now c))))"
proof -
  have a: "arg_post (vote_argv u p d eid now) = p" "arg_user (vote_argv u p d eid now) = u"
    by (simp_all add: vote_argv_def)
  have "0 < version_of (db (srv c)) p u + 1" using version_nonneg [OF assms(2), of p u] by simp
  then show ?thesis
    using redis_server.VoteForPost_outcome(2) [OF assms(1,2,4), of d eid now]
      vote_wf_applied [OF _ assms(2) _ _ assms(4)]
      score_inv_applied [of "db (srv c)" _ "vote_argv u p d eid now", unfolded a, OF _ assms(2,3)]
      assms(2,3)
    by metis
qed

theorem VoteForPost_keeps_score_inv_witness:
  "vote_wf (srv (snd (VoteForPost ref_call ''5'' ''7'' (-1) ''e1'' 1001 \<lparr>srv = demo_ks, fates = []\<rparr>))) \<and>
   score_inv (srv (snd (VoteForPost ref_call ''5'' ''7'' (-1) ''e1'' 1001 \<lparr>srv = demo_ks, fates = []\<rparr>)))"
  using VoteForPost_keeps_score_inv [OF ref.redis_server_axioms,
      of "\<lparr>srv = demo_ks, fates = []\<rparr>" "''7''" "''5''" "-1" "''e1''" 1001]
  by (simp add: demo_vote_wf demo_score_inv int_range_def)

definition vote_frame :: "string \<Rightarrow> string \<Rightarrow> keyspace \<Rightarrow> keyspace \<Rightarrow> bool" where
  "vote_frame u p ks ks' \<longleftrightarrow>
     (\<forall>k. k \<notin> {score_key, voted_key p, version_key p, outbox_key} \<longrightarrow> ks' k = ks k) \<and>
     (\<forall>q. q \<noteq> p \<longrightarrow> zscore ks' score_key q = zscore ks score_key q) \<and>
     (\<forall>w. w \<noteq> u \<longrightarrow> zscore ks' (voted_key p) w = zscore ks (voted_key p) w \<and>
                    hget ks' (version_key p) w = hget ks (version_key p) w) \<and>
     (\<exists>s s'. stream_at ks outbox_key = Some s \<and> stream_at ks' outbox_key = Some s' \<and> groups s' = groups s \<and>
        (entries s' = entries s \<or> (\<exists>i fs. last_id s < i \<and> entries s' = entries s @ [(i, fs)])))"

lemma vote_frame_applied:
  assumes "applied ks ks' a delta d v" "vote_wf ks"
  shows "vote_frame (arg_user a) (arg_post a) ks ks'"
proof -
  from assms(1) obtain z2 z3 h s i where at: "zset_at ks score_key = Some z2" "zset_at ks (voted_key (arg_post a)) = Some z3"
    "hash_at ks (version_key (arg_post a)) = Some h" "stream_at ks outbox_key = Some s" "last_id s < i"
    and ks': "ks' = (put_zset
                (put_zset ks score_key (zs_add (arg_post a) (score_plus z2 (arg_post a) delta) z2))
                (voted_key (arg_post a))
                (if d = 0 then zs_rem (arg_user a) z3 else zs_add (arg_user a) d z3))
               (version_key (arg_post a) \<mapsto> VHash (h(arg_user a \<mapsto> FormatInt v)),
                outbox_key \<mapsto> VStream (s\<lparr>entries := entries s @ [(i, vote_event_fields a d v)],
                                         last_id := i\<rparr>))"
    by (rule appliedE)
  show ?thesis
    using at unfolding vote_frame_def ks'
    by (auto simp: put_zset_apply zscore_def hget_def zset_simps)
qed

lemma vote_frame_refl: "vote_wf ks \<Longrightarrow> vote_frame u p ks ks"
  by (auto simp: vote_frame_def vote_wf_def)

text \<open>
  C23: a vote touches nothing else, whatever the connection does. Any key but the score index, the post's
  two vote keys and the outbox holds the same value afterwards; all other posts keep their scores; the
  directions and versions of all other users of the post stay; and the outbox keeps its entries and its
  consumer groups, with at most one entry more, behind them and with a greater identifier.
\<close>
theorem VoteForPost_frame:
  assumes "redis_server call db nid" "vote_wf (db (srv c))"
    and "int_range 64 (version_of (db (srv c)) p u + 1)"
  shows "vote_frame u p (db (srv c)) (db (srv (snd (VoteForPost call u p d eid now c))))"
  using redis_server.VoteForPost_outcome(2) [OF assms, of d eid now] vote_frame_refl [OF assms(2), of u p]
    vote_frame_applied [OF _ assms(2), of _ "vote_argv u p d eid now"]
  by (fastforce simp: vote_argv_def)

theorem VoteForPost_frame_witness:
  "vote_frame ''5'' ''7'' demo_ks (srv (snd (VoteForPost ref_call ''5'' ''7'' 1 ''e1'' 1001 \<lparr>srv = demo_ks, fates = []\<rparr>)))"
  using VoteForPost_frame [OF ref.redis_server_axioms,
      of "\<lparr>srv = demo_ks, fates = []\<rparr>" "''7''" "''5''" 1 "''e1''" 1001]
  by (simp add: demo_vote_wf int_range_def)

text \<open>
  C24: the type guard. When any of the five keys holds a value of another type, the vote is
  refused with \<open>ErrVoteKeyType\<close> (or a connection error) before anything is written; nothing
  is assumed of the rest of the state.
\<close>
theorem VoteForPost_wrong_type:
  assumes "redis_server call db nid"
    and "\<not> types_match (db (srv c)) [(time_key, ''zset''), (score_key, ''zset''), (voted_key p, ''zset''),
           (version_key p, ''hash''), (outbox_key, ''stream'')]"
  shows "fst (VoteForPost call u p d eid now c) \<in> {Inl ErrVoteKeyType, Inl NetErr} \<and>
         db (srv (snd (VoteForPost call u p d eid now c))) = db (srv c)"
  using redis_server.vote_lua_wrong_type [OF assms, of "vote_argv u p d eid now"]
  by (cases rule: exec_cases [of "vote_lua call (vote_keys p) (vote_argv u p d eid now)" c])
     (auto simp: VoteForPost_def thenM_run lift_reply_def vote_reply_rejected split: sum.splits)

theorem VoteForPost_wrong_type_witness:
  "fst (VoteForPost ref_call ''5'' ''7'' 1 ''e1'' 1001
          \<lparr>srv = demo_ks(voted_key ''7'' \<mapsto> VStr ''x''), fates = []\<rparr>) \<in> {Inl ErrVoteKeyType, Inl NetErr} \<and>
   srv (snd (VoteForPost ref_call ''5'' ''7'' 1 ''e1'' 1001
          \<lparr>srv = demo_ks(voted_key ''7'' \<mapsto> VStr ''x''), fates = []\<rparr>)) = demo_ks(voted_key ''7'' \<mapsto> VStr ''x'')"
  using VoteForPost_wrong_type [OF ref.redis_server_axioms,
      of "\<lparr>srv = demo_ks(voted_key ''7'' \<mapsto> VStr ''x''), fates = []\<rparr>" "''7''" "''5''" 1 "''e1''" 1001]
  by (simp add: types_match_def value_type_def)

text \<open>
  Submitting the same direction again changes nothing: after an accepted vote, the same
  vote with another event identifier and a clock still inside the week is answered with the
  same direction and version and \<open>Changed = False\<close>, and the vote state stays as it is.
\<close>
theorem VoteForPost_idempotent:
  assumes "redis_server call db nid" "vote_wf (db (srv c))" "fates c = []"
    and "int_range 64 (version_of (db (srv c)) p u + 2)"
    and "VoteForPost call u p d eid now c = (Inr res, c1)"
    and "zscore (db (srv c)) time_key p = Some created" "now2 - created \<le> oneWeekInSeconds"
  shows "fst (VoteForPost call u p d eid2 now2 c1) = Inr (res\<lparr>rChanged := False\<rparr>) \<and>
         abs_vote (db (srv (snd (VoteForPost call u p d eid2 now2 c1)))) = abs_vote (db (srv c1))"
proof -
  let ?s = "abs_vote (db (srv c))"
  have room: "int_range 64 (version_of (db (srv c)) p u + 1)"
    using assms(4) version_nonneg [OF assms(2), of p u] by (simp add: int_range_def)
  note first = redis_server.VoteForPost_no_fault [OF assms(1,2) room assms(3), of d eid now, unfolded assms(5), simplified]
  have wf1: "vote_wf (db (srv c1))"
    using redis_server.VoteForPost_outcome(2) [OF assms(1,2) room, of d eid now] vote_wf_applied [OF _ assms(2) _ _ room]
      version_nonneg [OF assms(2), of p u] assms(2,5) by (metis add_nonneg_pos snd_conv vote_argv_def vote_args.select_convs zero_less_one)
  have sp: "spec_vote u p d eid now ?s = (Inr res, abs_vote (db (srv c1)))"
    using first(1,2) by (simp add: prod_eq_iff)
  have v1: "version_of (db (srv c1)) p u \<le> version_of (db (srv c)) p u + 1"
    using spec_vote_version [OF sp] by (simp add: abs_vote_def)
  have room1: "int_range 64 (version_of (db (srv c1)) p u + 1)"
    using v1 assms(4) version_nonneg [OF wf1, of p u] by (simp add: int_range_def)
  have created: "vs_time ?s p = Some created" using assms(6) by (simp add: abs_vote_def)
  show ?thesis
    using redis_server.VoteForPost_no_fault [OF assms(1) wf1 room1 first(3), of d eid2 now2]
      spec_vote_again [OF sp created assms(7), of eid2] by simp
qed

theorem VoteForPost_idempotent_witness:
  "fst (VoteForPost ref_call ''5'' ''7'' 1 ''e2'' 1002
          (snd (VoteForPost ref_call ''5'' ''7'' 1 ''e1'' 1001 \<lparr>srv = demo_ks, fates = []\<rparr>)))
   = Inr \<lparr>rDirection = 1, rVersion = 1, rChanged = False\<rparr>"
proof -
  let ?c = "\<lparr>srv = demo_ks, fates = []\<rparr>"
  have "fst (VoteForPost ref_call ''5'' ''7'' 1 ''e1'' 1001 ?c) = Inr \<lparr>rDirection = 1, rVersion = 1, rChanged = True\<rparr>"
    using ref.VoteForPost_no_fault(1) [of ?c "''7''" "''5''" 1 "''e1''" 1001]
    by (simp add: demo_vote_wf int_range_def spec_vote_def abs_vote_def zscore_def direction_of_def
        oneWeekInSeconds_def)
  then have "VoteForPost ref_call ''5'' ''7'' 1 ''e1'' 1001 ?c =
      (Inr \<lparr>rDirection = 1, rVersion = 1, rChanged = True\<rparr>, snd (VoteForPost ref_call ''5'' ''7'' 1 ''e1'' 1001 ?c))"
    by (simp add: prod_eq_iff)
  from VoteForPost_idempotent [OF ref.redis_server_axioms _ _ _ this, of 1000 1002 "''e2''"]
  show ?thesis by (simp add: demo_vote_wf int_range_def zscore_def oneWeekInSeconds_def)
qed

section \<open>Creating a post\<close>

lemma create_post_cases:
  assumes "redis_server call db nid" "vote_wf (db (srv c))"
    and "set_at (db (srv c)) (community_key (FormatInt cid)) = Some s"
  obtains (unchanged) "fst (RedisCreatePost call now pid cid c) = Inl NetErr"
      "db (srv (snd (RedisCreatePost call now pid cid c))) = db (srv c)"
  | (created) z1 z2 where "zset_at (db (srv c)) time_key = Some z1" "zset_at (db (srv c)) score_key = Some z2"
      "zs_wf z1" "zs_wf z2" "fst (RedisCreatePost call now pid cid c) \<in> {Inr (), Inl NetErr}"
      "db (srv (snd (RedisCreatePost call now pid cid c))) =
        (put_zset (put_zset (db (srv c)) time_key (zs_add (FormatInt pid) now z1))
           score_key (zs_add (FormatInt pid) now z2))
         (community_key (FormatInt cid) \<mapsto> VSet (add_to_set (FormatInt pid) s))"
proof -
  obtain z1 z2 where z: "zset_at (db (srv c)) time_key = Some z1" "zset_at (db (srv c)) score_key = Some z2"
    "zs_wf z1" "zs_wf z2"
    using assms(2) by (metis vote_wfE)
  note run = redis_server.create_post_run [OF assms(1) z(1,2) assms(3), where now = now and pid = pid]
  let ?f = "\<lambda>r. (first_error (fst (run_all call (create_post_cmds now pid cid) r)),
                snd (run_all call (create_post_cmds now pid cid) r))"
  show thesis
  proof (cases rule: exec_cases [of ?f c])
    case (delivered fs)
    with run z created show thesis
      by (auto simp: RedisCreatePost_def exec_tx_def thenM_run lift_reply_def)
  next
    case (request_lost fs)
    with unchanged show thesis by (auto simp: RedisCreatePost_def exec_tx_def thenM_run)
  next
    case (reply_lost fs)
    with run z created show thesis by (auto simp: RedisCreatePost_def exec_tx_def thenM_run)
  qed
qed

text \<open>
  Creating a post that has no votes keeps the vote state well-formed and the score
  invariant whatever the connection does; when it succeeds the post is in the time index and
  the score index with the clock's second, and in the set of its community.
\<close>
theorem RedisCreatePost_indexes:
  assumes "redis_server call db nid" "vote_wf (db (srv c))" "score_inv (db (srv c))"
    and "set_at (db (srv c)) (community_key (FormatInt cid)) = Some s"
    and "net_votes (db (srv c)) (FormatInt pid) = 0"
    and "RedisCreatePost call now pid cid c = (res, c')"
  shows "vote_wf (db (srv c')) \<and> score_inv (db (srv c')) \<and>
         (res = Inr () \<longrightarrow>
            zscore (db (srv c')) time_key (FormatInt pid) = Some now \<and>
            zscore (db (srv c')) score_key (FormatInt pid) = Some now \<and>
            (\<exists>s'. set_at (db (srv c')) (community_key (FormatInt cid)) = Some s' \<and> FormatInt pid \<in> set s'))"
  using assms(1,2,4)
proof (cases rule: create_post_cases [where now = now and pid = pid])
  case unchanged
  with assms show ?thesis by simp
next
  case (created z1 z2)
  have "vote_wf (db (srv c'))"
    using assms(2,6) created unfolding vote_wf_def by (auto intro!: zs_wf_add)
  moreover have "score_inv (db (srv c'))"
    using assms(3,5,6) created
    by (auto simp: score_inv_def zscore_def net_votes_def map_of_zs_add)
  ultimately show ?thesis
    using assms(6) created by (auto simp: zscore_def map_of_zs_add)
qed

theorem RedisCreatePost_indexes_witness:
  "score_inv (srv (snd (RedisCreatePost ref_call 1005 8 1 \<lparr>srv = demo_ks, fates = []\<rparr>)))"
proof -
  have "FormatInt 1 = ''1''"
    by (simp add: FormatInt_def nat_decimal.simps digit_char_def)
  then show ?thesis
    using RedisCreatePost_indexes [OF ref.redis_server_axioms,
        of "\<lparr>srv = demo_ks, fates = []\<rparr>" 1 "[''7'']" 8 1005]
    by (simp add: demo_vote_wf demo_score_inv net_votes_def prod_eq_iff)
qed

end
