(* ===== verification/Pipeline.thy ===== *)
theory Pipeline
  imports Worker VoteCorrect
begin

text \<open>
  The whole path of a vote: web instances run the vote script, relays move outbox entries to the
  broker, consumers store events in MySQL. Every instance is a small machine between whose calls
  all others act; requests and replies are lost, publications fail or are stored twice, deliveries are
  repeated, instances crash. The invariant is that an event, once the script has emitted it, is in the
  outbox, or with the broker or a consumer, or stored; from it follows that the drained system shows in
  MySQL exactly the votes of Redis.
\<close>

section \<open>States\<close>

datatype relay_pc = RIdle | RPublish "VoteOutboxMessage list" | RAck VoteOutboxMessage "VoteOutboxMessage list"

datatype consumer_pc = CIdle | CGot message | CMove message string message | CNack message | CSettle message

record ('r, 'b) sys =
  y_redis :: 'r
  y_broker :: 'b
  y_tables :: vote_tables
  y_log :: "VoteEvent list"
  y_relay :: "string \<Rightarrow> relay_pc"
  y_consumer :: "string \<Rightarrow> consumer_pc"

text \<open>\<open>y_log\<close> is a ghost: the events that the script has emitted, in order.\<close>

definition emitted ::
    "('r \<Rightarrow> keyspace) \<Rightarrow> 'r \<Rightarrow> 'r \<Rightarrow> VoteEvent \<Rightarrow> VoteEvent list" where
  "emitted db r r' e = (if outbox (db r') = outbox (db r) then [] else [e])"

definition after_read :: "(err + VoteOutboxMessage list) \<Rightarrow> relay_pc" where
  "after_read res = (case res of Inl _ \<Rightarrow> RIdle | Inr ms \<Rightarrow> RPublish ms)"

text \<open>What \<open>handleVoteDelivery\<close> decides to do with a delivery.\<close>

definition dead_message :: "('r, 'b) services \<Rightarrow> message \<Rightarrow> string \<Rightarrow> err \<Rightarrow> message" where
  "dead_message sv m eid cause =
     \<lparr>m_body = m_body m, m_id = eid,
      m_headers = [retryHeader \<mapsto> HInt 64 (headerInt (m_headers m) retryHeader), ''x-error'' \<mapsto> HString (sv_error_text sv cause)]\<rparr>"

definition retry_or_dead :: "('r, 'b) services \<Rightarrow> RabbitMQConfig \<Rightarrow> message \<Rightarrow> string \<Rightarrow> err \<Rightarrow> consumer_pc" where
  "retry_or_dead sv config m eid cause =
     (let n = wrap_int 64 (headerInt (m_headers m) retryHeader + 1) in
      if MaxRetries config < n then CMove m DeadExchange (dead_message sv m eid cause)
      else CMove m RetryExchange
             \<lparr>m_body = m_body m, m_id = eid, m_headers = [retryHeader \<mapsto> HInt 32 (wrap_int 32 n)]\<rparr>)"

definition decide ::
    "('r, 'b) services \<Rightarrow> RabbitMQConfig \<Rightarrow> sql_faults \<Rightarrow> int \<Rightarrow> message \<Rightarrow> vote_tables \<Rightarrow> consumer_pc \<times> vote_tables" where
  "decide sv config flt now m t =
     (case m_body m of
        NotJson s \<Rightarrow> (CMove m DeadExchange (dead_message sv m (m_id m) (Wrapped ''invalid json'' (ErrText s))), t)
      | JsonEvent e \<Rightarrow>
          (case validateVoteEvent e of
             Inl err \<Rightarrow> (CMove m DeadExchange (dead_message sv m (EventID e) err), t)
           | Inr _ \<Rightarrow>
               (case PersistVoteEvent (sv_mysql sv) flt now e t of
                  (Inr _, t') \<Rightarrow> (CSettle m, t')
                | (Inl err, t') \<Rightarrow>
                    (if errors_is err ErrVoteEventConflict
                     then CMove m DeadExchange (dead_message sv m (EventID e) err)
                     else retry_or_dead sv config m (EventID e) err, t'))))"

definition bodies :: "('b \<Rightarrow> string \<Rightarrow> message list) \<Rightarrow> 'b \<Rightarrow> body set" where
  "bodies queue b = {m_body m | m q. m \<in> set (queue b q)}"

definition topo_ok :: "RabbitMQConfig \<Rightarrow> topology \<Rightarrow> bool" where
  "topo_ok config t \<longleftrightarrow>
     VoteQueue config \<in> routes t (Exchange config) VoteChangedEventType \<and>
     RetryQueue \<in> routes t RetryExchange VoteChangedEventType \<and>
     DeadQueue \<in> routes t DeadExchange VoteChangedEventType"

section \<open>Steps\<close>

inductive pipe_step ::
    "('r, 'b) services \<Rightarrow> RabbitMQConfig \<Rightarrow> ('r \<Rightarrow> keyspace) \<Rightarrow> ('b \<Rightarrow> topology) \<Rightarrow> ('b \<Rightarrow> string \<Rightarrow> message list)
       \<Rightarrow> ('r, 'b) sys \<Rightarrow> ('r, 'b) sys \<Rightarrow> bool"
  for sv config db topo queue where
  vote: "FormatInt eid \<notin> EventID ` set (y_log s) \<Longrightarrow> int_range 64 eid \<Longrightarrow>
     0 < u \<Longrightarrow> int_range 64 u \<Longrightarrow> 0 < p \<Longrightarrow> int_range 64 p \<Longrightarrow> 0 < now \<Longrightarrow> int_range 64 now \<Longrightarrow>
     version_of (db (y_redis s)) (FormatInt p) (FormatInt u) + 1 < 10 ^ 14 \<Longrightarrow>
     VoteForPost (sv_redis sv) (FormatInt u) (FormatInt p) d (FormatInt eid) now \<lparr>srv = y_redis s, fates = fs\<rparr> = (res, c') \<Longrightarrow>
     pipe_step sv config db topo queue s
       (s\<lparr>y_redis := srv c',
          y_log := y_log s @ emitted db (y_redis s) (srv c')
            (vote_event (FormatInt u) (FormatInt p) d (FormatInt eid) now
               (version_of (db (srv c')) (FormatInt p) (FormatInt u)))\<rparr>)"
| relay_ensure: "EnsureVoteOutboxGroup (sv_redis sv) \<lparr>srv = y_redis s, fates = fs\<rparr> = (res, c') \<Longrightarrow>
     pipe_step sv config db topo queue s (s\<lparr>y_redis := srv c'\<rparr>)"
| relay_read: "y_relay s n = RIdle \<Longrightarrow>
     ReadVoteOutbox (sv_redis sv) n start cnt \<lparr>srv = y_redis s, fates = fs\<rparr> = (res, c') \<Longrightarrow>
     pipe_step sv config db topo queue s
       (s\<lparr>y_redis := srv c', y_relay := (y_relay s)(n := after_read res)\<rparr>)"
| relay_claim: "y_relay s n = RIdle \<Longrightarrow>
     ClaimStaleVoteOutbox (sv_redis sv) n idle cnt \<lparr>srv = y_redis s, fates = fs\<rparr> = (res, c') \<Longrightarrow>
     pipe_step sv config db topo queue s
       (s\<lparr>y_redis := srv c', y_relay := (y_relay s)(n := after_read res)\<rparr>)"
| relay_publish: "y_relay s n = RPublish (m # ms) \<Longrightarrow> clean c \<Longrightarrow> c_config c = config \<Longrightarrow>
     Publish (sv_decl sv) (sv_pub sv) env (Exchange config) (relay_message (mEvent m)) c (y_broker s) = Some (res, c', b') \<Longrightarrow>
     pipe_step sv config db topo queue s
       (s\<lparr>y_broker := b', y_relay := (y_relay s)(n := (if isl res then RIdle else RAck m ms))\<rparr>)"
| relay_ack: "y_relay s n = RAck m ms \<Longrightarrow>
     AckVoteOutbox (sv_redis sv) (mStreamID m) \<lparr>srv = y_redis s, fates = fs\<rparr> = (res, c') \<Longrightarrow>
     pipe_step sv config db topo queue s
       (s\<lparr>y_redis := srv c', y_relay := (y_relay s)(n := (if isl res then RIdle else RPublish ms))\<rparr>)"
| relay_stop: "pipe_step sv config db topo queue s (s\<lparr>y_relay := (y_relay s)(n := RIdle)\<rparr>)"
| deliver: "y_consumer s n = CIdle \<Longrightarrow> queue (y_broker s) (VoteQueue config) = xs @ m # ys \<Longrightarrow>
     topo b' = topo (y_broker s) \<Longrightarrow> queue b' = (queue (y_broker s))(VoteQueue config := xs @ ys) \<Longrightarrow>
     pipe_step sv config db topo queue s (s\<lparr>y_broker := b', y_consumer := (y_consumer s)(n := CGot m)\<rparr>)"
| handle: "y_consumer s n = CGot m \<Longrightarrow> decide sv config flt now m (y_tables s) = (pc, t') \<Longrightarrow>
     pipe_step sv config db topo queue s (s\<lparr>y_tables := t', y_consumer := (y_consumer s)(n := pc)\<rparr>)"
| move: "y_consumer s n = CMove m x m' \<Longrightarrow> clean c \<Longrightarrow> c_config c = config \<Longrightarrow>
     Publish (sv_decl sv) (sv_pub sv) env x m' c (y_broker s) = Some (res, c', b') \<Longrightarrow>
     pipe_step sv config db topo queue s
       (s\<lparr>y_broker := b', y_consumer := (y_consumer s)(n := (if isl res then CNack m else CSettle m))\<rparr>)"
| settle: "y_consumer s n = CSettle m \<Longrightarrow>
     pipe_step sv config db topo queue s
       (s\<lparr>y_broker := snd (sv_ack sv (VoteQueue config) m (y_broker s)), y_consumer := (y_consumer s)(n := CIdle)\<rparr>)"
| requeue: "y_consumer s n \<in> {CGot m, CMove m x m', CNack m, CSettle m} \<Longrightarrow> topo b' = topo (y_broker s) \<Longrightarrow>
     queue (y_broker s) (VoteQueue config) = xs @ ys \<Longrightarrow>
     queue b' = (queue (y_broker s))(VoteQueue config := xs @ m # ys) \<Longrightarrow>
     pipe_step sv config db topo queue s (s\<lparr>y_broker := b', y_consumer := (y_consumer s)(n := CIdle)\<rparr>)"
| expire: "queue (y_broker s) RetryQueue = xs @ m # ys \<Longrightarrow> m_body m' = m_body m \<Longrightarrow> topo b' = topo (y_broker s) \<Longrightarrow>
     queue b' = (queue (y_broker s))(RetryQueue := xs @ ys, VoteQueue config := queue (y_broker s) (VoteQueue config) @ [m']) \<Longrightarrow>
     pipe_step sv config db topo queue s (s\<lparr>y_broker := b'\<rparr>)"
| redeliver: "m_body m = JsonEvent e \<Longrightarrow> e \<in> set (y_log s) \<Longrightarrow> topo b' = topo (y_broker s) \<Longrightarrow>
     queue b' = (queue (y_broker s))(VoteQueue config := queue (y_broker s) (VoteQueue config) @ [m]) \<Longrightarrow>
     pipe_step sv config db topo queue s (s\<lparr>y_broker := b'\<rparr>)"
| connect: "connectLocked (sv_decl sv) env c (y_broker s) = (ok, c', b') \<Longrightarrow>
     pipe_step sv config db topo queue s (s\<lparr>y_broker := b'\<rparr>)"
| other: "\<forall>k. k = outbox_key \<or> (\<exists>p. k = version_key p) \<or> (\<exists>p. k = voted_key p) \<longrightarrow> db r k = db (y_redis s) k \<Longrightarrow>
     vote_wf (db r) \<Longrightarrow>
     pipe_step sv config db topo queue s (s\<lparr>y_redis := r\<rparr>)"

end
