(* ===== verification/PipelineRelay.thy ===== *)
theory PipelineRelay
  imports Pipeline
begin

text \<open>
  What the steps of the pipeline rely on: what a relay has read are entries of the outbox, and the
  topology a client has declared is never taken back.
\<close>

section \<open>What a relay reads\<close>

definition entries_in :: "keyspace \<Rightarrow> (stream_id \<times> fields option) list \<Rightarrow> bool" where
  "entries_in ks es \<longleftrightarrow>
     (\<forall>(i, x) \<in> set es. \<forall>fs. x = Some fs \<longrightarrow>
        (\<exists>s. stream_at ks outbox_key = Some s \<and> (i, fs) \<in> set (entries s)))"

text \<open>What a relay reads are entries of the stream, parsed.\<close>

definition read_entries :: "keyspace \<Rightarrow> VoteOutboxMessage list \<Rightarrow> bool" where
  "read_entries ks ms \<longleftrightarrow>
     (\<forall>m\<in>set ms. \<exists>s fs. stream_at ks outbox_key = Some s \<and> (mStreamID m, fs) \<in> set (entries s) \<and>
        voteEventFromStream (message_values (Some fs)) = Inr (mEvent m))"

lemma entries_in_map_of:
  "stream_at ks outbox_key = Some s \<Longrightarrow> entries_in ks (map (\<lambda>i. (i, map_of (entries s) i)) is)"
  by (auto simp: entries_in_def intro: map_of_SomeD)

lemma doc_read_entries:
  assumes "fst (redis_doc f (XREADGROUP outbox_key g c start n) ks) = Inr (REntries es)"
  shows "entries_in ks es"
proof (cases start)
  case NewEntries
  then show ?thesis
    using assms
    by (fastforce simp: on_group_def entries_in_def stream_at_def deliver_new_def Let_def
        split: option.splits rvalue.splits if_splits dest: in_set_takeD)
next
  case (PendingFrom i)
  then obtain s gr where s: "stream_at ks outbox_key = Some s" "es = fst (deliver_pending c n i s gr)"
    using assms by (auto simp: on_group_def stream_at_def case_prod_beta split: option.splits rvalue.splits)
  with entries_in_map_of [OF s(1)] show ?thesis by (simp add: deliver_pending_def Let_def)
qed

lemma doc_claim_entries:
  assumes "fst (redis_doc f (XCLAIM outbox_key g c idle is) ks) = Inr (REntries es)"
  shows "entries_in ks es"
proof -
  obtain s gr where s: "stream_at ks outbox_key = Some s" "es = fst (claim_pending c idle is s gr)"
    using assms by (auto simp: on_group_def stream_at_def case_prod_beta split: option.splits rvalue.splits)
  with entries_in_map_of [OF s(1)] show ?thesis by (simp add: claim_pending_def Let_def)
qed

lemma voteEventFromStream_deleted [simp]: "voteEventFromStream (message_values None) \<noteq> Inr e"
  by (simp add: voteEventFromStream_def message_values_def field_def)

lemma parse_messages_entries:
  assumes "parse_messages what es = Inr ms" "entries_in ks es"
  shows "read_entries ks ms"
  using assms
proof (induction what es arbitrary: ms rule: parse_messages.induct)
  case (2 what i fs es)
  from 2(2) obtain e rest where e: "voteEventFromStream (message_values fs) = Inr e"
    "parse_messages what es = Inr rest" "ms = \<lparr>mStreamID = i, mEvent = e\<rparr> # rest"
    by (auto split: sum.splits)
  from 2(3) have "entries_in ks es" by (simp add: entries_in_def)
  with 2(1) [OF e(1,2)] have "read_entries ks rest" by simp
  moreover obtain x where "fs = Some x" using e(1) by (cases fs) auto
  ultimately show ?case using 2(3) e(1) by (auto simp: entries_in_def read_entries_def e(3))
qed (simp add: read_entries_def)

context redis_server
begin

lemma ReadVoteOutbox_entries:
  assumes "ReadVoteOutbox call consumer start n c = (Inr ms, c')"
  shows "read_entries (db (srv c)) ms"
proof -
  obtain res c1 where e: "exec (call (XREADGROUP outbox_key VoteOutboxGroup consumer start n)) c = (res, c1)"
    by (metis surj_pair)
  then show ?thesis
  proof (cases rule: exec_call_cases)
    case answered
    with assms e have "ms = [] \<or> (\<exists>es. fst (redis_doc (nid (srv c)) (XREADGROUP outbox_key VoteOutboxGroup consumer start n)
        (db (srv c))) = Inr (REntries es) \<and> parse_messages ''parse outbox message'' es = Inr ms)"
      by (auto simp: ReadVoteOutbox_def thenM_def lift_reply_def split: sum.splits reply.splits)
    then show ?thesis
      by (elim disjE exE conjE) (simp add: read_entries_def, rule parse_messages_entries [OF _ doc_read_entries])
  qed (use assms e in \<open>auto simp: ReadVoteOutbox_def thenM_def split: sum.splits reply.splits\<close>)
qed

lemma ClaimStaleVoteOutbox_entries:
  assumes "ClaimStaleVoteOutbox call consumer idle n c = (Inr ms, c')"
  shows "read_entries (db (srv c)) ms"
proof (cases "ms = []")
  case True
  then show ?thesis by (simp add: read_entries_def)
next
  case False
  obtain res c1 where 1: "exec (call (XPENDING outbox_key VoteOutboxGroup n)) c = (res, c1)"
    by (metis surj_pair)
  have "snd (redis_doc f (XPENDING outbox_key VoteOutboxGroup n) ks) = ks" for f ks
    by (simp add: on_group_def split: option.splits rvalue.splits)
  then have same: "db (srv c1) = db (srv c)"
    using exec_call_rel [OF 1, of "\<lambda>a b. b = a"] by blast
  obtain "is" es c2 where 2: "exec (call (XCLAIM outbox_key VoteOutboxGroup consumer idle is)) c1 = (Inr (REntries es), c2)"
    and p: "parse_messages ''parse claimed outbox message'' es = Inr ms"
    using assms 1 False
    by (auto simp: ClaimStaleVoteOutbox_def thenM_def Let_def split: sum.splits reply.splits prod.splits if_splits)
  from 2 have "fst (redis_doc (nid (srv c1)) (XCLAIM outbox_key VoteOutboxGroup consumer idle is) (db (srv c1))) =
      Inr (REntries es)"
    by (cases rule: exec_call_cases) (auto simp: lift_reply_def split: sum.splits)
  from parse_messages_entries [OF p doc_claim_entries [OF this]]
  show ?thesis by (simp add: same)
qed

end

section \<open>Queues and topology\<close>

lemma declare_doc_binds: "t_binds t \<subseteq> t_binds (declare_doc op t)"
  by (cases op) auto

lemma topo_ok_mono: "topo_ok config t \<Longrightarrow> t_binds t \<subseteq> t_binds t' \<Longrightarrow> topo_ok config t'"
  by (auto simp: topo_ok_def routes_def)

context amqp_broker
begin

lemma decl_binds: "t_binds (topo b) \<subseteq> t_binds (topo (snd (decl op b)))"
  using decl_ok [of op b] decl_failed [of op b] declare_doc_binds by (cases "fst (decl op b)") auto

lemma run_ops_binds: "run_ops decl ops b = (ok, b') \<Longrightarrow> t_binds (topo b) \<subseteq> t_binds (topo b')"
proof (induction ops arbitrary: b)
  case (Cons op ops)
  then show ?case
    using decl_binds [of b op] by (cases "decl op b") (auto split: if_splits)
qed simp

lemma connectLocked_binds:
  "connectLocked decl env c b = (ok, c', b') \<Longrightarrow> t_binds (topo b) \<subseteq> t_binds (topo b')"
  using run_ops_binds [of "topology_ops (c_config c)" b]
  by (auto simp: connectLocked_def declareTopology_def split: if_splits prod.splits)

lemma Publish_binds:
  assumes "Publish decl pub env x m c b = Some (res, c', b')"
  shows "t_binds (topo b) \<subseteq> t_binds (topo b')"
proof -
  obtain ok c1 b1 where 1: "connectLocked decl env c b = (ok, c1, b1)" by (metis surj_pair)
  have "topo b' = topo b1"
    using assms 1 pub_topo [of x VoteChangedEventType m b1]
    by (auto simp: Publish_def split: if_splits option.splits prod.splits sum.splits)
  with connectLocked_binds [OF 1] show ?thesis by simp
qed

text \<open>What a publication leaves in the queues, when the topology is in place.\<close>

lemma Publish_queues:
  assumes "clean c" "Publish decl pub env x m c b = Some (res, c', b')"
  shows "set (queue b q) \<subseteq> set (queue b' q) \<and> set (queue b' q) \<subseteq> insert m (set (queue b q))"
    and "\<not> isl res \<Longrightarrow> q \<in> routes (topo b') x VoteChangedEventType \<Longrightarrow> m \<in> set (queue b' q)"
  using Publish_outcome [OF assms] by (auto simp: stored_def split: if_splits)

end

end
