(* ===== verification/PipelineInv.thy ===== *)
theory PipelineInv
  imports PipelineRelay
begin

text \<open>
  The invariant of the pipeline. It has one part per place: what Redis and the ghost log agree on,
  the outbox, what the relays and consumers hold, the queues, and the tables. The parts about the
  keyspace alone come first, with the effect of a vote and of a relay's command on each.
\<close>

section \<open>Parts\<close>

definition logged :: "VoteEvent \<Rightarrow> bool" where
  "logged e \<longleftrightarrow>
     (\<exists>u p i d now v. e = vote_event (FormatInt u) (FormatInt p) d (FormatInt i) now v \<and>
        0 < u \<and> int_range 64 u \<and> 0 < p \<and> int_range 64 p \<and> int_range 64 i \<and>
        d \<in> {-1, 0, 1} \<and> 0 < v \<and> v < 10 ^ 14 \<and> 0 < now \<and> int_range 64 now)"

definition log_ok :: "keyspace \<Rightarrow> VoteEvent list \<Rightarrow> bool" where
  "log_ok ks log \<longleftrightarrow>
     (\<forall>e\<in>set log. logged e \<and> Version e \<le> version_of ks (PostID e) (UserID e)) \<and>
     distinct (map EventID log) \<and>
     (\<forall>e\<in>set log. \<forall>e'\<in>set log.
        UserID e = UserID e' \<and> PostID e = PostID e' \<and> Version e = Version e' \<longrightarrow> e = e') \<and>
     (\<forall>u p. (version_of ks p u = 0 \<and> direction_of ks p u = 0) \<or>
        (\<exists>e\<in>set log. UserID e = u \<and> PostID e = p \<and>
           Version e = version_of ks p u \<and> Direction e = direction_of ks p u))"

definition parsed_as :: "fields \<Rightarrow> VoteEvent \<Rightarrow> bool" where
  "parsed_as fs e \<longleftrightarrow> voteEventFromStream (message_values (Some fs)) = Inr e"

definition outbox_ok :: "keyspace \<Rightarrow> VoteEvent list \<Rightarrow> bool" where
  "outbox_ok ks log \<longleftrightarrow>
     (\<exists>s. stream_at ks outbox_key = Some s \<and> distinct (ids (entries s)) \<and>
        (\<forall>(i, fs) \<in> set (entries s). i \<le> last_id s \<and> (\<exists>e\<in>set log. parsed_as fs e)))"

definition waits :: "keyspace \<Rightarrow> VoteEvent \<Rightarrow> bool" where
  "waits ks e \<longleftrightarrow>
     (\<exists>s i fs. stream_at ks outbox_key = Some s \<and> (i, fs) \<in> set (entries s) \<and> parsed_as fs e)"

definition msg_ok :: "keyspace \<Rightarrow> VoteEvent list \<Rightarrow> VoteOutboxMessage \<Rightarrow> bool" where
  "msg_ok ks log m \<longleftrightarrow>
     mEvent m \<in> set log \<and>
     (\<forall>s. stream_at ks outbox_key = Some s \<longrightarrow>
        mStreamID m \<le> last_id s \<and> (\<forall>fs. (mStreamID m, fs) \<in> set (entries s) \<longrightarrow> parsed_as fs (mEvent m)))"

lemma parsed_as_unique: "parsed_as fs e \<Longrightarrow> parsed_as fs e' \<Longrightarrow> e = e'"
  by (simp add: parsed_as_def)

section \<open>The effect of a vote\<close>

lemma applied_views:
  assumes "applied ks ks' (vote_argv u p d eid now) delta d v" "zscore ks score_key p \<noteq> None"
  shows "direction_of ks' = (direction_of ks)(p := (direction_of ks p)(u := d))"
    and "version_of ks' = (version_of ks)(p := (version_of ks p)(u := v))"
    and "outbox ks' = outbox ks @ [vote_event_fields (vote_argv u p d eid now) d v]"
proof -
  have a: "arg_post (vote_argv u p d eid now) = p" "arg_user (vote_argv u p d eid now) = u"
    by (simp_all add: vote_argv_def)
  from assms(2) obtain sc where "zscore ks score_key p = Some sc" by blast
  with abs_vote_applied [OF assms(1), of sc] a
  show "direction_of ks' = (direction_of ks)(p := (direction_of ks p)(u := d))"
    "version_of ks' = (version_of ks)(p := (version_of ks p)(u := v))"
    "outbox ks' = outbox ks @ [vote_event_fields (vote_argv u p d eid now) d v]"
    by (simp_all add: abs_vote_def)
qed

lemma applied_stream:
  assumes "applied ks ks' a delta d v"
  obtains s i where "stream_at ks outbox_key = Some s" "last_id s < i"
    "stream_at ks' outbox_key = Some (s\<lparr>entries := entries s @ [(i, vote_event_fields a d v)], last_id := i\<rparr>)"
  using assms by (elim appliedE) (simp add: stream_at_def)

lemma logged_vote:
  assumes "0 < u" "int_range 64 u" "0 < p" "int_range 64 p" "int_range 64 i" "0 < now" "int_range 64 now"
    and "d \<in> {-1, 0, 1}" "0 < v" "v < 10 ^ 14"
  shows "logged (vote_event (FormatInt u) (FormatInt p) d (FormatInt i) now v)"
  unfolding logged_def using assms by blast

lemma vote_event_sel [simp]:
  "EventID (vote_event u p d i now v) = i" "UserID (vote_event u p d i now v) = u"
  "PostID (vote_event u p d i now v) = p" "Direction (vote_event u p d i now v) = d"
  "Version (vote_event u p d i now v) = v" "OccurredAt (vote_event u p d i now v) = now"
  "EventType (vote_event u p d i now v) = VoteChangedEventType"
  by (simp_all add: vote_event_def)

lemma log_ok_vote:
  assumes log: "log_ok ks log" and e: "logged e" "EventID e \<notin> EventID ` set log"
    and v: "Version e = version_of ks (PostID e) (UserID e) + 1"
    and dir: "direction_of ks' = (direction_of ks)(PostID e := (direction_of ks (PostID e))(UserID e := Direction e))"
    and ver: "version_of ks' = (version_of ks)(PostID e := (version_of ks (PostID e))(UserID e := Version e))"
  shows "log_ok ks' (log @ [e])"
proof -
  note l = log [unfolded log_ok_def]
  have older: "Version e' < Version e" if "e' \<in> set log" "UserID e' = UserID e" "PostID e' = PostID e" for e'
    using l that v by force
  have "\<forall>e'\<in>set (log @ [e]). logged e' \<and> Version e' \<le> version_of ks' (PostID e') (UserID e')"
    using l e(1) v by (auto simp: ver)
  moreover have "distinct (map EventID (log @ [e]))" using l e(2) by auto
  moreover have "\<forall>a\<in>set (log @ [e]). \<forall>b\<in>set (log @ [e]).
      UserID a = UserID b \<and> PostID a = PostID b \<and> Version a = Version b \<longrightarrow> a = b"
    using l older by (auto dest!: older)
  moreover have "(version_of ks' p u = 0 \<and> direction_of ks' p u = 0) \<or>
      (\<exists>a\<in>set (log @ [e]). UserID a = u \<and> PostID a = p \<and>
         Version a = version_of ks' p u \<and> Direction a = direction_of ks' p u)" for u p
    using l by (cases "p = PostID e \<and> u = UserID e") (auto simp: ver dir)
  ultimately show ?thesis unfolding log_ok_def by blast
qed

section \<open>The outbox\<close>

lemma outbox_ok_append:
  assumes ok: "outbox_ok ks log" and s: "stream_at ks outbox_key = Some s" "last_id s < i"
    and s': "stream_at ks' outbox_key = Some (s\<lparr>entries := entries s @ [(i, fs)], last_id := i\<rparr>)"
    and e: "parsed_as fs e"
  shows "outbox_ok ks' (log @ [e])" and "waits ks' e" and "waits ks e' \<Longrightarrow> waits ks' e'"
    and "msg_ok ks log m \<Longrightarrow> msg_ok ks' (log @ [e]) m"
proof -
  have old: "distinct (ids (entries s))" "\<forall>(j, gs) \<in> set (entries s). j \<le> last_id s \<and> (\<exists>e\<in>set log. parsed_as gs e)"
    using ok s(1) by (auto simp: outbox_ok_def)
  have below: "\<forall>(j, gs) \<in> set (entries s). j < i" using old(2) s(2) by fastforce
  then have "i \<notin> set (ids (entries s))" by auto
  then have "distinct (ids (entries s @ [(i, fs)]))" using old(1) by simp
  moreover have "\<forall>(j, gs) \<in> set (entries s @ [(i, fs)]). j \<le> i \<and> (\<exists>a\<in>set (log @ [e]). parsed_as gs a)"
    using below old(2) e by (auto intro: less_imp_le)
  ultimately show "outbox_ok ks' (log @ [e])" using s' unfolding outbox_ok_def by simp
  show "waits ks' e" using s' e unfolding waits_def by auto
  show "waits ks e' \<Longrightarrow> waits ks' e'" using s(1) s' unfolding waits_def by auto
  assume m: "msg_ok ks log m"
  then have "mStreamID m \<le> last_id s" using s(1) by (auto simp: msg_ok_def)
  with s(2) have "mStreamID m < i" by simp
  with m s(1) s' show "msg_ok ks' (log @ [e]) m" by (auto simp: msg_ok_def)
qed

text \<open>A command of a relay removes entries at most, and no key but the outbox changes.\<close>

lemma outbox_keys_differ [simp]:
  "version_key p \<noteq> outbox_key" "voted_key p \<noteq> outbox_key" "time_key \<noteq> outbox_key" "score_key \<noteq> outbox_key"
  by simp_all

lemma same_entries_views:
  assumes "same_entries ks ks' gone"
  shows "version_of ks' = version_of ks" "direction_of ks' = direction_of ks"
  using assms
  by (auto simp: same_entries_def version_of_def direction_of_def hget_def zscore_def hash_at_def zset_at_def fun_eq_iff)

lemma same_entries_vote_wf:
  assumes "same_entries ks ks' gone" "vote_wf ks"
  shows "vote_wf ks'"
proof -
  have "zset_at ks' k = zset_at ks k \<and> hash_at ks' k = hash_at ks k" if "k \<noteq> outbox_key" for k
    using assms(1) that by (simp add: same_entries_def zset_at_def hash_at_def)
  moreover have "stream_at ks' outbox_key \<noteq> None"
    using assms by (auto simp: same_entries_def vote_wf_def)
  ultimately show ?thesis using assms(2) by (simp add: vote_wf_def)
qed

lemma same_entriesE:
  assumes "same_entries ks ks' gone" "stream_at ks outbox_key = Some s"
  obtains s' where "stream_at ks' outbox_key = Some s'" "last_id s' = last_id s"
    "entries s' = entries s \<or> (\<exists>i\<in>gone. entries s' = filter (\<lambda>(j, _). j \<noteq> i) (entries s))"
  using assms by (auto simp: same_entries_def)

lemma same_entries_outbox:
  assumes same: "same_entries ks ks' gone" and ok: "outbox_ok ks log"
  shows "outbox_ok ks' log" and "msg_ok ks log m \<Longrightarrow> msg_ok ks' log m"
    and "waits ks e \<Longrightarrow> waits ks' e \<or> (\<exists>s i fs. i \<in> gone \<and> stream_at ks outbox_key = Some s \<and>
           (i, fs) \<in> set (entries s) \<and> parsed_as fs e)"
proof -
  from ok obtain s where s: "stream_at ks outbox_key = Some s" "distinct (ids (entries s))"
    "\<forall>(i, fs) \<in> set (entries s). i \<le> last_id s \<and> (\<exists>e\<in>set log. parsed_as fs e)"
    by (auto simp: outbox_ok_def)
  obtain s' where s': "stream_at ks' outbox_key = Some s'" "last_id s' = last_id s"
    "entries s' = entries s \<or> (\<exists>i\<in>gone. entries s' = filter (\<lambda>(j, _). j \<noteq> i) (entries s))"
    by (rule same_entriesE [OF same s(1)])
  from s'(3) have sub: "set (entries s') \<subseteq> set (entries s)" by auto
  from s'(3) s(2) have "distinct (ids (entries s'))" by (auto simp: ids_filter)
  with sub s(3) s' show "outbox_ok ks' log" unfolding outbox_ok_def by fastforce
  show "msg_ok ks log m \<Longrightarrow> msg_ok ks' log m" using sub s(1) s'(1,2) by (auto simp: msg_ok_def)
  assume "waits ks e"
  then obtain i fs where e: "(i, fs) \<in> set (entries s)" "parsed_as fs e" using s(1) by (auto simp: waits_def)
  show "waits ks' e \<or> (\<exists>s i fs. i \<in> gone \<and> stream_at ks outbox_key = Some s \<and>
           (i, fs) \<in> set (entries s) \<and> parsed_as fs e)"
  proof (cases "(i, fs) \<in> set (entries s')")
    case True
    with e(2) s'(1) show ?thesis by (auto simp: waits_def)
  next
    case False
    with e(1) s'(3) have "i \<in> gone" by auto
    with e s(1) show ?thesis by blast
  qed
qed

text \<open>What a relay has read is good to publish.\<close>

lemma read_entries_msg_ok:
  assumes ok: "outbox_ok ks log" and "read_entries ks ms" "m \<in> set ms"
  shows "msg_ok ks log m"
proof -
  from assms(2,3) obtain s fs where s: "stream_at ks outbox_key = Some s"
    "(mStreamID m, fs) \<in> set (entries s)" "parsed_as fs (mEvent m)"
    by (auto simp: read_entries_def parsed_as_def)
  from ok s(1) have o: "distinct (ids (entries s))"
    "\<forall>(i, fs) \<in> set (entries s). i \<le> last_id s \<and> (\<exists>e\<in>set log. parsed_as fs e)"
    by (auto simp: outbox_ok_def)
  have "distinct (map fst (entries s))" using o(1) by (simp add: ids_def)
  then have only: "gs = fs" if "(mStreamID m, gs) \<in> set (entries s)" for gs
    using that s(2) by (rule eq_key_imp_eq_value)
  from o(2) s(2) have i: "mStreamID m \<le> last_id s" "\<exists>e\<in>set log. parsed_as fs e" by auto
  from i(2) s(3) have "mEvent m \<in> set log" by (metis parsed_as_unique)
  with i(1) s(1,3) only show ?thesis unfolding msg_ok_def by auto
qed

section \<open>The tables\<close>

definition tables_ok :: "mysql \<Rightarrow> VoteEvent list \<Rightarrow> vote_tables \<Rightarrow> bool" where
  "tables_ok M log t \<longleftrightarrow>
     fst ` set (consumed t) \<subseteq> EventID ` set log \<and>
     tables_hold M (set log) {e \<in> set log. is_consumed M (EventID e) t} t"

lemma PersistVoteEvent_consumed:
  assumes "PersistVoteEvent M flt now e t = (r, t')"
  shows "set (consumed t) \<subseteq> set (consumed t')" "fst ` set (consumed t') \<subseteq> insert (EventID e) (fst ` set (consumed t))"
  using assms
  by (auto simp: PersistVoteEvent_eq commit_def Let_def split: if_splits option.splits prod.splits commit_fate.splits)

lemma is_consumed_mono: "set (consumed t) \<subseteq> set (consumed t') \<Longrightarrow> is_consumed M i t \<Longrightarrow> is_consumed M i t'"
  by (auto simp: is_consumed_def list_ex_iff)

lemma logged_event_ok:
  assumes "logged e"
  shows "event_ok e" "\<exists>i. EventID e = FormatInt i" "UserID e = FormatInt (parsed_id (UserID e))"
    "PostID e = FormatInt (parsed_id (PostID e))"
  using assms by (auto simp: logged_def event_ok_def parsed_id_def ParseInt_FormatInt)

context mysql_server
begin

lemma consistent_log:
  assumes "log_ok ks log"
  shows "consistent M (set log)"
proof -
  note l = assms [unfolded log_ok_def]
  have lg: "logged e" if "e \<in> set log" for e using l that by blast
  have "inj_on EventID (set log)" using l by (simp add: distinct_map)
  moreover have "EventID a = EventID b" if "a \<in> set log" "b \<in> set log" "coll M (EventID a) = coll M (EventID b)" for a b
    using logged_event_ok(2) [OF lg [OF that(1)]] logged_event_ok(2) [OF lg [OF that(2)]] that(3) coll_decimal
    by metis
  ultimately have "inj_on (\<lambda>e. coll M (EventID e)) (set log)" by (auto simp: inj_on_def)
  moreover have "Direction a = Direction b"
    if "a \<in> set log" "b \<in> set log" "event_key a = event_key b" "Version a = Version b" for a b
  proof -
    have "UserID a = UserID b" "PostID a = PostID b"
      using logged_event_ok(3,4) [OF lg [OF that(1)]] logged_event_ok(3,4) [OF lg [OF that(2)]] that(3)
      by (metis event_key_def prod.inject)+
    with l that show ?thesis by blast
  qed
  ultimately show ?thesis using lg logged_event_ok(1) unfolding consistent_def by blast
qed

lemma tables_ok_new:
  assumes ok: "tables_ok M log t" and new: "EventID e \<notin> EventID ` set log"
    and "logged e" "\<forall>a\<in>set log. logged a"
  shows "tables_ok M (log @ [e]) t" and "\<not> is_consumed M (EventID e) t"
proof -
  show fresh: "\<not> is_consumed M (EventID e) t"
  proof
    assume "is_consumed M (EventID e) t"
    then obtain j x where j: "(j, x) \<in> set (consumed t)" "coll M j = coll M (EventID e)"
      by (auto simp: is_consumed_def list_ex_iff)
    with ok obtain a where a: "a \<in> set log" "j = EventID a" by (force simp: tables_ok_def)
    with j(2) logged_event_ok(2) [OF assms(3)] logged_event_ok(2) [of a] assms(4) coll_decimal
    have "EventID a = EventID e" by metis
    with a new show False by (metis imageI)
  qed
  have "{a \<in> set (log @ [e]). is_consumed M (EventID a) t} = {a \<in> set log. is_consumed M (EventID a) t}"
    using fresh by auto
  with ok fresh show "tables_ok M (log @ [e]) t" by (auto simp: tables_ok_def tables_hold_def)
qed

lemma tables_ok_persist:
  assumes log: "log_ok ks log" and ok: "tables_ok M log t" and e: "e \<in> set log"
    and run: "PersistVoteEvent M flt now e t = (r, t')"
  shows "tables_ok M log t'" and "is_consumed M i t \<Longrightarrow> is_consumed M i t'"
    and "\<not> isl r \<Longrightarrow> is_consumed M (EventID e) t'"
proof -
  let ?S = "{a \<in> set log. is_consumed M (EventID a) t}"
  have t: "tables_hold M (set log) ?S t" using ok by (simp add: tables_ok_def)
  note cs = PersistVoteEvent_consumed [OF run]
  from PersistVoteEvent_holds [OF consistent_log [OF log] t e run]
  have "\<exists>S. tables_hold M (set log) S t' \<and> (\<not> isl r \<longrightarrow> e \<in> S)" using t by auto
  then obtain S where S: "tables_hold M (set log) S t'" "\<not> isl r \<longrightarrow> e \<in> S" by blast
  then have eq: "S = {a \<in> set log. is_consumed M (EventID a) t'}" by (auto simp: tables_hold_def)
  have "fst ` set (consumed t') \<subseteq> EventID ` set log" using cs(2) ok e by (auto simp: tables_ok_def)
  with S(1) eq show "tables_ok M log t'" by (simp add: tables_ok_def)
  show "is_consumed M i t \<Longrightarrow> is_consumed M i t'" by (rule is_consumed_mono [OF cs(1)])
  show "\<not> isl r \<Longrightarrow> is_consumed M (EventID e) t'" using S(2) eq by auto
qed

end

end
