(* ===== verification/PipelineSafe.thy ===== *)
theory PipelineSafe
  imports PipelineInv
begin

text \<open>
  The invariant of the whole pipeline, its preservation by every step, and what follows from it:
  no vote is lost on the way, and once the pipeline has drained MySQL shows the votes of Redis.
\<close>

section \<open>The invariant\<close>

definition holding :: "consumer_pc \<Rightarrow> body set" where
  "holding pc = (case pc of CGot m \<Rightarrow> {m_body m} | CMove m x m' \<Rightarrow> {m_body m} | CNack m \<Rightarrow> {m_body m} | _ \<Rightarrow> {})"

definition places :: "RabbitMQConfig \<Rightarrow> ('b \<Rightarrow> string \<Rightarrow> message list) \<Rightarrow> ('r, 'b) sys \<Rightarrow> body set" where
  "places config queue s =
     (\<Union>q\<in>{VoteQueue config, RetryQueue, DeadQueue}. m_body ` set (queue (y_broker s) q)) \<union>
     (\<Union>n. holding (y_consumer s n))"

definition downstream ::
    "mysql \<Rightarrow> RabbitMQConfig \<Rightarrow> ('b \<Rightarrow> string \<Rightarrow> message list) \<Rightarrow> ('r, 'b) sys \<Rightarrow> VoteEvent \<Rightarrow> bool" where
  "downstream M config queue s e \<longleftrightarrow>
     JsonEvent e \<in> places config queue s \<or> is_consumed M (EventID e) (y_tables s)"

definition relay_ok :: "(VoteOutboxMessage \<Rightarrow> bool) \<Rightarrow> (VoteEvent \<Rightarrow> bool) \<Rightarrow> relay_pc \<Rightarrow> bool" where
  "relay_ok good down pc =
     (case pc of RIdle \<Rightarrow> True | RPublish ms \<Rightarrow> (\<forall>m\<in>set ms. good m)
      | RAck m ms \<Rightarrow> (\<forall>m\<in>set (m # ms). good m) \<and> down (mEvent m))"

definition consumer_ok :: "VoteEvent list \<Rightarrow> consumer_pc \<Rightarrow> bool" where
  "consumer_ok log pc =
     (case pc of
        CIdle \<Rightarrow> True
      | CGot m \<Rightarrow> m_body m \<in> JsonEvent ` set log
      | CMove m x m' \<Rightarrow> m_body m \<in> JsonEvent ` set log \<and> m_body m' = m_body m \<and> x \<in> {RetryExchange, DeadExchange}
      | CNack m \<Rightarrow> m_body m \<in> JsonEvent ` set log
      | CSettle m \<Rightarrow> m_body m \<in> JsonEvent ` set log)"

definition pipe_inv ::
    "('r, 'b) services \<Rightarrow> RabbitMQConfig \<Rightarrow> ('r \<Rightarrow> keyspace) \<Rightarrow> ('b \<Rightarrow> topology) \<Rightarrow> ('b \<Rightarrow> string \<Rightarrow> message list)
       \<Rightarrow> ('r, 'b) sys \<Rightarrow> bool" where
  "pipe_inv sv config db topo queue s \<longleftrightarrow>
     vote_wf (db (y_redis s)) \<and> log_ok (db (y_redis s)) (y_log s) \<and> outbox_ok (db (y_redis s)) (y_log s) \<and>
     topo_ok config (topo (y_broker s)) \<and> tables_ok (sv_mysql sv) (y_log s) (y_tables s) \<and>
     (\<forall>e\<in>set (y_log s). waits (db (y_redis s)) e \<or> downstream (sv_mysql sv) config queue s e) \<and>
     (\<forall>n. relay_ok (msg_ok (db (y_redis s)) (y_log s)) (downstream (sv_mysql sv) config queue s) (y_relay s n)) \<and>
     (\<forall>q. m_body ` set (queue (y_broker s) q) \<subseteq> JsonEvent ` set (y_log s)) \<and>
     (\<forall>n. consumer_ok (y_log s) (y_consumer s n))"

text \<open>The two ways the places downstream change: nothing leaves them, or the tables take it in.\<close>

lemma relay_ok_mono:
  "relay_ok good down pc \<Longrightarrow> (\<And>m. good m \<Longrightarrow> good' m) \<Longrightarrow> 
   (\<And>m. good m \<Longrightarrow> down (mEvent m) \<Longrightarrow> down' (mEvent m)) \<Longrightarrow> relay_ok good' down' pc"
  by (auto simp: relay_ok_def split: relay_pc.splits)

lemma consumer_ok_mono: "consumer_ok log pc \<Longrightarrow> set log \<subseteq> set log' \<Longrightarrow> consumer_ok log' pc"
  by (auto simp: consumer_ok_def split: consumer_pc.splits)

lemma holding_consumer_ok: "consumer_ok log pc \<Longrightarrow> holding pc \<subseteq> JsonEvent ` set log"
  by (auto simp: consumer_ok_def holding_def split: consumer_pc.splits)

text \<open>A step of Redis that keeps the views of the votes and drops no entry that is not downstream.\<close>

lemma pipe_inv_redis:
  assumes inv: "pipe_inv sv config db topo queue s"
    and wf: "vote_wf (db r)"
    and views: "version_of (db r) = version_of (db (y_redis s))" "direction_of (db r) = direction_of (db (y_redis s))"
    and out: "outbox_ok (db r) (y_log s)" "\<And>m. msg_ok (db (y_redis s)) (y_log s) m \<Longrightarrow> msg_ok (db r) (y_log s) m"
    and kept: "\<And>e. e \<in> set (y_log s) \<Longrightarrow> waits (db (y_redis s)) e \<Longrightarrow> waits (db r) e \<or> downstream (sv_mysql sv) config queue s e"
    and relay: "relay_ok (msg_ok (db r) (y_log s)) (downstream (sv_mysql sv) config queue s) pc"
  shows "pipe_inv sv config db topo queue (s\<lparr>y_redis := r\<rparr>)"
    and "pipe_inv sv config db topo queue (s\<lparr>y_redis := r, y_relay := (y_relay s)(n := pc)\<rparr>)"
proof -
  have log: "log_ok (db r) (y_log s)" using inv views by (simp add: pipe_inv_def log_ok_def)
  have down: "downstream (sv_mysql sv) config queue (s\<lparr>y_redis := r\<rparr>) = downstream (sv_mysql sv) config queue s"
    "downstream (sv_mysql sv) config queue (s\<lparr>y_redis := r, y_relay := (y_relay s)(n := pc)\<rparr>) =
      downstream (sv_mysql sv) config queue s"
    by (simp_all add: downstream_def places_def fun_eq_iff)
  have rel: "relay_ok (msg_ok (db r) (y_log s)) (downstream (sv_mysql sv) config queue s) (y_relay s k)" for k
    by (rule relay_ok_mono [of "msg_ok (db (y_redis s)) (y_log s)" "downstream (sv_mysql sv) config queue s"])
       (use inv out(2) in \<open>auto simp: pipe_inv_def\<close>)
  have cov: "\<forall>e\<in>set (y_log s). waits (db r) e \<or> downstream (sv_mysql sv) config queue s e"
    using inv kept unfolding pipe_inv_def by blast
  show "pipe_inv sv config db topo queue (s\<lparr>y_redis := r\<rparr>)"
    "pipe_inv sv config db topo queue (s\<lparr>y_redis := r, y_relay := (y_relay s)(n := pc)\<rparr>)"
    using inv wf log out(1) cov rel relay unfolding pipe_inv_def down by simp_all
qed

text \<open>A step of the broker and the consumers.\<close>

lemma pipe_inv_broker:
  assumes inv: "pipe_inv sv config db topo queue s"
    and same: "y_redis s' = y_redis s" "y_log s' = y_log s"
    and topo: "topo_ok config (topo (y_broker s'))"
    and tables: "tables_ok (sv_mysql sv) (y_log s) (y_tables s')"
    and down: "\<And>e. e \<in> set (y_log s) \<Longrightarrow> downstream (sv_mysql sv) config queue s e \<Longrightarrow> downstream (sv_mysql sv) config queue s' e"
    and relay: "\<And>n. relay_ok (msg_ok (db (y_redis s)) (y_log s)) (downstream (sv_mysql sv) config queue s') (y_relay s' n)"
    and queues: "\<And>q. m_body ` set (queue (y_broker s') q) \<subseteq> JsonEvent ` set (y_log s)"
    and cons: "\<And>n. consumer_ok (y_log s) (y_consumer s' n)"
  shows "pipe_inv sv config db topo queue s'"
  using assms unfolding pipe_inv_def same by blast


lemma places_queue: "m \<in> set (queue (y_broker s) q) \<Longrightarrow> q \<in> {VoteQueue config, RetryQueue, DeadQueue} \<Longrightarrow>
    m_body m \<in> places config queue s"
  by (auto simp: places_def)

lemma places_holding: "x \<in> holding (y_consumer s n) \<Longrightarrow> x \<in> places config queue s"
  by (auto simp: places_def)

lemma placesE:
  assumes "x \<in> places config queue s"
  obtains (queued) q m where "q \<in> {VoteQueue config, RetryQueue, DeadQueue}" "m \<in> set (queue (y_broker s) q)" "x = m_body m"
  | (held) n where "x \<in> holding (y_consumer s n)"
  using assms by (auto simp: places_def)

lemma holding_simps [simp]:
  "holding CIdle = {}" "holding (CGot m) = {m_body m}" "holding (CMove m x m') = {m_body m}"
  "holding (CNack m) = {m_body m}" "holding (CSettle m) = {}"
  by (simp_all add: holding_def)

lemma consumer_ok_simps [simp]:
  "consumer_ok log CIdle" "consumer_ok log (CGot m) \<longleftrightarrow> m_body m \<in> JsonEvent ` set log"
  "consumer_ok log (CMove m x m') \<longleftrightarrow>
     m_body m \<in> JsonEvent ` set log \<and> m_body m' = m_body m \<and> x \<in> {RetryExchange, DeadExchange}"
  "consumer_ok log (CNack m) \<longleftrightarrow> m_body m \<in> JsonEvent ` set log"
  "consumer_ok log (CSettle m) \<longleftrightarrow> m_body m \<in> JsonEvent ` set log"
  by (simp_all add: consumer_ok_def)

lemma relay_ok_simps [simp]:
  "relay_ok good down RIdle" "relay_ok good down (RPublish ms) \<longleftrightarrow> (\<forall>m\<in>set ms. good m)"
  "relay_ok good down (RAck m ms) \<longleftrightarrow> (\<forall>m\<in>set (m # ms). good m) \<and> down (mEvent m)"
  by (simp_all add: relay_ok_def)

text \<open>The broker and one consumer move on; the messages are in the queues, held, or accounted for.\<close>

lemma pipe_inv_consumer:
  assumes inv: "pipe_inv sv config db topo queue s"
    and topo: "topo_ok config (topo b')"
    and tables: "tables_ok (sv_mysql sv) (y_log s) t'"
      "\<And>i. is_consumed (sv_mysql sv) i (y_tables s) \<Longrightarrow> is_consumed (sv_mysql sv) i t'"
    and queues: "\<And>q. m_body ` set (queue b' q) \<subseteq> JsonEvent ` set (y_log s)"
    and queued: "\<And>q m. q \<in> {VoteQueue config, RetryQueue, DeadQueue} \<Longrightarrow> m \<in> set (queue (y_broker s) q) \<Longrightarrow>
      m \<in> set (queue b' q) \<or> m_body m \<in> places config queue (s\<lparr>y_broker := b', y_tables := t', y_consumer := (y_consumer s)(n := pc)\<rparr>)"
    and held: "\<And>e. JsonEvent e \<in> holding (y_consumer s n) \<Longrightarrow>
      downstream (sv_mysql sv) config queue (s\<lparr>y_broker := b', y_tables := t', y_consumer := (y_consumer s)(n := pc)\<rparr>) e"
    and cons: "consumer_ok (y_log s) pc"
  shows "pipe_inv sv config db topo queue (s\<lparr>y_broker := b', y_tables := t', y_consumer := (y_consumer s)(n := pc)\<rparr>)"
    (is "pipe_inv sv config db topo queue ?s")
proof -
  have down: "downstream (sv_mysql sv) config queue ?s e" if "downstream (sv_mysql sv) config queue s e" for e
    using that unfolding downstream_def [of _ _ _ s]
  proof
    assume "JsonEvent e \<in> places config queue s"
    then show ?thesis
    proof (cases rule: placesE)
      case (queued q m)
      from assms(6) [OF this(1,2)] queued(1,3) places_queue [of m queue ?s q config] show ?thesis
        by (auto simp: downstream_def)
    next
      case (held k)
      then show ?thesis
        using assms(7) [of e] places_holding [of "JsonEvent e" ?s k config queue]
        by (cases "k = n") (auto simp: downstream_def)
    qed
  next
    assume "is_consumed (sv_mysql sv) (EventID e) (y_tables s)"
    then show ?thesis using tables(2) by (simp add: downstream_def)
  qed
  show ?thesis
  proof (rule pipe_inv_broker [OF inv])
    show "relay_ok (msg_ok (db (y_redis s)) (y_log s)) (downstream (sv_mysql sv) config queue ?s) (y_relay ?s k)" for k
      by (rule relay_ok_mono [of "msg_ok (db (y_redis s)) (y_log s)" "downstream (sv_mysql sv) config queue s"])
         (use inv down in \<open>auto simp: pipe_inv_def\<close>)
    show "consumer_ok (y_log s) (y_consumer ?s k)" for k using inv cons by (simp add: pipe_inv_def)
  qed (use topo tables(1) queues down in auto)
qed

section \<open>Every step keeps it\<close>

locale pipeline =
  redis_server "sv_redis sv" db nid +
  amqp_acks "sv_decl sv" "sv_pub sv" topo queue "sv_ack sv" +
  mysql_server "sv_mysql sv"
  for sv :: "('r, 'b) services"
    and db :: "'r \<Rightarrow> keyspace"
    and nid :: "'r \<Rightarrow> string \<Rightarrow> stream_id"
    and topo :: "'b \<Rightarrow> topology"
    and queue :: "'b \<Rightarrow> string \<Rightarrow> message list" +
  fixes config :: RabbitMQConfig
  assumes queues_differ: "VoteQueue config \<notin> {RetryQueue, DeadQueue}"
begin

abbreviation inv :: "('r, 'b) sys \<Rightarrow> bool" where
  "inv \<equiv> pipe_inv sv config db topo queue"

abbreviation down :: "('r, 'b) sys \<Rightarrow> VoteEvent \<Rightarrow> bool" where
  "down \<equiv> downstream (sv_mysql sv) config queue"

lemma relay_command:
  assumes inv: "inv s"
    and c': "c' = relay_op_run (sv_redis sv) op \<lparr>srv = y_redis s, fates = fs\<rparr>"
    and gone: "\<And>i. op = OpAck i \<Longrightarrow> \<exists>m. mStreamID m = i \<and> msg_ok (db (y_redis s)) (y_log s) m \<and> down s (mEvent m)"
    and pc: "relay_ok (msg_ok (db (srv c')) (y_log s)) (down s) pc"
  shows "inv (s\<lparr>y_redis := srv c'\<rparr>)" and "inv (s\<lparr>y_redis := srv c', y_relay := (y_relay s)(n := pc)\<rparr>)"
proof -
  let ?gone = "case op of OpAck i \<Rightarrow> {i} | _ \<Rightarrow> {}"
  have same: "same_entries (db (y_redis s)) (db (srv c')) ?gone"
    using relay_op_same_entries [of "\<lparr>srv = y_redis s, fates = fs\<rparr>" op] by (simp add: c')
  have wf: "vote_wf (db (y_redis s))" and out: "outbox_ok (db (y_redis s)) (y_log s)"
    using inv by (simp_all add: pipe_inv_def)
  note o = same_entries_outbox [OF same out]
  have kept: "waits (db (srv c')) e \<or> down s e" if "waits (db (y_redis s)) e" for e
    using o(3) [OF that]
  proof (elim disjE exE conjE)
    fix st i fs assume i: "i \<in> ?gone" "stream_at (db (y_redis s)) outbox_key = Some st"
      "(i, fs) \<in> set (entries st)" "parsed_as fs e"
    then have "op = OpAck i" by (cases op) auto
    from gone [OF this] obtain m where m: "mStreamID m = i" "msg_ok (db (y_redis s)) (y_log s) m" "down s (mEvent m)"
      by blast
    with i(2,3) have "parsed_as fs (mEvent m)" by (auto simp: msg_ok_def)
    with i(4) m(3) show ?thesis by (simp add: parsed_as_def)
  qed simp
  note r = pipe_inv_redis [OF inv same_entries_vote_wf [OF same wf] same_entries_views [OF same] o(1) o(2) kept pc]
  show "inv (s\<lparr>y_redis := srv c'\<rparr>)" by (rule r(1))
  show "inv (s\<lparr>y_redis := srv c', y_relay := (y_relay s)(n := pc)\<rparr>)" by (rule r(2))
qed

lemma inv_vote:
  assumes inv: "inv s"
    and fresh: "FormatInt eid \<notin> EventID ` set (y_log s)" "int_range 64 eid"
    and ids: "0 < u" "int_range 64 u" "0 < p" "int_range 64 p" "0 < now" "int_range 64 now"
    and room: "version_of (db (y_redis s)) (FormatInt p) (FormatInt u) + 1 < 10 ^ 14"
    and run: "VoteForPost (sv_redis sv) (FormatInt u) (FormatInt p) d (FormatInt eid) now \<lparr>srv = y_redis s, fates = fs\<rparr> = (res, c')"
    and s': "s' = s\<lparr>y_redis := srv c',
          y_log := y_log s @ emitted db (y_redis s) (srv c')
            (vote_event (FormatInt u) (FormatInt p) d (FormatInt eid) now
               (version_of (db (srv c')) (FormatInt p) (FormatInt u)))\<rparr>"
  shows "inv s'"
proof -
  let ?U = "FormatInt u" and ?P = "FormatInt p" and ?c = "\<lparr>srv = y_redis s, fates = fs\<rparr>"
  have wf: "vote_wf (db (y_redis s))" and log: "log_ok (db (y_redis s)) (y_log s)"
    and out: "outbox_ok (db (y_redis s)) (y_log s)" and tab: "tables_ok (sv_mysql sv) (y_log s) (y_tables s)"
    using inv by (simp_all add: pipe_inv_def)
  have pos: "0 < version_of (db (y_redis s)) ?P ?U + 1" using version_nonneg [OF wf, of ?P ?U] by simp
  then have r64: "int_range 64 (version_of (db (y_redis s)) ?P ?U + 1)" using room by (simp add: int_range_def)
  have "db (srv c') = db (y_redis s) \<or>
      d \<in> {-1, 0, 1} \<and> zscore (db (y_redis s)) score_key ?P \<noteq> None \<and>
      applied (db (y_redis s)) (db (srv c')) (vote_argv ?U ?P d (FormatInt eid) now)
        ((d - direction_of (db (y_redis s)) ?P ?U) * scorePerVote) d (version_of (db (y_redis s)) ?P ?U + 1)"
    using VoteForPost_outcome(2) [of ?c ?P ?U d "FormatInt eid" now] wf r64 run by simp
  then show ?thesis
  proof (elim disjE conjE)
    assume eq: "db (srv c') = db (y_redis s)"
    then have "s' = s\<lparr>y_redis := srv c'\<rparr>" using s' by (simp add: emitted_def)
    moreover have "inv (s\<lparr>y_redis := srv c'\<rparr>)"
      by (rule pipe_inv_redis(1) [OF inv, where pc = RIdle]) (use wf out eq in auto)
    ultimately show ?thesis by simp
  next
    let ?v = "version_of (db (y_redis s)) ?P ?U + 1"
    let ?a = "vote_argv ?U ?P d (FormatInt eid) now"
    let ?e = "vote_event ?U ?P d (FormatInt eid) now ?v"
    assume d: "d \<in> {-1, 0, 1}" and sc: "zscore (db (y_redis s)) score_key ?P \<noteq> None"
      and ap: "applied (db (y_redis s)) (db (srv c')) ?a ((d - direction_of (db (y_redis s)) ?P ?U) * scorePerVote) d ?v"
    note v = applied_views [OF ap sc]
    have s': "s' = s\<lparr>y_redis := srv c', y_log := y_log s @ [?e]\<rparr>"
      using s' v(2,3) by (simp add: emitted_def)
    have lg: "logged ?e" using ids fresh(2) d pos room by (intro logged_vote) auto
    obtain st i where st: "stream_at (db (y_redis s)) outbox_key = Some st" "last_id st < i"
      "stream_at (db (srv c')) outbox_key = Some (st\<lparr>entries := entries st @ [(i, vote_event_fields ?a d ?v)], last_id := i\<rparr>)"
      by (rule applied_stream [OF ap])
    have "parsed_as (vote_event_fields ?a d ?v) ?e"
      unfolding parsed_as_def by (rule parse_vote_event [OF d pos room ids(6)])
    note o = outbox_ok_append [OF out st this]
    have "log_ok (db (srv c')) (y_log s @ [?e])"
      using log_ok_vote [OF log lg, of "db (srv c')"] fresh(1) v(1,2) by simp
    moreover have "vote_wf (db (srv c'))" by (rule vote_wf_applied [OF ap wf d pos r64])
    moreover have "tables_ok (sv_mysql sv) (y_log s @ [?e]) (y_tables s)"
      using tables_ok_new(1) [OF tab _ lg] fresh(1) log by (simp add: log_ok_def)
    moreover have down: "down (s\<lparr>y_redis := srv c', y_log := y_log s @ [?e]\<rparr>) = down s"
      by (simp add: downstream_def places_def fun_eq_iff)
    moreover have "relay_ok (msg_ok (db (srv c')) (y_log s @ [?e])) (down s) (y_relay s n)" for n
      by (rule relay_ok_mono [of "msg_ok (db (y_redis s)) (y_log s)" "down s"])
         (use inv o(4) in \<open>auto simp: pipe_inv_def\<close>)
    moreover have "consumer_ok (y_log s @ [?e]) (y_consumer s n)" for n
      by (rule consumer_ok_mono [of "y_log s"]) (use inv in \<open>auto simp: pipe_inv_def\<close>)
    moreover have "m_body ` set (queue (y_broker s) q) \<subseteq> JsonEvent ` set (y_log s @ [?e])" for q
      using inv by (fastforce simp: pipe_inv_def)
    moreover have "\<forall>e\<in>set (y_log s @ [?e]). waits (db (srv c')) e \<or> down s e"
      using inv o(2,3) unfolding pipe_inv_def by auto
    ultimately show ?thesis using inv o(1) unfolding s' pipe_inv_def by simp
  qed
qed

lemma Publish_broker:
  assumes "clean c" "Publish (sv_decl sv) (sv_pub sv) env x m c b = Some (res, c', b')" "topo_ok config (topo b)"
  shows "topo_ok config (topo b')" "set (queue b q) \<subseteq> set (queue b' q)" "set (queue b' q) \<subseteq> insert m (set (queue b q))"
    "\<not> isl res \<Longrightarrow> x \<in> {Exchange config, RetryExchange, DeadExchange} \<Longrightarrow>
       \<exists>q\<in>{VoteQueue config, RetryQueue, DeadQueue}. m \<in> set (queue b' q)"
proof -
  show t: "topo_ok config (topo b')" by (rule topo_ok_mono [OF assms(3) Publish_binds [OF assms(2)]])
  show "set (queue b q) \<subseteq> set (queue b' q)" "set (queue b' q) \<subseteq> insert m (set (queue b q))"
    using Publish_queues(1) [OF assms(1,2)] by blast+
  show "\<exists>q\<in>{VoteQueue config, RetryQueue, DeadQueue}. m \<in> set (queue b' q)"
    if "\<not> isl res" "x \<in> {Exchange config, RetryExchange, DeadExchange}"
    using Publish_queues(2) [OF assms(1,2) that(1)] t that(2) unfolding topo_ok_def by blast
qed

lemma inv_relay_publish:
  assumes inv: "inv s" and pc: "y_relay s n = RPublish (m # ms)" and c: "clean c"
    and run: "Publish (sv_decl sv) (sv_pub sv) env (Exchange config) (relay_message (mEvent m)) c (y_broker s) = Some (res, c', b')"
  shows "inv (s\<lparr>y_broker := b', y_relay := (y_relay s)(n := (if isl res then RIdle else RAck m ms))\<rparr>)" (is "inv ?s")
proof -
  have topo: "topo_ok config (topo (y_broker s))" using inv by (simp add: pipe_inv_def)
  note P = Publish_broker [OF c run topo]
  have good: "\<forall>k\<in>set (m # ms). msg_ok (db (y_redis s)) (y_log s) k"
    using inv pc unfolding pipe_inv_def by (metis relay_ok_simps(2))
  then have body: "m_body (relay_message (mEvent m)) \<in> JsonEvent ` set (y_log s)"
    by (simp add: msg_ok_def relay_message_def)
  have down: "down ?s e" if "down s e" for e
    using that P(2) unfolding downstream_def places_def by fastforce
  have new: "down ?s (mEvent m)" if "\<not> isl res"
  proof -
    from P(4) [OF that] obtain q where q: "q \<in> {VoteQueue config, RetryQueue, DeadQueue}"
      "relay_message (mEvent m) \<in> set (queue b' q)" by blast
    have "m_body (relay_message (mEvent m)) \<in> places config queue ?s"
      by (rule places_queue [OF _ q(1)]) (use q(2) in simp)
    then show ?thesis by (simp add: downstream_def relay_message_def)
  qed
  show ?thesis
  proof (rule pipe_inv_broker [OF inv])
    show "relay_ok (msg_ok (db (y_redis s)) (y_log s)) (down ?s) (y_relay ?s k)" for k
    proof (cases "k = n")
      case True
      then show ?thesis using good new by simp
    next
      case False
      have "relay_ok (msg_ok (db (y_redis s)) (y_log s)) (down ?s) (y_relay s k)"
        by (rule relay_ok_mono [of "msg_ok (db (y_redis s)) (y_log s)" "down s"])
           (use inv down in \<open>auto simp: pipe_inv_def\<close>)
      with False show ?thesis by simp
    qed
    show "m_body ` set (queue (y_broker ?s) q) \<subseteq> JsonEvent ` set (y_log s)" for q
    proof -
      have "m_body ` set (queue (y_broker s) q) \<subseteq> JsonEvent ` set (y_log s)" using inv by (simp add: pipe_inv_def)
      with P(3) [of q] body show ?thesis by auto
    qed
  qed (use inv P(1) down in \<open>auto simp: pipe_inv_def\<close>)
qed

lemma decide_ok:
  assumes log: "log_ok ks (y_log s)" and tab: "tables_ok (sv_mysql sv) (y_log s) t" and m: "m_body m = JsonEvent e" "e \<in> set (y_log s)"
    and run: "decide sv config flt now m t = (pc, t')"
  shows "tables_ok (sv_mysql sv) (y_log s) t'" "is_consumed (sv_mysql sv) i t \<Longrightarrow> is_consumed (sv_mysql sv) i t'"
    "consumer_ok (y_log s) pc" "holding pc = {m_body m} \<or> is_consumed (sv_mysql sv) (EventID e) t'"
proof -
  obtain r t1 where p: "PersistVoteEvent (sv_mysql sv) flt now e t = (r, t1)" by (metis surj_pair)
  note T = tables_ok_persist [OF log tab m(2) p]
  have t': "t' = t \<or> t' = t1"
    using run m(1) p by (auto simp: decide_def split: sum.splits if_splits)
  show "tables_ok (sv_mysql sv) (y_log s) t'" using t' tab T(1) by auto
  show "is_consumed (sv_mysql sv) i t \<Longrightarrow> is_consumed (sv_mysql sv) i t'" using t' T(2) by auto
  show "consumer_ok (y_log s) pc"
    using run m p
    by (auto simp: decide_def dead_message_def retry_or_dead_def Let_def split: sum.splits if_splits)
  show "holding pc = {m_body m} \<or> is_consumed (sv_mysql sv) (EventID e) t'"
    using run m(1) p T(3) by (auto simp: decide_def retry_or_dead_def Let_def split: sum.splits if_splits)
qed

lemma subset_one_more: "A \<subseteq> insert x B \<Longrightarrow> B \<subseteq> J \<Longrightarrow> x \<in> J \<Longrightarrow> A \<subseteq> J"
  by blast

lemma inv_consumer_cases:
  assumes "inv s"
  shows "topo_ok config (topo (y_broker s))" "tables_ok (sv_mysql sv) (y_log s) (y_tables s)"
    "m_body ` set (queue (y_broker s) q) \<subseteq> JsonEvent ` set (y_log s)" "consumer_ok (y_log s) (y_consumer s n)"
    "log_ok (db (y_redis s)) (y_log s)"
  using assms by (simp_all add: pipe_inv_def)

lemma inv_deliver:
  assumes inv: "inv s" and idle: "y_consumer s n = CIdle" and q: "queue (y_broker s) (VoteQueue config) = xs @ m # ys"
    and b': "topo b' = topo (y_broker s)" "queue b' = (queue (y_broker s))(VoteQueue config := xs @ ys)"
  shows "inv (s\<lparr>y_broker := b', y_consumer := (y_consumer s)(n := CGot m)\<rparr>)"
proof -
  note I = inv_consumer_cases [OF inv]
  have m: "m_body m \<in> JsonEvent ` set (y_log s)" using I(3) [of "VoteQueue config"] q by auto
  have pl: "m_body m \<in> places config queue (s\<lparr>y_broker := b', y_tables := y_tables s, y_consumer := (y_consumer s)(n := CGot m)\<rparr>)"
    by (rule places_holding [of _ _ n]) simp
  have "inv (s\<lparr>y_broker := b', y_tables := y_tables s, y_consumer := (y_consumer s)(n := CGot m)\<rparr>)"
  proof (rule pipe_inv_consumer [OF inv])
    show "m_body ` set (queue b' k) \<subseteq> JsonEvent ` set (y_log s)" for k
      using I(3) [of k] I(3) [of "VoteQueue config"] q b'(2) by auto
    show "k \<in> set (queue b' j) \<or> m_body k \<in> places config queue
        (s\<lparr>y_broker := b', y_tables := y_tables s, y_consumer := (y_consumer s)(n := CGot m)\<rparr>)"
      if "k \<in> set (queue (y_broker s) j)" for j k
      using that b'(2) q pl by (cases "j = VoteQueue config") auto
  qed (use I b'(1) m idle in simp_all)
  then show ?thesis by simp
qed

lemma inv_handle:
  assumes inv: "inv s" and got: "y_consumer s n = CGot m" and run: "decide sv config flt now m (y_tables s) = (pc, t')"
  shows "inv (s\<lparr>y_tables := t', y_consumer := (y_consumer s)(n := pc)\<rparr>)"
proof -
  note I = inv_consumer_cases [OF inv]
  from I(4) [of n] got obtain e where e: "m_body m = JsonEvent e" "e \<in> set (y_log s)" by auto
  note D = decide_ok [OF I(5) I(2) e run]
  let ?s = "s\<lparr>y_broker := y_broker s, y_tables := t', y_consumer := (y_consumer s)(n := pc)\<rparr>"
  have here: "down ?s e"
  proof (cases "holding pc = {m_body m}")
    case True
    then have "JsonEvent e \<in> places config queue ?s" using e(1) by (intro places_holding [of _ _ n]) simp
    then show ?thesis by (simp add: downstream_def)
  next
    case False
    with D(4) show ?thesis by (simp add: downstream_def)
  qed
  have "inv ?s"
  proof (rule pipe_inv_consumer [OF inv I(1) D(1) D(2) I(3)])
    show "down ?s a" if "JsonEvent a \<in> holding (y_consumer s n)" for a
      using that got e(1) here by simp
    show "consumer_ok (y_log s) pc" by (rule D(3))
  qed simp_all
  then show ?thesis by simp
qed

lemma inv_move:
  assumes inv: "inv s" and pc: "y_consumer s n = CMove m x m'" and c: "clean c"
    and run: "Publish (sv_decl sv) (sv_pub sv) env x m' c (y_broker s) = Some (res, c', b')"
  shows "inv (s\<lparr>y_broker := b', y_consumer := (y_consumer s)(n := (if isl res then CNack m else CSettle m))\<rparr>)"
    (is "inv (_\<lparr>y_broker := b', y_consumer := (_)(n := ?pc)\<rparr>)")
proof -
  note I = inv_consumer_cases [OF inv]
  note P = Publish_broker [OF c run I(1)]
  from I(4) [of n] pc have m: "m_body m \<in> JsonEvent ` set (y_log s)" "m_body m' = m_body m" "x \<in> {RetryExchange, DeadExchange}"
    by simp_all
  let ?s = "s\<lparr>y_broker := b', y_tables := y_tables s, y_consumer := (y_consumer s)(n := ?pc)\<rparr>"
  have here: "m_body m \<in> places config queue ?s"
  proof (cases "isl res")
    case True
    then show ?thesis by (intro places_holding [of _ _ n]) simp
  next
    case False
    with P(4) m(3) obtain q where q: "q \<in> {VoteQueue config, RetryQueue, DeadQueue}" "m' \<in> set (queue b' q)" by blast
    have "m_body m' \<in> places config queue ?s" by (rule places_queue [OF _ q(1)]) (use q(2) in simp)
    with m(2) show ?thesis by simp
  qed
  have "inv ?s"
  proof (rule pipe_inv_consumer [OF inv])
    show "m_body ` set (queue b' q) \<subseteq> JsonEvent ` set (y_log s)" for q
    proof -
      have "m_body ` set (queue b' q) \<subseteq> insert (m_body m') (m_body ` set (queue (y_broker s) q))" using P(3) [of q] by blast
      moreover have "m_body m' \<in> JsonEvent ` set (y_log s)" unfolding m(2) by (rule m(1))
      ultimately show ?thesis by (rule subset_one_more [OF _ I(3)])
    qed
    show "down ?s e" if "JsonEvent e \<in> holding (y_consumer s n)" for e
      using that pc here by (simp add: downstream_def)
    show "k \<in> set (queue b' q) \<or> m_body k \<in> places config queue ?s" if "k \<in> set (queue (y_broker s) q)" for q k
      using that P(2) by blast
    show "consumer_ok (y_log s) ?pc" using m(1) by simp
  qed (simp_all only: I(1,2) P(1))
  then show ?thesis by simp
qed

lemma inv_settle:
  assumes inv: "inv s" and pc: "y_consumer s n = CSettle m"
  shows "inv (s\<lparr>y_broker := snd (sv_ack sv (VoteQueue config) m (y_broker s)), y_consumer := (y_consumer s)(n := CIdle)\<rparr>)"
proof -
  note I = inv_consumer_cases [OF inv]
  let ?b = "snd (sv_ack sv (VoteQueue config) m (y_broker s))"
  have "inv (s\<lparr>y_broker := ?b, y_tables := y_tables s, y_consumer := (y_consumer s)(n := CIdle)\<rparr>)"
    by (rule pipe_inv_consumer [OF inv _ I(2)]) (simp_all only: I(1,3) ack_topo ack_queue pc holding_simps consumer_ok_simps empty_iff simp_thms)
  then show ?thesis by simp
qed

lemma inv_requeue:
  assumes inv: "inv s" and pc: "y_consumer s n \<in> {CGot m, CMove m x m', CNack m, CSettle m}"
    and b': "topo b' = topo (y_broker s)" "queue (y_broker s) (VoteQueue config) = xs @ ys"
      "queue b' = (queue (y_broker s))(VoteQueue config := xs @ m # ys)"
  shows "inv (s\<lparr>y_broker := b', y_consumer := (y_consumer s)(n := CIdle)\<rparr>)"
proof -
  note I = inv_consumer_cases [OF inv]
  let ?s = "s\<lparr>y_broker := b', y_tables := y_tables s, y_consumer := (y_consumer s)(n := CIdle)\<rparr>"
  have m: "m_body m \<in> JsonEvent ` set (y_log s)" using I(4) [of n] pc by auto
  have requeued: "m_body m \<in> places config queue ?s"
    by (rule places_queue [of _ _ _ "VoteQueue config"]) (simp_all add: b'(3))
  have held: "a = m_body m" if "a \<in> holding (y_consumer s n)" for a using that pc by auto
  have "inv ?s"
  proof (rule pipe_inv_consumer [OF inv _ I(2)])
    show "m_body ` set (queue b' q) \<subseteq> JsonEvent ` set (y_log s)" for q
    proof -
      have "m_body ` set (queue b' q) \<subseteq> insert (m_body m) (m_body ` set (queue (y_broker s) q))" using b' by auto
      then show ?thesis by (rule subset_one_more [OF _ I(3) m])
    qed
    show "k \<in> set (queue b' q) \<or> m_body k \<in> places config queue ?s" if "k \<in> set (queue (y_broker s) q)" for q k
      using that b' by auto
    show "down ?s e" if "JsonEvent e \<in> holding (y_consumer s n)" for e
      using held [OF that] requeued by (simp add: downstream_def)
  qed (simp_all only: b'(1) I(1) consumer_ok_simps)
  then show ?thesis by simp
qed

text \<open>The broker moves on by itself; a message may change its queue, not its body.\<close>

lemma inv_broker_alone:
  assumes inv: "inv s" and b': "topo_ok config (topo b')"
    and queues: "\<And>q. m_body ` set (queue b' q) \<subseteq> JsonEvent ` set (y_log s)"
    and kept: "\<And>q k. q \<in> {VoteQueue config, RetryQueue, DeadQueue} \<Longrightarrow> k \<in> set (queue (y_broker s) q) \<Longrightarrow>
      \<exists>q'\<in>{VoteQueue config, RetryQueue, DeadQueue}. m_body k \<in> m_body ` set (queue b' q')"
  shows "inv (s\<lparr>y_broker := b'\<rparr>)"
proof -
  note I = inv_consumer_cases [OF inv]
  let ?s = "s\<lparr>y_broker := b', y_tables := y_tables s, y_consumer := (y_consumer s)([] := y_consumer s [])\<rparr>"
  have "inv ?s"
  proof (rule pipe_inv_consumer [OF inv _ I(2) _ queues])
    show "k \<in> set (queue b' q) \<or> m_body k \<in> places config queue ?s"
      if q: "q \<in> {VoteQueue config, RetryQueue, DeadQueue}" "k \<in> set (queue (y_broker s) q)" for q k
    proof -
      from kept [OF q] obtain q' k' where "q' \<in> {VoteQueue config, RetryQueue, DeadQueue}"
        "k' \<in> set (queue b' q')" "m_body k = m_body k'" by blast
      then have "m_body k' \<in> places config queue ?s" by (intro places_queue [of _ _ _ q']) simp_all
      with \<open>m_body k = m_body k'\<close> show ?thesis by simp
    qed
    show "down ?s e" if "JsonEvent e \<in> holding (y_consumer s [])" for e
    proof -
      have "JsonEvent e \<in> places config queue ?s" by (rule places_holding [of _ _ "[]"]) (simp add: that)
      then show ?thesis by (simp add: downstream_def)
    qed
  qed (simp_all only: b' I(1,4))
  then show ?thesis by simp
qed

lemma inv_expire:
  assumes inv: "inv s" and q: "queue (y_broker s) RetryQueue = xs @ m # ys" "m_body m' = m_body m"
    and b': "topo b' = topo (y_broker s)"
      "queue b' = (queue (y_broker s))(RetryQueue := xs @ ys, VoteQueue config := queue (y_broker s) (VoteQueue config) @ [m'])"
  shows "inv (s\<lparr>y_broker := b'\<rparr>)"
proof (rule inv_broker_alone [OF inv])
  show "topo_ok config (topo b')" using inv_consumer_cases(1) [OF inv] by (simp only: b'(1))
  note I = inv_consumer_cases(3) [OF inv]
  have "m_body m' \<in> JsonEvent ` set (y_log s)" using I [of RetryQueue] q by auto
  with I [of RetryQueue] I [of "VoteQueue config"] I q(1)
  show "m_body ` set (queue b' k) \<subseteq> JsonEvent ` set (y_log s)" for k
    using I [of k] by (auto simp: b'(2))
  show "\<exists>q'\<in>{VoteQueue config, RetryQueue, DeadQueue}. m_body k \<in> m_body ` set (queue b' q')"
    if "j \<in> {VoteQueue config, RetryQueue, DeadQueue}" "k \<in> set (queue (y_broker s) j)" for j k
    using that q queues_differ by (auto simp: b'(2))
qed

lemma inv_redeliver:
  assumes inv: "inv s" and m: "m_body m = JsonEvent e" "e \<in> set (y_log s)"
    and b': "topo b' = topo (y_broker s)"
      "queue b' = (queue (y_broker s))(VoteQueue config := queue (y_broker s) (VoteQueue config) @ [m])"
  shows "inv (s\<lparr>y_broker := b'\<rparr>)"
proof (rule inv_broker_alone [OF inv])
  show "topo_ok config (topo b')" using inv_consumer_cases(1) [OF inv] by (simp only: b'(1))
  note I = inv_consumer_cases(3) [OF inv]
  show "m_body ` set (queue b' k) \<subseteq> JsonEvent ` set (y_log s)" for k
    using I [of k] I [of "VoteQueue config"] m by (auto simp: b'(2))
  show "\<exists>q'\<in>{VoteQueue config, RetryQueue, DeadQueue}. m_body k \<in> m_body ` set (queue b' q')"
    if "j \<in> {VoteQueue config, RetryQueue, DeadQueue}" "k \<in> set (queue (y_broker s) j)" for j k
    using that by (auto simp: b'(2))
qed

lemma inv_connect:
  assumes inv: "inv s" and run: "connectLocked (sv_decl sv) env c (y_broker s) = (ok, c', b')"
  shows "inv (s\<lparr>y_broker := b'\<rparr>)"
proof (rule inv_broker_alone [OF inv])
  note I = inv_consumer_cases [OF inv]
  show "topo_ok config (topo b')" by (rule topo_ok_mono [OF I(1) connectLocked_binds [OF run]])
  show "m_body ` set (queue b' q) \<subseteq> JsonEvent ` set (y_log s)" for q
    using I(3) [of q] by (simp only: connectLocked_keeps(1) [OF run])
  show "\<exists>q'\<in>{VoteQueue config, RetryQueue, DeadQueue}. m_body k \<in> m_body ` set (queue b' q')"
    if "j \<in> {VoteQueue config, RetryQueue, DeadQueue}" "k \<in> set (queue (y_broker s) j)" for j k
    using that connectLocked_keeps(1) [OF run] by auto
qed

lemma relay_msg_ok:
  assumes "inv s" "msg_ok (db (y_redis s)) (y_log s) m"
  shows "msg_ok (db (srv (relay_op_run (sv_redis sv) op \<lparr>srv = y_redis s, fates = fs\<rparr>))) (y_log s) m"
  using same_entries_outbox(2) [OF relay_op_same_entries [of "\<lparr>srv = y_redis s, fates = fs\<rparr>" op]] assms
  by (simp add: pipe_inv_def)

lemma after_read_ok:
  assumes inv: "inv s" and read: "\<And>ms. res = Inr ms \<Longrightarrow> read_entries (db (y_redis s)) ms"
  shows "relay_ok (msg_ok (db (srv (relay_op_run (sv_redis sv) op \<lparr>srv = y_redis s, fates = fs\<rparr>))) (y_log s)) (down s) (after_read res)"
proof (cases res)
  case (Inr ms)
  have "outbox_ok (db (y_redis s)) (y_log s)" using inv by (simp add: pipe_inv_def)
  note good = relay_msg_ok [OF inv read_entries_msg_ok [OF this read [OF Inr]]]
  show ?thesis unfolding Inr after_read_def by (auto intro: good)
qed (simp add: after_read_def)

lemma inv_relay:
  assumes inv: "inv s" and pc: "y_relay s n = pc"
  shows "EnsureVoteOutboxGroup (sv_redis sv) \<lparr>srv = y_redis s, fates = fs\<rparr> = (res0, c') \<Longrightarrow> inv (s\<lparr>y_redis := srv c'\<rparr>)"
    and "ReadVoteOutbox (sv_redis sv) n start cnt \<lparr>srv = y_redis s, fates = fs\<rparr> = (res, c') \<Longrightarrow>
      inv (s\<lparr>y_redis := srv c', y_relay := (y_relay s)(n := after_read res)\<rparr>)"
    and "ClaimStaleVoteOutbox (sv_redis sv) n idle cnt \<lparr>srv = y_redis s, fates = fs\<rparr> = (res, c') \<Longrightarrow>
      inv (s\<lparr>y_redis := srv c', y_relay := (y_relay s)(n := after_read res)\<rparr>)"
    and "pc = RAck m ms \<Longrightarrow> AckVoteOutbox (sv_redis sv) (mStreamID m) \<lparr>srv = y_redis s, fates = fs\<rparr> = (res2, c') \<Longrightarrow>
      inv (s\<lparr>y_redis := srv c', y_relay := (y_relay s)(n := (if isl res2 then RIdle else RPublish ms))\<rparr>)"
proof -
  let ?c = "\<lparr>srv = y_redis s, fates = fs\<rparr>"
  show "inv (s\<lparr>y_redis := srv c'\<rparr>)" if run: "EnsureVoteOutboxGroup (sv_redis sv) ?c = (res0, c')"
  proof -
    have c': "c' = relay_op_run (sv_redis sv) OpEnsure ?c" using run by (simp add: relay_op_run_def)
    show ?thesis by (rule relay_command(1) [OF inv c', where pc = RIdle]) simp_all
  qed
  show "inv (s\<lparr>y_redis := srv c', y_relay := (y_relay s)(n := after_read res)\<rparr>)"
    if run: "ReadVoteOutbox (sv_redis sv) n start cnt ?c = (res, c')"
  proof -
    have c': "c' = relay_op_run (sv_redis sv) (OpRead n start cnt) ?c" using run by (simp add: relay_op_run_def)
    have ok: "relay_ok (msg_ok (db (srv c')) (y_log s)) (down s) (after_read res)"
      unfolding c' by (rule after_read_ok [OF inv]) (use run ReadVoteOutbox_entries [of n start cnt ?c _ c'] in simp)
    show ?thesis by (rule relay_command(2) [OF inv c' _ ok]) simp
  qed
  show "inv (s\<lparr>y_redis := srv c', y_relay := (y_relay s)(n := after_read res)\<rparr>)"
    if run: "ClaimStaleVoteOutbox (sv_redis sv) n idle cnt ?c = (res, c')"
  proof -
    have c': "c' = relay_op_run (sv_redis sv) (OpClaim n idle cnt) ?c" using run by (simp add: relay_op_run_def)
    have ok: "relay_ok (msg_ok (db (srv c')) (y_log s)) (down s) (after_read res)"
      unfolding c' by (rule after_read_ok [OF inv]) (use run ClaimStaleVoteOutbox_entries [of n idle cnt ?c _ c'] in simp)
    show ?thesis by (rule relay_command(2) [OF inv c' _ ok]) simp
  qed
  show "inv (s\<lparr>y_redis := srv c', y_relay := (y_relay s)(n := (if isl res2 then RIdle else RPublish ms))\<rparr>)"
    if ack: "pc = RAck m ms" and run: "AckVoteOutbox (sv_redis sv) (mStreamID m) ?c = (res2, c')"
  proof -
    have c': "c' = relay_op_run (sv_redis sv) (OpAck (mStreamID m)) ?c" using run by (simp add: relay_op_run_def)
    have old: "\<forall>k\<in>set (m # ms). msg_ok (db (y_redis s)) (y_log s) k" "down s (mEvent m)"
      using inv pc ack unfolding pipe_inv_def by (metis relay_ok_simps(3))+
    have ok: "relay_ok (msg_ok (db (srv c')) (y_log s)) (down s) (if isl res2 then RIdle else RPublish ms)"
      unfolding c' using relay_msg_ok [OF inv] old(1) by simp
    show ?thesis by (rule relay_command(2) [OF inv c' _ ok]) (use old in auto)
  qed
qed

lemma inv_relay_stop:
  assumes "inv s"
  shows "inv (s\<lparr>y_relay := (y_relay s)(n := RIdle)\<rparr>)"
proof -
  have "down (s\<lparr>y_relay := (y_relay s)(n := RIdle)\<rparr>) = down s" by (simp add: downstream_def places_def fun_eq_iff)
  with assms show ?thesis by (simp add: pipe_inv_def)
qed

lemma inv_other:
  assumes inv: "inv s" and r: "\<forall>k. k = outbox_key \<or> (\<exists>p. k = version_key p) \<or> (\<exists>p. k = voted_key p) \<longrightarrow> db r k = db (y_redis s) k"
    and wf: "vote_wf (db r)"
  shows "inv (s\<lparr>y_redis := r\<rparr>)"
proof -
  have k: "db r (version_key p) = db (y_redis s) (version_key p)" "db r (voted_key p) = db (y_redis s) (voted_key p)"
    "db r outbox_key = db (y_redis s) outbox_key" for p using r by blast+
  have views: "version_of (db r) = version_of (db (y_redis s))" "direction_of (db r) = direction_of (db (y_redis s))"
    "stream_at (db r) outbox_key = stream_at (db (y_redis s)) outbox_key"
    by (simp_all add: fun_eq_iff version_of_def direction_of_def hget_def zscore_def hash_at_def zset_at_def stream_at_def k)
  have "outbox_ok (db r) = outbox_ok (db (y_redis s))" "msg_ok (db r) = msg_ok (db (y_redis s))" "waits (db r) = waits (db (y_redis s))"
    by (simp_all add: fun_eq_iff outbox_ok_def msg_ok_def waits_def views(3))
  then show ?thesis
    by (intro pipe_inv_redis(1) [OF inv wf views(1,2), where pc = RIdle]) (use inv in \<open>auto simp: pipe_inv_def\<close>)
qed

lemma inv_step: "pipe_step sv config db topo queue s s' \<Longrightarrow> inv s \<Longrightarrow> inv s'"
proof (induction rule: pipe_step.induct)
  case (vote eid s u p now d fs res c')
  then show ?case by (intro inv_vote [OF vote(11) vote(1-10) refl])
next
  case (relay_publish s n m ms c env res c' b')
  then show ?case by (intro inv_relay_publish)
next
  case (handle s n m flt now pc t')
  then show ?case by (intro inv_handle)
next
  case (move s n m x m' c env res c' b')
  then show ?case by (intro inv_move)
qed (rule inv_relay inv_relay_stop inv_deliver inv_settle inv_requeue inv_expire inv_redeliver inv_connect inv_other; (assumption | rule refl))+

lemma inv_steps: "(pipe_step sv config db topo queue)\<^sup>*\<^sup>* s s' \<Longrightarrow> inv s \<Longrightarrow> inv s'"
  by (induction rule: rtranclp_induct) (auto intro: inv_step)

end

end
