(* ===== verification/PipelineSim.thy ===== *)
theory PipelineSim
  imports PipelineSafe
begin

text \<open>
  The code of the workers takes the steps of the pipeline: a run of the relay or of the consumer, watched up
  to any of its calls, among other instances that take any steps in between, is a sequence of steps. Whatever
  is shown of the steps holds of the code.
\<close>

section \<open>Publishing keeps the client ready\<close>

lemma publisherLocked_config: "publisherLocked env c = (x, c') \<Longrightarrow> c_config c' = c_config c"
  by (auto simp: publisherLocked_def split: option.splits if_splits)

context amqp_broker
begin

lemma Publish_client:
  assumes "Publish decl pub env x m c b = Some (res, c', b')" "clean c"
  shows "clean c'" "c_config c' = c_config c"
proof -
  show "clean c'" using Publish_outcome [OF assms(2,1)] by blast
  obtain ok c1 b1 where 1: "connectLocked decl env c b = (ok, c1, b1)" by (metis surj_pair)
  with connectLocked_keeps(3) [OF 1] assms(1) publisherLocked_config [of env c1]
  show "c_config c' = c_config c"
    by (auto simp: Publish_def invalidatePublisherLocked_def split: if_splits option.splits prod.splits sum.splits)
qed

end

section \<open>Runs that follow the pipeline\<close>

text \<open>A run follows the steps of a system: where it ends, and where it is cut, the system has got there.\<close>

definition follows ::
    "('s \<Rightarrow> 's \<Rightarrow> bool) \<Rightarrow> ('w \<Rightarrow> 's \<Rightarrow> bool) \<Rightarrow> ('a \<Rightarrow> 's \<Rightarrow> bool) \<Rightarrow> 's \<Rightarrow> ('a, 'w) run \<Rightarrow> bool" where
  "follows step sync P s r \<longleftrightarrow>
     (case r of
        Done x w \<Rightarrow> \<exists>s'. step\<^sup>*\<^sup>* s s' \<and> sync w s' \<and> P x s'
      | Cut w \<Rightarrow> \<exists>s'. step\<^sup>*\<^sup>* s s' \<and> sync w s')"

lemma follows_Done: "sync w s \<Longrightarrow> P x s \<Longrightarrow> follows step sync P s (Done x w)"
  by (auto simp: follows_def)

lemma follows_Cut: "sync w s \<Longrightarrow> follows step sync P s (Cut w)"
  by (auto simp: follows_def)

lemma follows_steps:
  assumes "step\<^sup>*\<^sup>* s s1" "follows step sync P s1 r"
  shows "follows step sync P s r"
  using assms by (auto simp: follows_def split: run.splits intro: rtranclp_trans)

lemma follows_then:
  assumes "follows step sync P s r" "\<And>x w s1. sync w s1 \<Longrightarrow> P x s1 \<Longrightarrow> follows step sync Q s1 (f x w)"
  shows "follows step sync Q s (then_run r f)"
proof (cases r)
  case (Done x w)
  with assms(1) obtain s1 where "step\<^sup>*\<^sup>* s s1" "sync w s1" "P x s1" by (auto simp: follows_def)
  with follows_steps assms(2) Done show ?thesis by (fastforce simp: then_run_def)
next
  case (Cut w)
  with assms(1) show ?thesis by (simp add: follows_def then_run_def)
qed

text \<open>
  What a worker shares is the system but for where it is itself: its relays \<open>R\<close> and its slots for
  deliveries \<open>C\<close>. The others may take any steps that leave these alone.
\<close>

type_synonym rest = "VoteEvent list \<times> (string \<Rightarrow> relay_pc) \<times> (string \<Rightarrow> consumer_pc)"

definition rest_of :: "string set \<Rightarrow> string set \<Rightarrow> ('r, 'b) sys \<Rightarrow> rest" where
  "rest_of R C s = (y_log s, \<lambda>k. if k \<in> R then RIdle else y_relay s k, \<lambda>k. if k \<in> C then CIdle else y_consumer s k)"

definition own_same :: "string set \<Rightarrow> string set \<Rightarrow> ('r, 'b) sys \<Rightarrow> ('r, 'b) sys \<Rightarrow> bool" where
  "own_same R C s s' \<longleftrightarrow> (\<forall>k\<in>R. y_relay s' k = y_relay s k) \<and> (\<forall>k\<in>C. y_consumer s' k = y_consumer s k)"

definition others_step ::
    "('r, 'b) services \<Rightarrow> RabbitMQConfig \<Rightarrow> ('r \<Rightarrow> keyspace) \<Rightarrow> ('b \<Rightarrow> topology) \<Rightarrow> ('b \<Rightarrow> string \<Rightarrow> message list)
       \<Rightarrow> string set \<Rightarrow> string set \<Rightarrow> (nat \<Rightarrow> 'r \<times> 'b \<times> vote_tables \<times> rest \<Rightarrow> 'r \<times> 'b \<times> vote_tables \<times> rest) \<Rightarrow> bool" where
  "others_step sv config db topo queue R C others \<longleftrightarrow>
     (\<forall>i s. \<exists>s'. (pipe_step sv config db topo queue)\<^sup>*\<^sup>* s s' \<and> own_same R C s s' \<and>
        others i (y_redis s, y_broker s, y_tables s, rest_of R C s) = (y_redis s', y_broker s', y_tables s', rest_of R C s'))"

definition in_step ::
    "string set \<Rightarrow> string set \<Rightarrow> RabbitMQConfig \<Rightarrow> (nat \<Rightarrow> 'r \<times> 'b \<times> vote_tables \<times> rest \<Rightarrow> 'r \<times> 'b \<times> vote_tables \<times> rest)
       \<Rightarrow> ('r, 'b, rest) world \<Rightarrow> ('r, 'b) sys \<Rightarrow> bool" where
  "in_step R C config others w s \<longleftrightarrow>
     srv (w_redis w) = y_redis s \<and> w_broker w = y_broker s \<and> w_tables w = y_tables s \<and> w_rest w = rest_of R C s \<and>
     w_others w = others \<and> clean (w_client w) \<and> c_config (w_client w) = config"

lemma rest_of_own [simp]:
  "n \<in> R \<Longrightarrow> rest_of R C (s\<lparr>y_relay := (y_relay s)(n := pc)\<rparr>) = rest_of R C s"
  "n \<in> C \<Longrightarrow> rest_of R C (s\<lparr>y_consumer := (y_consumer s)(n := cpc)\<rparr>) = rest_of R C s"
  "rest_of R C (s\<lparr>y_redis := r\<rparr>) = rest_of R C s" "rest_of R C (s\<lparr>y_broker := b\<rparr>) = rest_of R C s"
  "rest_of R C (s\<lparr>y_tables := t\<rparr>) = rest_of R C s"
  by (auto simp: rest_of_def fun_eq_iff)

text \<open>
  A worker among others: \<open>idle i s\<close> says that the slots it will use from call \<open>i\<close> on are free.
\<close>

locale worker = pipeline sv db nid topo queue config
  for sv :: "('r, 'b) services" and db :: "'r \<Rightarrow> keyspace" and nid :: "'r \<Rightarrow> string \<Rightarrow> stream_id"
    and topo :: "'b \<Rightarrow> topology" and queue :: "'b \<Rightarrow> string \<Rightarrow> message list" and config :: RabbitMQConfig +
  fixes R :: "string set" and C :: "string set"
    and others :: "nat \<Rightarrow> 'r \<times> 'b \<times> vote_tables \<times> rest \<Rightarrow> 'r \<times> 'b \<times> vote_tables \<times> rest"
    and idle :: "nat \<Rightarrow> ('r, 'b) sys \<Rightarrow> bool"
  assumes others_act: "others_step sv config db topo queue R C others"
    and idle_later: "idle i s \<Longrightarrow> i \<le> j \<Longrightarrow> \<forall>k\<in>C. y_consumer s' k = y_consumer s k \<Longrightarrow> idle j s'"
begin

abbreviation step :: "('r, 'b) sys \<Rightarrow> ('r, 'b) sys \<Rightarrow> bool" where
  "step \<equiv> pipe_step sv config db topo queue"

definition sync :: "('r, 'b, rest) world \<Rightarrow> ('r, 'b) sys \<Rightarrow> bool" where
  "sync w s \<longleftrightarrow> in_step R C config others w s \<and> idle (w_calls w) s"

lemma interfere_sync:
  assumes "sync w s"
  obtains s1 where "step\<^sup>*\<^sup>* s s1" "own_same R C s s1" "sync (interfere w) s1"
proof -
  note w = assms [unfolded sync_def in_step_def]
  obtain s1 where s1: "step\<^sup>*\<^sup>* s s1" "own_same R C s s1"
    "others (w_calls w) (y_redis s, y_broker s, y_tables s, rest_of R C s) = (y_redis s1, y_broker s1, y_tables s1, rest_of R C s1)"
    using others_act by (auto simp: others_step_def)
  then have "interfere w = w\<lparr>w_redis := (w_redis w)\<lparr>srv := y_redis s1\<rparr>, w_broker := y_broker s1, w_tables := y_tables s1,
      w_rest := rest_of R C s1, w_calls := Suc (w_calls w)\<rparr>"
    using w by (simp add: interfere_def)
  moreover have "idle (Suc (w_calls w)) s1"
    using idle_later [of "w_calls w" s "Suc (w_calls w)" s1] w s1(2) by (simp add: own_same_def)
  ultimately have "sync (interfere w) s1" using w by (simp add: sync_def in_step_def)
  with s1(1,2) that show thesis by blast
qed

lemma call_follows:
  assumes "sync w s"
    and "\<And>w1 s1. sync w1 s1 \<Longrightarrow> own_same R C s s1 \<Longrightarrow> w_calls w1 = Suc (w_calls w) \<Longrightarrow> follows step sync P s1 (f (w_calls w) w1)"
  shows "follows step sync P s (call_run f w)"
proof (cases "w_stop w \<le> w_calls w")
  case True
  with assms(1) show ?thesis by (simp add: call_run_def follows_Cut)
next
  case False
  obtain s1 where s1: "step\<^sup>*\<^sup>* s s1" "own_same R C s s1" "sync (interfere w) s1" by (rule interfere_sync [OF assms(1)])
  have "w_calls (interfere w) = Suc (w_calls w)" by (simp add: interfere_def split: prod.split)
  from follows_steps [OF s1(1) assms(2) [OF s1(3,2) this]] False show ?thesis by (simp add: call_run_def)
qed

text \<open>A step of the worker itself, after a call.\<close>

lemma follows_own:
  assumes "step s s1" "sync w1 s1" "P x s1"
  shows "follows step sync P s (Done x w1)"
  by (rule follows_steps [OF r_into_rtranclp [of step, OF assms(1)]]) (rule follows_Done, fact+)

lemma ctx_follows:
  assumes "sync w s" "\<And>x. P x s"
  shows "follows step sync P s (ctx_alive w)" "follows step sync P s (waitForRetry w)"
  using assms by (simp_all add: waitForRetry_def ctx_alive_def follows_Done sync_def in_step_def)

lemma publish_follows:
  assumes "sync w s"
    and "\<And>s1 c env res c' b'. own_same R C s s1 \<Longrightarrow> clean c \<Longrightarrow> c_config c = config \<Longrightarrow>
      Publish (sv_decl sv) (sv_pub sv) env x m c (y_broker s1) = Some (res, c', b') \<Longrightarrow>
      \<exists>s2. step s1 s2 \<and> y_redis s2 = y_redis s1 \<and> y_broker s2 = b' \<and> y_tables s2 = y_tables s1 \<and>
        rest_of R C s2 = rest_of R C s1 \<and> idle (Suc (w_calls w)) s2 \<and> P res s2"
  shows "follows step sync P s (mq_publish sv x m w)"
  unfolding mq_publish_def
proof (rule call_follows [OF assms(1)])
  fix w1 s1 assume 1: "sync w1 s1" "own_same R C s s1" "w_calls w1 = Suc (w_calls w)"
  note w1 = 1(1) [unfolded sync_def in_step_def]
  let ?env = "n_mq (w_net w1 (w_calls w))"
  show "follows step sync P s1 (case Publish (sv_decl sv) (sv_pub sv) ?env x m (w_client w1) (w_broker w1) of
      None \<Rightarrow> Cut w1 | Some (res, c, b) \<Rightarrow> Done res (w1\<lparr>w_client := c, w_broker := b\<rparr>))"
  proof (cases "Publish (sv_decl sv) (sv_pub sv) ?env x m (w_client w1) (w_broker w1)")
    case None
    with 1(1) show ?thesis by (simp add: follows_Cut)
  next
    case (Some a)
    obtain res c b where a: "a = (res, c, b)" by (metis surj_pair)
    note cl = Publish_client [OF Some [unfolded a]]
    obtain s2 where s2: "step s1 s2" "y_redis s2 = y_redis s1" "y_broker s2 = b" "y_tables s2 = y_tables s1"
        "rest_of R C s2 = rest_of R C s1" "idle (Suc (w_calls w)) s2" "P res s2"
      using assms(2) [OF 1(2), of "w_client w1" ?env res c b] w1 Some a by auto
    have "sync (w1\<lparr>w_client := c, w_broker := b\<rparr>) s2" using w1 s2 cl 1(3) by (simp add: sync_def in_step_def)
    then have "follows step sync P s1 (Done res (w1\<lparr>w_client := c, w_broker := b\<rparr>))" by (rule follows_own [OF s2(1)]) (rule s2(7))
    with Some a show ?thesis by simp
  qed
qed

section \<open>The relay\<close>

lemma redis_follows:
  assumes "sync w s" "n \<in> R"
    and "\<And>s1 fs res c. y_relay s1 n = y_relay s n \<Longrightarrow> f \<lparr>srv = y_redis s1, fates = fs\<rparr> = (res, c) \<Longrightarrow>
      step s1 (s1\<lparr>y_redis := srv c, y_relay := (y_relay s1)(n := g res)\<rparr>)"
  shows "follows step sync (\<lambda>res s'. y_relay s' n = g res) s (on_redis f w)"
  unfolding on_redis_def
proof (rule call_follows [OF assms(1)])
  fix w1 s1 assume 1: "sync w1 s1" "own_same R C s s1"
  note w1 = 1(1) [unfolded sync_def in_step_def]
  obtain res c where f: "f (w_redis w1) = (res, c)" by fastforce
  have "w_redis w1 = \<lparr>srv = y_redis s1, fates = fates (w_redis w1)\<rparr>" using w1 by simp
  with f have f': "f \<lparr>srv = y_redis s1, fates = fates (w_redis w1)\<rparr> = (res, c)" by metis
  let ?s2 = "s1\<lparr>y_redis := srv c, y_relay := (y_relay s1)(n := g res)\<rparr>"
  have "step s1 ?s2" using assms(3) [OF _ f'] 1(2) assms(2) by (simp add: own_same_def)
  moreover have "idle (w_calls w1) ?s2" using idle_later [of "w_calls w1" s1 "w_calls w1" ?s2] w1 by simp
  moreover have "rest_of R C ?s2 = rest_of R C s1"
    using rest_of_own(1) [OF assms(2), of C "s1\<lparr>y_redis := srv c\<rparr>" "g res"] by simp
  ultimately have "step s1 ?s2" "sync (w1\<lparr>w_redis := c\<rparr>) ?s2" using w1 by (simp_all add: sync_def in_step_def)
  then have "follows step sync (\<lambda>res s'. y_relay s' n = g res) s1 (Done res (w1\<lparr>w_redis := c\<rparr>))"
    by (rule follows_own) simp
  then show "follows step sync (\<lambda>res s'. y_relay s' n = g res) s1 (case f (w_redis w1) of (res, c) \<Rightarrow> Done res (w1\<lparr>w_redis := c\<rparr>))"
    by (simp add: f)
qed

lemma relay_publish_follows:
  assumes "sync w s" "n \<in> R" "y_relay s n = RPublish (m # ms)"
  shows "follows step sync (\<lambda>res s'. y_relay s' n = (if isl res then RIdle else RAck m ms)) s
    (mq_publish sv (Exchange config) (relay_message (mEvent m)) w)"
proof (rule publish_follows [OF assms(1)])
  fix s1 c env res c' b'
  assume o: "own_same R C s s1" and c: "clean c" "c_config c = config"
    and p: "Publish (sv_decl sv) (sv_pub sv) env (Exchange config) (relay_message (mEvent m)) c (y_broker s1) = Some (res, c', b')"
  let ?s2 = "s1\<lparr>y_broker := b', y_relay := (y_relay s1)(n := (if isl res then RIdle else RAck m ms))\<rparr>"
  have "y_relay s1 n = RPublish (m # ms)" using o assms(2,3) by (simp add: own_same_def)
  then have "step s1 ?s2" by (rule pipe_step.relay_publish [OF _ c p])
  moreover have "idle (Suc (w_calls w)) ?s2"
    using idle_later [of "w_calls w" s "Suc (w_calls w)" ?s2] assms(1) o by (simp add: sync_def own_same_def)
  moreover have "rest_of R C ?s2 = rest_of R C s1"
    using rest_of_own(1) [OF assms(2), of C "s1\<lparr>y_broker := b'\<rparr>"] by simp
  ultimately show "\<exists>s2. step s1 s2 \<and> y_redis s2 = y_redis s1 \<and> y_broker s2 = b' \<and> y_tables s2 = y_tables s1 \<and>
      rest_of R C s2 = rest_of R C s1 \<and> idle (Suc (w_calls w)) s2 \<and> y_relay s2 n = (if isl res then RIdle else RAck m ms)"
    by (intro exI [of _ ?s2]) simp
qed

text \<open>A relay that is left publishing nothing goes idle.\<close>

lemma relay_done:
  assumes "sync w s" "n \<in> R"
  shows "follows step sync (\<lambda>x s'. y_relay s' n = RIdle) s (Done x w)"
proof -
  let ?s1 = "s\<lparr>y_relay := (y_relay s)(n := RIdle)\<rparr>"
  have 1: "step s ?s1" by (rule pipe_step.relay_stop)
  have "sync w ?s1" using assms idle_later [of "w_calls w" s "w_calls w" ?s1] by (simp add: sync_def in_step_def)
  then show ?thesis by (rule follows_own [OF 1]) simp
qed

lemma idle_done:
  "sync w s \<Longrightarrow> y_relay s n = RIdle \<Longrightarrow> follows step sync (\<lambda>_ s'. y_relay s' n = RIdle) s (Done x w)"
  by (rule follows_Done)

lemma publishVoteMessages_follows:
  assumes "sync w s" "n \<in> R" "y_relay s n = RPublish ms"
  shows "follows step sync (\<lambda>_ s'. y_relay s' n = RIdle) s (publishVoteMessages sv config ms w)"
  using assms
proof (induction ms arbitrary: w s)
  case Nil
  then show ?case by (simp add: relay_done)
next
  case (Cons m ms)
  show ?case unfolding publishVoteMessages.simps
  proof (rule follows_then [OF relay_publish_follows [OF Cons.prems]])
    fix res w1 s1 assume 1: "sync w1 s1" "y_relay s1 n = (if isl res then RIdle else RAck m ms)"
    show "follows step sync (\<lambda>_ s'. y_relay s' n = RIdle) s1
        (if isl res then waitForRetry w1
         else then_run (on_redis (AckVoteOutbox (sv_redis sv) (mStreamID m)) w1) (\<lambda>acked w2.
           if isl acked then waitForRetry w2 else publishVoteMessages sv config ms w2))"
    proof (cases "isl res")
      case True
      with 1 show ?thesis by (simp add: ctx_follows)
    next
      case False
      have "follows step sync (\<lambda>acked s'. y_relay s' n = (if isl acked then RIdle else RPublish ms)) s1
          (on_redis (AckVoteOutbox (sv_redis sv) (mStreamID m)) w1)"
      proof (rule redis_follows [OF 1(1) Cons.prems(2)])
        fix s2 :: "('r, 'b) sys" and fs acked c
        assume "y_relay s2 n = y_relay s1 n" and ack: "AckVoteOutbox (sv_redis sv) (mStreamID m) \<lparr>srv = y_redis s2, fates = fs\<rparr> = (acked, c)"
        then have "y_relay s2 n = RAck m ms" using 1(2) False by simp
        then show "step s2 (s2\<lparr>y_redis := srv c, y_relay := (y_relay s2)(n := (if isl acked then RIdle else RPublish ms))\<rparr>)"
          by (rule pipe_step.relay_ack [OF _ ack])
      qed
      then show ?thesis
        using False Cons.IH Cons.prems(2) by (auto intro!: follows_then ctx_follows split: if_splits)
    qed
  qed
qed

lemma read_follows:
  assumes "sync w s" "n \<in> R" "y_relay s n = RIdle"
  shows "follows step sync (\<lambda>res s'. y_relay s' n = after_read res) s (on_redis (ReadVoteOutbox (sv_redis sv) n start cnt) w)"
    and "follows step sync (\<lambda>res s'. y_relay s' n = after_read res) s (on_redis (ClaimStaleVoteOutbox (sv_redis sv) n age cnt) w)"
    and "follows step sync (\<lambda>res s'. y_relay s' n = RIdle) s (on_redis (EnsureVoteOutboxGroup (sv_redis sv)) w)"
proof -
  show "follows step sync (\<lambda>res s'. y_relay s' n = after_read res) s (on_redis (ReadVoteOutbox (sv_redis sv) n start cnt) w)"
    by (rule redis_follows [OF assms(1,2)]) (use assms(3) in \<open>auto intro: pipe_step.relay_read\<close>)
  show "follows step sync (\<lambda>res s'. y_relay s' n = after_read res) s (on_redis (ClaimStaleVoteOutbox (sv_redis sv) n age cnt) w)"
    by (rule redis_follows [OF assms(1,2)]) (use assms(3) in \<open>auto intro: pipe_step.relay_claim\<close>)
  have "step s1 (s1\<lparr>y_redis := srv c, y_relay := (y_relay s1)(n := RIdle)\<rparr>)"
    if "y_relay s1 n = RIdle" "EnsureVoteOutboxGroup (sv_redis sv) \<lparr>srv = y_redis s1, fates = fs\<rparr> = (res, c)" for s1 fs res c
  proof -
    have "(y_relay s1)(n := RIdle) = y_relay s1" using that(1) by auto
    with pipe_step.relay_ensure [OF that(2)] show ?thesis by simp
  qed
  then show "follows step sync (\<lambda>res s'. y_relay s' n = RIdle) s (on_redis (EnsureVoteOutboxGroup (sv_redis sv)) w)"
    using assms by (intro redis_follows) auto
qed

lemma relayVoteMessages_follows:
  assumes "sync w s" "n \<in> R" "y_relay s n = RIdle"
  shows "follows step sync (\<lambda>_ s'. y_relay s' n = RIdle) s (relayVoteMessages sv config k n start w)"
  using assms
proof (induction k arbitrary: w s)
  case 0
  then show ?case by (simp add: follows_Cut)
next
  case (Suc k)
  show ?case unfolding relayVoteMessages.simps
  proof (rule follows_then [OF read_follows(1) [OF Suc.prems]])
    fix res w1 s1 assume 1: "sync w1 s1" "y_relay s1 n = after_read res"
    show "follows step sync (\<lambda>_ s'. y_relay s' n = RIdle) s1 (case res of Inl _ \<Rightarrow> waitForRetry w1
       | Inr messages \<Rightarrow>
           if messages = [] then Done True w1
           else then_run (publishVoteMessages sv config messages w1) (\<lambda>ok w2.
             if \<not> ok then Done False w2
             else if start = NewEntries then Done True w2
             else relayVoteMessages sv config k n start w2))"
    proof (cases res)
      case (Inl e)
      with 1 show ?thesis by (simp add: ctx_follows after_read_def)
    next
      case (Inr ms)
      have pub: "follows step sync (\<lambda>_ s'. y_relay s' n = RIdle) s1 (publishVoteMessages sv config ms w1)"
        by (rule publishVoteMessages_follows [OF 1(1) Suc.prems(2)]) (simp add: 1(2) Inr after_read_def)
      show ?thesis
        using Inr 1(1) pub Suc.IH Suc.prems(2) relay_done [OF 1(1) Suc.prems(2)]
        by (auto intro!: follows_then [OF pub] simp: idle_done)
    qed
  qed
qed

lemma relay_round_follows:
  assumes "sync w s" "n \<in> R" "y_relay s n = RIdle"
  shows "follows step sync (\<lambda>_ s'. y_relay s' n = RIdle) s (relay_round sv config k n w)"
  unfolding relay_round_def
proof (rule follows_then [OF read_follows(3) [OF assms]])
  fix ensured w1 s1 assume 1: "sync w1 s1" "y_relay s1 n = RIdle"
  have rest: "follows step sync (\<lambda>_ s'. y_relay s' n = RIdle) s2
      (case claim of Inl _ \<Rightarrow> waitForRetry w2
       | Inr claimed \<Rightarrow>
           then_run (publishVoteMessages sv config claimed w2) (\<lambda>ok w3.
             if \<not> ok then Done False w3
             else then_run (relayVoteMessages sv config k n (PendingFrom (StreamID 0 0)) w3) (\<lambda>ok w4.
               if \<not> ok then Done False w4
               else relayVoteMessages sv config k n NewEntries w4)))"
    if 2: "sync w2 s2" "y_relay s2 n = after_read claim" for claim w2 s2
  proof (cases claim)
    case (Inl e)
    with 2 show ?thesis by (simp add: ctx_follows after_read_def)
  next
    case (Inr ms)
    have pub: "follows step sync (\<lambda>_ s'. y_relay s' n = RIdle) s2 (publishVoteMessages sv config ms w2)"
      by (rule publishVoteMessages_follows [OF 2(1) assms(2)]) (simp add: 2(2) Inr after_read_def)
    have more: "follows step sync (\<lambda>_ s'. y_relay s' n = RIdle) s3
        (if \<not> ok then Done False w3
         else then_run (relayVoteMessages sv config k n (PendingFrom (StreamID 0 0)) w3) (\<lambda>ok w4.
           if \<not> ok then Done False w4
           else relayVoteMessages sv config k n NewEntries w4))" if "sync w3 s3" "y_relay s3 n = RIdle" for ok w3 s3
      using that assms(2)
      by (auto simp: idle_done intro!: follows_then [OF relayVoteMessages_follows [OF that(1) assms(2) that(2)]] relayVoteMessages_follows)
    show ?thesis using follows_then [OF pub more] Inr by simp
  qed
  show "follows step sync (\<lambda>_ s'. y_relay s' n = RIdle) s1
     (if isl ensured then waitForRetry w1
       else then_run (on_redis (ClaimStaleVoteOutbox (sv_redis sv) n staleIdle 32) w1) (\<lambda>claim w2.
         case claim of
           Inl _ \<Rightarrow> waitForRetry w2
         | Inr claimed \<Rightarrow>
             then_run (publishVoteMessages sv config claimed w2) (\<lambda>ok w3.
               if \<not> ok then Done False w3
               else then_run (relayVoteMessages sv config k n (PendingFrom (StreamID 0 0)) w3) (\<lambda>ok w4.
                 if \<not> ok then Done False w4
                 else relayVoteMessages sv config k n NewEntries w4))))"
    using 1 follows_then [OF read_follows(2) [OF 1(1) assms(2) 1(2)] rest] by (simp add: ctx_follows)
qed

lemma RunVoteRelay_follows:
  assumes "sync w s" "n \<in> R" "y_relay s n = RIdle"
  shows "follows step sync (\<lambda>_ s'. y_relay s' n = RIdle) s (RunVoteRelay sv config k rounds n w)"
  using assms
proof (induction rounds arbitrary: w s)
  case 0
  then show ?case by (simp add: follows_Cut)
next
  case (Suc rounds)
  show ?case unfolding RunVoteRelay.simps
  proof (rule follows_then [OF ctx_follows(1) [OF Suc.prems(1)]])
    fix alive w1 s1 assume 1: "sync w1 s1" "y_relay s1 n = RIdle"
    show "follows step sync (\<lambda>_ s'. y_relay s' n = RIdle) s1 (if \<not> alive then Done () w1
       else then_run (relay_round sv config k n w1) (\<lambda>ok w2.
         if \<not> ok then Done () w2 else RunVoteRelay sv config k rounds n w2))"
      using 1 Suc.IH Suc.prems(2) relay_round_follows [OF 1(1) Suc.prems(2) 1(2), of k]
      by (auto intro!: follows_then simp: idle_done)
  qed (use Suc.prems(3) in simp)
qed

end

end
