(* ===== verification/VotePath.thy ===== *)
theory VotePath
  imports PipelineSim
begin

text \<open>
  The theorems about the path of a vote as a whole: from the empty system every reachable state keeps
  every vote, the drained system agrees, and the workers' code stays within it.
\<close>

section \<open>Start and end\<close>

definition pipe_start ::
    "RabbitMQConfig \<Rightarrow> ('r \<Rightarrow> keyspace) \<Rightarrow> ('b \<Rightarrow> topology) \<Rightarrow> ('b \<Rightarrow> string \<Rightarrow> message list) \<Rightarrow> ('r, 'b) sys \<Rightarrow> bool" where
  "pipe_start config db topo queue s \<longleftrightarrow>
     vote_wf (db (y_redis s)) \<and>
     (\<forall>u p. version_of (db (y_redis s)) p u = 0 \<and> direction_of (db (y_redis s)) p u = 0) \<and>
     outbox (db (y_redis s)) = [] \<and> topo_ok config (topo (y_broker s)) \<and> (\<forall>q. queue (y_broker s) q = []) \<and>
     y_tables s = empty_tables \<and> y_log s = [] \<and> (\<forall>n. y_relay s n = RIdle) \<and> (\<forall>n. y_consumer s n = CIdle)"

definition drained ::
    "RabbitMQConfig \<Rightarrow> ('r \<Rightarrow> keyspace) \<Rightarrow> ('b \<Rightarrow> string \<Rightarrow> message list) \<Rightarrow> ('r, 'b) sys \<Rightarrow> bool" where
  "drained config db queue s \<longleftrightarrow>
     outbox (db (y_redis s)) = [] \<and> (\<forall>q\<in>{VoteQueue config, RetryQueue, DeadQueue}. queue (y_broker s) q = []) \<and>
     (\<forall>n. y_consumer s n = CIdle)"

context pipeline
begin

lemma inv_start:
  assumes "pipe_start config db topo queue s"
  shows "inv s"
proof -
  note S = assms [unfolded pipe_start_def]
  from S obtain st where "stream_at (db (y_redis s)) outbox_key = Some st" by (auto simp: vote_wf_def)
  with S have "outbox_ok (db (y_redis s)) []" by (simp add: outbox_ok_def outbox_def)
  moreover have "tables_ok (sv_mysql sv) [] empty_tables"
    using tables_hold_empty [of "sv_mysql sv" "{}"] by (simp add: tables_ok_def empty_tables_def)
  moreover have "log_ok (db (y_redis s)) []" using S by (simp add: log_ok_def)
  ultimately show ?thesis using S by (simp add: pipe_inv_def)
qed

lemma newest_in_log:
  assumes log: "log_ok ks log"
  shows "is_newest (set log) (u, p)
     (if version_of ks (FormatInt p) (FormatInt u) = 0 then None
      else Some (version_of ks (FormatInt p) (FormatInt u), direction_of ks (FormatInt p) (FormatInt u)))"
proof -
  note l = log [unfolded log_ok_def]
  let ?v = "version_of ks (FormatInt p) (FormatInt u)" and ?d = "direction_of ks (FormatInt p) (FormatInt u)"
  have key: "event_key e = (u, p) \<longleftrightarrow> UserID e = FormatInt u \<and> PostID e = FormatInt p" if "e \<in> set log" for e
  proof -
    have "logged e" using l that by blast
    from logged_event_ok(3,4) [OF this] show ?thesis unfolding event_key_def by (metis FormatInt_inj prod.inject)
  qed
  have le: "0 < Version e \<and> Version e \<le> ?v" if "e \<in> set log" "event_key e = (u, p)" for e
  proof -
    have "logged e" "Version e \<le> version_of ks (PostID e) (UserID e)" using l that(1) by blast+
    with key [OF that(1)] that(2) show ?thesis by (auto simp: logged_def)
  qed
  show ?thesis
  proof (cases "?v = 0")
    case True
    then show ?thesis using le by (fastforce simp: is_newest_def)
  next
    case False
    with l obtain e where e: "e \<in> set log" "UserID e = FormatInt u" "PostID e = FormatInt p" "Version e = ?v" "Direction e = ?d"
      by (metis (no_types, lifting))
    with key [OF e(1)] le False show ?thesis by (auto simp: is_newest_def)
  qed
qed

lemma inv_drained:
  assumes inv: "inv s" and d: "drained config db queue s"
  shows "vote_view (y_tables s) (u, p) =
     (if version_of (db (y_redis s)) (FormatInt p) (FormatInt u) = 0 then None
      else Some (version_of (db (y_redis s)) (FormatInt p) (FormatInt u), direction_of (db (y_redis s)) (FormatInt p) (FormatInt u)))"
proof -
  have log: "log_ok (db (y_redis s)) (y_log s)" and tab: "tables_ok (sv_mysql sv) (y_log s) (y_tables s)"
    and cov: "\<forall>e\<in>set (y_log s). waits (db (y_redis s)) e \<or> down s e"
    using inv by (simp_all add: pipe_inv_def)
  have "\<not> waits (db (y_redis s)) e" for e using d by (auto simp: waits_def drained_def outbox_def)
  moreover have "places config queue s = {}" using d by (simp add: places_def drained_def)
  ultimately have "{e \<in> set (y_log s). is_consumed (sv_mysql sv) (EventID e) (y_tables s)} = set (y_log s)"
    using cov by (auto simp: downstream_def)
  with tab have "tables_hold (sv_mysql sv) (set (y_log s)) (set (y_log s)) (y_tables s)" by (simp add: tables_ok_def)
  from is_newest_unique [OF consistent_log [OF log] subset_refl tables_hold_view [OF this] newest_in_log [OF log]]
  show ?thesis .
qed

end

section \<open>A run to apply the theorems to\<close>

text \<open>
  Post 7 of \<open>demo_ks\<close> gets an up-vote of user 5; one run of a relay moves the event to the broker,
  one delivery stores it. The lemmas follow the commands; the keyspace \<open>K\<close> around the outbox and
  the entry's identifier \<open>i\<close> do not matter.
\<close>

definition demo_sv :: "(keyspace, ref_broker) services" where
  "demo_sv = \<lparr>sv_redis = ref_call, sv_decl = rb_decl, sv_pub = rb_pub, sv_ack = \<lambda>q m b. (True, b),
     sv_mysql = ref_mysql, sv_error_text = \<lambda>_. ''error''\<rparr>"

lemma demo_sv_sel [simp]:
  "sv_redis demo_sv = ref_call" "sv_decl demo_sv = rb_decl" "sv_pub demo_sv = rb_pub"
  "sv_ack demo_sv = (\<lambda>q m b. (True, b))" "sv_mysql demo_sv = ref_mysql"
  by (simp_all add: demo_sv_def)

interpretation demo: pipeline demo_sv "\<lambda>ks. ks" ref_nid rb_topo rb_queue demo_config
  unfolding demo_sv_sel pipeline_def pipeline_axioms_def
  by (simp add: ref.redis_server_axioms rb_acks.amqp_acks_axioms refsql.mysql_server_axioms)
     (simp add: demo_config_def RetryQueue_def DeadQueue_def)

definition demo_sys :: "(keyspace, ref_broker) sys" where
  "demo_sys = \<lparr>y_redis = demo_ks, y_broker = snd demo_client, y_tables = empty_tables, y_log = [],
     y_relay = \<lambda>_. RIdle, y_consumer = \<lambda>_. CIdle\<rparr>"

lemma demo_client_run:
  "fst demo_client = Some \<lparr>c_config = demo_config, c_conn = ConnOpen, c_publisher = None\<rparr>"
  "rb_queue (snd demo_client) = (\<lambda>_. [])" "topo_ok demo_config (rb_topo (snd demo_client))"
  "routes (rb_topo (snd demo_client)) (Exchange demo_config) VoteChangedEventType = {VoteQueue demo_config}"
  by (simp_all add: demo_client_def New_def connectLocked_def good_env_def declareTopology_def topology_ops_def
      rb_decl_def routes_def topo_ok_def empty_broker_def demo_config_def RetryExchange_def DeadExchange_def)

lemma demo_start: "pipe_start demo_config (\<lambda>ks. ks) rb_topo rb_queue demo_sys"
  by (simp add: pipe_start_def demo_sys_def demo_vote_wf demo_client_run direction_of_def zscore_def outbox_def empty_stream_def)

lemma demo_ids: "FormatInt 7 = ''7''"
  by code_simp

definition trace_event :: VoteEvent where
  "trace_event = vote_event (FormatInt 5) (FormatInt 7) 1 (FormatInt 9) 1001 1"

definition trace_fields :: fields where
  "trace_fields = vote_event_fields (vote_argv (FormatInt 5) (FormatInt 7) 1 (FormatInt 9) 1001) 1 1"

lemma trace_fields_parse: "voteEventFromStream (message_values (Some trace_fields)) = Inr trace_event"
  unfolding trace_event_def trace_fields_def by (rule parse_vote_event) (simp_all add: int_range_def)

definition demo_outbox :: "stream_id \<Rightarrow> bool \<Rightarrow> sgroup option \<Rightarrow> rvalue" where
  "demo_outbox i full gr = VStream \<lparr>entries = (if full then [(i, trace_fields)] else []), last_id = i,
     groups = (case gr of None \<Rightarrow> Map.empty | Some g \<Rightarrow> [VoteOutboxGroup \<mapsto> g])\<rparr>"

lemma demo_voted:
  "\<exists>res c' K i. VoteForPost ref_call (FormatInt 5) (FormatInt 7) 1 (FormatInt 9) 1001 \<lparr>srv = demo_ks, fates = []\<rparr> = (res, c') \<and>
     srv c' = K(outbox_key \<mapsto> demo_outbox i True None) \<and> StreamID 0 0 < i \<and>
     version_of (srv c') (FormatInt 7) (FormatInt 5) = 1 \<and> direction_of (srv c') (FormatInt 7) (FormatInt 5) = 1 \<and>
     finite (dom (srv c'))"
proof -
  let ?c = "\<lparr>srv = demo_ks, fates = []\<rparr>"
  let ?r = "VoteForPost ref_call (FormatInt 5) (FormatInt 7) 1 (FormatInt 9) 1001 ?c"
  have d0: "direction_of demo_ks p u = 0" for p u by (simp add: direction_of_def zscore_def)
  have abs: "abs_vote (srv (snd ?r)) = snd (spec_vote (FormatInt 5) (FormatInt 7) 1 (FormatInt 9) 1001 (abs_vote demo_ks))"
    using ref.VoteForPost_no_fault(2) [of ?c "FormatInt 7" "FormatInt 5" 1 "FormatInt 9" 1001]
    by (simp add: demo_vote_wf int_range_def)
  then have out: "outbox (srv (snd ?r)) = [trace_fields]" and v: "version_of (srv (snd ?r)) (FormatInt 7) (FormatInt 5) = 1"
    and d: "direction_of (srv (snd ?r)) (FormatInt 7) (FormatInt 5) = 1"
    by (simp_all add: abs_vote_def spec_vote_def zscore_def demo_ids d0 oneWeekInSeconds_def Let_def trace_fields_def
        outbox_def empty_stream_def)
  have "srv (snd ?r) \<noteq> demo_ks" using out by (auto simp: outbox_def empty_stream_def)
  with ref.VoteForPost_outcome(2) [of ?c "FormatInt 7" "FormatInt 5" 1 "FormatInt 9" 1001]
  have "applied demo_ks (srv (snd ?r)) (vote_argv (FormatInt 5) (FormatInt 7) 1 (FormatInt 9) 1001) 432 1 1"
    by (simp add: demo_vote_wf int_range_def d0 scorePerVote_def)
  then have "\<exists>K i. srv (snd ?r) = K(outbox_key \<mapsto> demo_outbox i True None) \<and> StreamID 0 0 < i \<and> finite (dom (srv (snd ?r)))"
  proof (rule appliedE)
    fix z2 z3 h s i
    let ?a = "vote_argv (FormatInt 5) (FormatInt 7) 1 (FormatInt 9) 1001"
    assume s: "stream_at demo_ks outbox_key = Some s" "last_id s < i"
      and ks: "srv (snd ?r) = (put_zset
                (put_zset demo_ks score_key (zs_add (arg_post ?a) (score_plus z2 (arg_post ?a) 432) z2))
                (voted_key (arg_post ?a))
                (if (1 :: int) = 0 then zs_rem (arg_user ?a) z3 else zs_add (arg_user ?a) 1 z3))
               (version_key (arg_post ?a) \<mapsto> VHash (h(arg_user ?a \<mapsto> FormatInt 1)),
                outbox_key \<mapsto> VStream (s\<lparr>entries := entries s @ [(i, vote_event_fields ?a 1 1)], last_id := i\<rparr>))"
    have "s = empty_stream" using s(1) by simp
    then have ent: "StreamID 0 0 < i"
      "VStream (s\<lparr>entries := entries s @ [(i, vote_event_fields ?a 1 1)], last_id := i\<rparr>) = demo_outbox i True None"
      using s(2) by (simp_all add: demo_outbox_def trace_fields_def empty_stream_def)
    moreover have "finite (dom (put_zset K k z))" if "finite (dom K)" for K k z
      by (rule finite_subset [of _ "insert k (dom K)"]) (use that in \<open>auto simp: put_zset_def split: if_splits\<close>)
    moreover have "finite (dom demo_ks)" by (simp add: demo_ks_def)
    ultimately have "finite (dom (srv (snd ?r)))" by (simp add: ks)
    with ks ent show ?thesis by metis
  qed
  then obtain K i where "srv (snd ?r) = K(outbox_key \<mapsto> demo_outbox i True None)" "StreamID 0 0 < i"
    "finite (dom (srv (snd ?r)))" by blast
  with v d show ?thesis by (metis prod.collapse)
qed

lemma demo_relay_commands:
  assumes "StreamID 0 0 < i"
  defines "g \<equiv> \<lparr>last_delivered = StreamID 0 0, pel = []\<rparr>"
    and "g1 \<equiv> \<lparr>last_delivered = i, pel = [(i, ''r'', 0)]\<rparr>" and "g2 \<equiv> \<lparr>last_delivered = i, pel = []\<rparr>"
  shows "EnsureVoteOutboxGroup ref_call \<lparr>srv = K(outbox_key \<mapsto> demo_outbox i True None), fates = []\<rparr> =
      (Inr (), \<lparr>srv = K(outbox_key \<mapsto> demo_outbox i True (Some g)), fates = []\<rparr>)"
    and "ClaimStaleVoteOutbox ref_call ''r'' n k \<lparr>srv = K(outbox_key \<mapsto> demo_outbox i True (Some g)), fates = []\<rparr> =
      (Inr [], \<lparr>srv = K(outbox_key \<mapsto> demo_outbox i True (Some g)), fates = []\<rparr>)"
    and "ReadVoteOutbox ref_call ''r'' (PendingFrom j) 32 \<lparr>srv = K(outbox_key \<mapsto> demo_outbox i True (Some g)), fates = []\<rparr> =
      (Inr [], \<lparr>srv = K(outbox_key \<mapsto> demo_outbox i True (Some g)), fates = []\<rparr>)"
    and "ReadVoteOutbox ref_call ''r'' NewEntries 32 \<lparr>srv = K(outbox_key \<mapsto> demo_outbox i True (Some g)), fates = []\<rparr> =
      (Inr [\<lparr>mStreamID = i, mEvent = trace_event\<rparr>], \<lparr>srv = K(outbox_key \<mapsto> demo_outbox i True (Some g1)), fates = []\<rparr>)"
    and "AckVoteOutbox ref_call i \<lparr>srv = K(outbox_key \<mapsto> demo_outbox i True (Some g1)), fates = []\<rparr> =
      (Inr (), \<lparr>srv = K(outbox_key \<mapsto> demo_outbox i False (Some g2)), fates = []\<rparr>)"
proof -
  note defs = g_def g1_def g2_def thenM_def exec_def ref_call_def lift_reply_def demo_outbox_def Let_def
  show "EnsureVoteOutboxGroup ref_call \<lparr>srv = K(outbox_key \<mapsto> demo_outbox i True None), fates = []\<rparr> =
      (Inr (), \<lparr>srv = K(outbox_key \<mapsto> demo_outbox i True (Some g)), fates = []\<rparr>)"
    by (simp add: EnsureVoteOutboxGroup_def defs on_stream_def stream_at_def put_group_def)
  show "ClaimStaleVoteOutbox ref_call ''r'' n k \<lparr>srv = K(outbox_key \<mapsto> demo_outbox i True (Some g)), fates = []\<rparr> =
      (Inr [], \<lparr>srv = K(outbox_key \<mapsto> demo_outbox i True (Some g)), fates = []\<rparr>)"
    by (simp add: ClaimStaleVoteOutbox_def defs on_group_def)
  show "ReadVoteOutbox ref_call ''r'' (PendingFrom j) 32 \<lparr>srv = K(outbox_key \<mapsto> demo_outbox i True (Some g)), fates = []\<rparr> =
      (Inr [], \<lparr>srv = K(outbox_key \<mapsto> demo_outbox i True (Some g)), fates = []\<rparr>)"
    by (simp add: ReadVoteOutbox_def defs on_group_def deliver_pending_def put_group_def)
  show "ReadVoteOutbox ref_call ''r'' NewEntries 32 \<lparr>srv = K(outbox_key \<mapsto> demo_outbox i True (Some g)), fates = []\<rparr> =
      (Inr [\<lparr>mStreamID = i, mEvent = trace_event\<rparr>], \<lparr>srv = K(outbox_key \<mapsto> demo_outbox i True (Some g1)), fates = []\<rparr>)"
    using assms(1) trace_fields_parse by (simp add: ReadVoteOutbox_def defs on_group_def deliver_new_def put_group_def)
  show "AckVoteOutbox ref_call i \<lparr>srv = K(outbox_key \<mapsto> demo_outbox i True (Some g1)), fates = []\<rparr> =
      (Inr (), \<lparr>srv = K(outbox_key \<mapsto> demo_outbox i False (Some g2)), fates = []\<rparr>)"
    by (simp add: AckVoteOutbox_def ack_script_def defs put_group_def)
qed

definition demo_broker :: "message list \<Rightarrow> ref_broker" where
  "demo_broker ms = (snd demo_client)\<lparr>rb_queue := (\<lambda>q. if q = VoteQueue demo_config then ms else [])\<rparr>"

lemma demo_timeout: "PublishConfirmTimeoutSeconds demo_config = 5"
  by (simp add: demo_config_def)

lemma demo_publish:
  "Publish rb_decl rb_pub good_env (Exchange demo_config) m \<lparr>c_config = demo_config, c_conn = ConnOpen, c_publisher = None\<rparr>
     (snd demo_client) =
   Some (Inr (), \<lparr>c_config = demo_config, c_conn = ConnOpen, c_publisher = Some fresh_channel\<rparr>, demo_broker [m])"
  using demo_client_run(2,4) demo_timeout
  by (simp add: Publish_def connectLocked_def publisherLocked_def good_env_def rb_pub_def fresh_channel_def arrive_def
      demo_broker_def cong: if_cong)

text \<open>The other instance of this run is a relay \<open>x\<close> that restarts again and again.\<close>

definition demo_others :: "nat \<Rightarrow> keyspace \<times> ref_broker \<times> vote_tables \<times> rest \<Rightarrow> keyspace \<times> ref_broker \<times> vote_tables \<times> rest" where
  "demo_others i = (\<lambda>(r, b, t, log, relays, cs). (r, b, t, log, relays(''x'' := RIdle), cs))"

lemma demo_others_step:
  assumes "''x'' \<notin> R"
  shows "others_step demo_sv demo_config (\<lambda>ks. ks) rb_topo rb_queue R C demo_others"
  unfolding others_step_def
proof (intro allI)
  fix i :: nat and s :: "(keyspace, ref_broker) sys"
  let ?s = "s\<lparr>y_relay := (y_relay s)(''x'' := RIdle)\<rparr>"
  have "pipe_step demo_sv demo_config (\<lambda>ks. ks) rb_topo rb_queue s ?s" by (rule pipe_step.relay_stop)
  moreover have "own_same R C s ?s" using assms by (auto simp: own_same_def)
  moreover have "demo_others i (y_redis s, y_broker s, y_tables s, rest_of R C s) = (y_redis ?s, y_broker ?s, y_tables ?s, rest_of R C ?s)"
    using assms by (auto simp: demo_others_def rest_of_def fun_eq_iff)
  ultimately show "\<exists>s'. (pipe_step demo_sv demo_config (\<lambda>ks. ks) rb_topo rb_queue)\<^sup>*\<^sup>* s s' \<and> own_same R C s s' \<and>
      demo_others i (y_redis s, y_broker s, y_tables s, rest_of R C s) = (y_redis s', y_broker s', y_tables s', rest_of R C s')"
    by blast
qed

interpretation demo_relay: worker demo_sv "\<lambda>ks. ks" ref_nid rb_topo rb_queue demo_config "{''r''}" "{}" demo_others "\<lambda>_ _. True"
  by unfold_locales (simp_all add: demo_others_step)

definition demo_world :: "(string \<Rightarrow> rvalue option) \<Rightarrow> stream_id \<Rightarrow> rest \<Rightarrow> (keyspace, ref_broker, rest) world" where
  "demo_world K i g = \<lparr>w_redis = \<lparr>srv = K(outbox_key \<mapsto> demo_outbox i True None), fates = []\<rparr>,
     w_client = \<lparr>c_config = demo_config, c_conn = ConnOpen, c_publisher = None\<rparr>,
     w_broker = snd demo_client, w_tables = empty_tables, w_rest = g, w_others = demo_others,
     w_net = \<lambda>_. \<lparr>n_mq = good_env, n_channel = True, n_qos = True, n_consume = True\<rparr>, w_sql = \<lambda>_. (no_faults, 1002),
     w_calls = 0, w_stop = 100, w_ctx = \<lambda>k. k = 0, w_looks = 0\<rparr>"

lemma demo_relay_run:
  assumes "StreamID 0 0 < i"
  shows "\<exists>w'. RunVoteRelay demo_sv demo_config 2 2 ''r'' (demo_world K i g) = Done () w' \<and>
    srv (w_redis w') = K(outbox_key \<mapsto> demo_outbox i False (Some \<lparr>last_delivered = i, pel = []\<rparr>)) \<and>
    w_broker w' = demo_broker [relay_message trace_event] \<and> w_tables w' = empty_tables \<and>
    fst (w_rest w') = fst g \<and> snd (snd (w_rest w')) = snd (snd g)"
  using demo_relay_commands [OF assms] demo_publish [of "relay_message trace_event"]
  by (cases g) (simp add: numeral_2_eq_2 demo_world_def ctx_alive_def relay_round_def on_redis_def mq_publish_def
    then_run_def call_run_def interfere_def demo_others_def)

definition demo_vote :: post_vote_row where
  "demo_vote = \<lparr>pv_user = 5, pv_post = 7, pv_direction = 1, pv_version = 1, pv_last_event_id = FormatInt 9, pv_updated_at = 1002\<rparr>"

lemma demo_persist:
  "\<exists>st t. PersistVoteEvent ref_mysql no_faults 1002 trace_event empty_tables = (Inr st, t) \<and> post_vote t = [demo_vote]"
  "validateVoteEvent trace_event = Inr ()"
proof -
  show "\<exists>st t. PersistVoteEvent ref_mysql no_faults 1002 trace_event empty_tables = (Inr st, t) \<and> post_vote t = [demo_vote]"
    by (simp add: demo_vote_def PersistVoteEvent_eq no_faults_def commit_def empty_tables_def is_consumed_def event_row_def upsert_vote_def
        check_constraints_def find_vote_def trace_event_def ref_mysql_def ParseInt_FormatInt int_range_def Let_def)
  have "length (FormatInt 9) \<le> 64" by code_simp
  then show "validateVoteEvent trace_event = Inr ()"
    by (simp add: validateVoteEvent_def trace_event_def ParseInt_FormatInt int_range_def)
qed

lemma demo_store:
  "\<exists>t. decide demo_sv demo_config no_faults 1002 (relay_message trace_event) empty_tables = (CSettle (relay_message trace_event), t) \<and>
     post_vote t = [demo_vote]"
  using demo_persist by (auto simp: decide_def relay_message_def)

abbreviation demo_steps :: "(keyspace, ref_broker) sys \<Rightarrow> (keyspace, ref_broker) sys \<Rightarrow> bool" where
  "demo_steps \<equiv> (pipe_step demo_sv demo_config (\<lambda>ks. ks) rb_topo rb_queue)\<^sup>*\<^sup>*"

lemma demo_run:
  "\<exists>s. demo_steps demo_sys s \<and> drained demo_config (\<lambda>ks. ks) rb_queue s \<and>
     version_of (y_redis s) (FormatInt 7) (FormatInt 5) = 1 \<and> direction_of (y_redis s) (FormatInt 7) (FormatInt 5) = 1 \<and>
     y_log s = [trace_event] \<and> post_vote (y_tables s) = [demo_vote] \<and> finite (dom (y_redis s))"
proof -
  obtain res c' K i where vote: "VoteForPost ref_call (FormatInt 5) (FormatInt 7) 1 (FormatInt 9) 1001 \<lparr>srv = demo_ks, fates = []\<rparr> = (res, c')"
    and K: "srv c' = K(outbox_key \<mapsto> demo_outbox i True None)" "StreamID 0 0 < i"
    and v: "version_of (srv c') (FormatInt 7) (FormatInt 5) = 1" "direction_of (srv c') (FormatInt 7) (FormatInt 5) = 1"
    and fin: "finite (dom (srv c'))"
    using demo_voted by blast
  let ?log = "emitted (\<lambda>ks. ks) demo_ks (srv c') (vote_event (FormatInt 5) (FormatInt 7) 1 (FormatInt 9) 1001
      (version_of (srv c') (FormatInt 7) (FormatInt 5)))"
  let ?s1 = "demo_sys\<lparr>y_redis := srv c', y_log := y_log demo_sys @ ?log\<rparr>"
  have s1: "pipe_step demo_sv demo_config (\<lambda>ks. ks) rb_topo rb_queue demo_sys ?s1"
    using pipe_step.vote [of 9 demo_sys 5 7 1001 "\<lambda>ks. ks" demo_sv 1 "[]" res c' demo_config rb_topo rb_queue] vote
    by (simp add: demo_sys_def int_range_def)
  obtain w' where w': "RunVoteRelay demo_sv demo_config 2 2 ''r'' (demo_world K i (rest_of {''r''} {} ?s1)) = Done () w'"
    "srv (w_redis w') = K(outbox_key \<mapsto> demo_outbox i False (Some \<lparr>last_delivered = i, pel = []\<rparr>))"
    "w_broker w' = demo_broker [relay_message trace_event]" "w_tables w' = empty_tables"
    "fst (w_rest w') = y_log ?s1" "snd (snd (w_rest w')) = (\<lambda>_. CIdle)"
    using demo_relay_run [OF K(2), of K "rest_of {''r''} {} ?s1"] by (auto simp: rest_of_def demo_sys_def)
  have "demo_relay.sync (demo_world K i (rest_of {''r''} {} ?s1)) ?s1"
    using K(1) by (simp add: demo_relay.sync_def in_step_def demo_world_def demo_sys_def clean_def)
  from demo_relay.RunVoteRelay_follows [OF this, of "''r''" 2 2] w'(1)
  obtain s2 where s2: "demo_steps ?s1 s2" "demo_relay.sync w' s2"
    by (auto simp: follows_def demo_sys_def)
  let ?m = "relay_message trace_event"
  have b2: "y_broker s2 = demo_broker [?m]" using s2(2) w'(3) by (simp add: demo_relay.sync_def in_step_def)
  have q2: "rb_queue (y_broker s2) = (\<lambda>q. if q = VoteQueue demo_config then [?m] else [])"
    "y_redis s2 = K(outbox_key \<mapsto> demo_outbox i False (Some \<lparr>last_delivered = i, pel = []\<rparr>))"
    "y_tables s2 = empty_tables" "y_consumer s2 = (\<lambda>_. CIdle)" "y_log s2 = y_log ?s1"
    using s2(2) w'(2,4-6) by (simp_all add: b2 demo_relay.sync_def in_step_def demo_broker_def rest_of_def)
  let ?b3 = "y_broker s2\<lparr>rb_queue := (\<lambda>_. [])\<rparr>"
  let ?s3 = "s2\<lparr>y_broker := ?b3, y_consumer := (y_consumer s2)(''c'' := CGot ?m)\<rparr>"
  have s3: "pipe_step demo_sv demo_config (\<lambda>ks. ks) rb_topo rb_queue s2 ?s3"
    by (rule pipe_step.deliver [of _ _ _ _ "[]" _ "[]"]) (simp_all add: q2 fun_eq_iff)
  obtain t where d: "decide demo_sv demo_config no_faults 1002 ?m (y_tables ?s3) = (CSettle ?m, t)"
    and t: "post_vote t = [demo_vote]"
    using demo_store by (auto simp: q2(3))
  let ?s4 = "?s3\<lparr>y_tables := t, y_consumer := (y_consumer ?s3)(''c'' := CSettle ?m)\<rparr>"
  have s4: "pipe_step demo_sv demo_config (\<lambda>ks. ks) rb_topo rb_queue ?s3 ?s4"
    by (rule pipe_step.handle [OF _ d]) simp
  let ?s5 = "?s4\<lparr>y_broker := snd (sv_ack demo_sv (VoteQueue demo_config) ?m (y_broker ?s4)), y_consumer := (y_consumer ?s4)(''c'' := CIdle)\<rparr>"
  have s5: "pipe_step demo_sv demo_config (\<lambda>ks. ks) rb_topo rb_queue ?s4 ?s5"
    by (rule pipe_step.settle) simp
  have "demo_steps demo_sys s2" by (rule converse_rtranclp_into_rtranclp [OF s1 s2(1)])
  then have "demo_steps demo_sys ?s3" using s3 by (rule rtranclp.rtrancl_into_rtrancl)
  then have "demo_steps demo_sys ?s4" using s4 by (rule rtranclp.rtrancl_into_rtrancl)
  then have steps: "demo_steps demo_sys ?s5" using s5 by (rule rtranclp.rtrancl_into_rtrancl)
  have dr: "drained demo_config (\<lambda>ks. ks) rb_queue ?s5"
    by (simp add: drained_def q2 outbox_def stream_at_def demo_outbox_def)
  have vd: "version_of (y_redis ?s5) (FormatInt 7) (FormatInt 5) = 1" "direction_of (y_redis ?s5) (FormatInt 7) (FormatInt 5) = 1"
    using v unfolding K(1) by (simp_all add: q2 version_of_def direction_of_def hget_def zscore_def hash_at_def zset_at_def)
  have "outbox (srv c') = [trace_fields]" "outbox demo_ks = []"
    unfolding K(1) by (simp_all add: outbox_def stream_at_def demo_outbox_def demo_ks_def empty_stream_def)
  then have "y_log s2 = [trace_event]"
    using q2(5) v(1) by (simp add: demo_sys_def emitted_def trace_event_def)
  then have log: "y_log ?s5 = [trace_event]" by simp
  have "post_vote (y_tables ?s5) = [demo_vote]" "finite (dom (y_redis ?s5))"
    using t fin unfolding K(1) by (simp_all add: q2)
  with steps dr vd log show ?thesis by blast
qed

section \<open>The theorems\<close>

text \<open>
  C1: no vote is lost. Whatever the instances, the network, the broker and the database do, in every
  reachable state each event the vote script has emitted can still be parsed from the outbox, or is
  a message of the vote, retry or dead-letter queue, or in the hands of a consumer that has not
  settled it, or its identifier is in \<open>mq_consumed_message\<close>.
\<close>

theorem pipeline_loses_no_vote:
  assumes "pipeline sv db nid topo queue config" "pipe_start config db topo queue s0"
    and "(pipe_step sv config db topo queue)\<^sup>*\<^sup>* s0 s" "e \<in> set (y_log s)"
  shows "(\<exists>st i fs. stream_at (db (y_redis s)) outbox_key = Some st \<and> (i, fs) \<in> set (entries st) \<and>
        voteEventFromStream (message_values (Some fs)) = Inr e) \<or>
     (\<exists>q m. q \<in> {VoteQueue config, RetryQueue, DeadQueue} \<and> m \<in> set (queue (y_broker s) q) \<and> m_body m = JsonEvent e) \<or>
     (\<exists>n. JsonEvent e \<in> holding (y_consumer s n)) \<or>
     is_consumed (sv_mysql sv) (EventID e) (y_tables s)"
proof -
  have inv: "pipe_inv sv config db topo queue s"
    by (rule pipeline.inv_steps [OF assms(1,3) pipeline.inv_start [OF assms(1,2)]])
  then have "waits (db (y_redis s)) e \<or> downstream (sv_mysql sv) config queue s e"
    using assms(4) by (simp add: pipe_inv_def)
  then consider "waits (db (y_redis s)) e" | "JsonEvent e \<in> places config queue s"
    | "is_consumed (sv_mysql sv) (EventID e) (y_tables s)" unfolding downstream_def by blast
  then show ?thesis
  proof cases
    case 1
    then show ?thesis unfolding waits_def parsed_as_def by blast
  next
    case 2
    then show ?thesis by (cases rule: placesE) (metis, blast)
  next
    case 3
    then show ?thesis by blast
  qed
qed

theorem pipeline_loses_no_vote_witness:
  "\<exists>s :: (keyspace, ref_broker) sys. drained demo_config (\<lambda>ks. ks) rb_queue s \<and> y_log s = [trace_event] \<and>
     is_consumed ref_mysql (EventID trace_event) (y_tables s)"
proof -
  obtain s where s: "demo_steps demo_sys s" "drained demo_config (\<lambda>ks. ks) rb_queue s" "y_log s = [trace_event]"
    using demo_run by blast
  have "trace_event \<in> set (y_log s)" using s(3) by simp
  from pipeline_loses_no_vote [OF demo.pipeline_axioms demo_start s(1) this] s(2)
  have "is_consumed ref_mysql (EventID trace_event) (y_tables s)"
    by (auto simp: drained_def outbox_def)
  with s show ?thesis by blast
qed

text \<open>
  C2: MySQL converges to Redis. Once the outbox, the three queues and the consumers are empty, the
  row of any user and post in \<open>post_vote\<close> shows exactly the version and direction Redis has for
  them (the direction of a withdrawn vote is 0), and there is no row where nobody ever voted;
  whatever was lost, repeated, reordered, retried or delivered late before.
\<close>

theorem drained_pipeline_agrees:
  assumes "pipeline sv db nid topo queue config" "pipe_start config db topo queue s0"
    and "(pipe_step sv config db topo queue)\<^sup>*\<^sup>* s0 s" "drained config db queue s"
  shows "vote_view (y_tables s) (u, p) =
     (if version_of (db (y_redis s)) (FormatInt p) (FormatInt u) = 0 then None
      else Some (version_of (db (y_redis s)) (FormatInt p) (FormatInt u),
                 direction_of (db (y_redis s)) (FormatInt p) (FormatInt u)))"
  by (rule pipeline.inv_drained [OF assms(1) pipeline.inv_steps [OF assms(1,3) pipeline.inv_start [OF assms(1,2)]] assms(4)])

theorem drained_pipeline_agrees_witness:
  "\<exists>s :: (keyspace, ref_broker) sys. drained demo_config (\<lambda>ks. ks) rb_queue s \<and> vote_view (y_tables s) (5, 7) = Some (1, 1)"
proof -
  obtain s where s: "demo_steps demo_sys s" "drained demo_config (\<lambda>ks. ks) rb_queue s"
    "version_of (y_redis s) (FormatInt 7) (FormatInt 5) = 1" "direction_of (y_redis s) (FormatInt 7) (FormatInt 5) = 1"
    using demo_run by blast
  have "vote_view (y_tables s) (5, 7) = Some (1, 1)"
    using drained_pipeline_agrees [OF demo.pipeline_axioms demo_start s(1,2), of 5 7] s(3,4) by simp
  with s(2) show ?thesis by blast
qed

text \<open>
  C12: the relay's code takes only the pipeline's steps. Take any run of \<open>RunVoteRelay\<close> that begins with an
  idle relay in any state, with any faults of Redis and of the broker, and with all other instances (votes,
  other relays, consumers, the broker) taking any steps before each of its calls; watch it to its end or up to
  any call. There the pipeline has got, by steps, to a state with the Redis, the broker and the tables of the
  run, and with the others where the run left them; and when the run has ended, the relay is idle again.
\<close>

theorem RunVoteRelay_takes_steps:
  assumes "pipeline sv db nid topo queue config" "others_step sv config db topo queue {n} {} others"
    and "in_step {n} {} config others w s" "y_relay s n = RIdle"
  shows "case RunVoteRelay sv config k rounds n w of
      Done _ w' \<Rightarrow> \<exists>s'. (pipe_step sv config db topo queue)\<^sup>*\<^sup>* s s' \<and> in_step {n} {} config others w' s' \<and> y_relay s' n = RIdle
    | Cut w' \<Rightarrow> \<exists>s'. (pipe_step sv config db topo queue)\<^sup>*\<^sup>* s s' \<and> in_step {n} {} config others w' s'"
proof -
  have w: "worker sv db nid topo queue config {n} {} others (\<lambda>_ _. True)"
    by (intro worker.intro worker_axioms.intro assms(1,2)) simp
  have "worker.sync config {n} {} others (\<lambda>_ _. True) w s" using assms(3) by (simp add: worker.sync_def [OF w])
  from worker.RunVoteRelay_follows [OF w this _ assms(4), of k rounds] show ?thesis
    by (fastforce simp: follows_def worker.sync_def [OF w] split: run.splits)
qed

theorem RunVoteRelay_takes_steps_witness:
  "\<exists>s' w'. RunVoteRelay demo_sv demo_config 2 2 ''r'' (demo_world Map.empty (StreamID 5 1) (rest_of {''r''} {} demo_sys)) = Done () w' \<and>
     demo_steps (demo_sys\<lparr>y_redis := [outbox_key \<mapsto> demo_outbox (StreamID 5 1) True None]\<rparr>) s' \<and>
     y_redis s' = srv (w_redis w') \<and> y_broker s' = w_broker w'"
proof -
  let ?w = "demo_world Map.empty (StreamID 5 1) (rest_of {''r''} {} demo_sys)"
  let ?s = "demo_sys\<lparr>y_redis := [outbox_key \<mapsto> demo_outbox (StreamID 5 1) True None]\<rparr>"
  obtain w' where w': "RunVoteRelay demo_sv demo_config 2 2 ''r'' ?w = Done () w'"
    using demo_relay_run [of "StreamID 5 1" Map.empty "rest_of {''r''} {} demo_sys"] by (auto simp: less_stream_id_def)
  have others: "others_step demo_sv demo_config (\<lambda>ks. ks) rb_topo rb_queue {''r''} {} demo_others"
    by (rule demo_others_step) simp
  have start: "in_step {''r''} {} demo_config demo_others ?w ?s"
    by (simp add: in_step_def demo_world_def demo_sys_def clean_def rest_of_def cong: if_cong)
  have idle: "y_relay ?s ''r'' = RIdle" by (simp add: demo_sys_def)
  from RunVoteRelay_takes_steps [OF demo.pipeline_axioms others start idle, of 2 2]
  obtain s' where "demo_steps ?s s'" "in_step {''r''} {} demo_config demo_others w' s'"
    unfolding w' run.case by blast
  with w' show ?thesis unfolding in_step_def by metis
qed

end
