(* ===== verification/Consumer.thy ===== *)
theory Consumer
  imports VotePath
begin

text \<open>
  The code of the consumer (\<open>RunVoteConsumer\<close> of \<open>worker/vote_consumer.go\<close> with \<open>ConsumeVote\<close> of
  \<open>mq/rabbitmq.go\<close>) takes only steps of the pipeline: receiving a delivery, storing its event, moving it
  and settling it, for one channel of deliveries after the other.
\<close>

lemma ConsumeVote_client:
  assumes "ConsumeVote decl env c b = (ok, c', b')" "clean c"
  shows "clean c'" "c_config c' = c_config c" "\<exists>ok' c1. connectLocked decl (n_mq env) c b = (ok', c1, b')"
proof -
  obtain ok1 c1 b1 where 1: "connectLocked decl (n_mq env) c b = (ok1, c1, b1)" by (metis surj_pair)
  have "clean c1 \<Longrightarrow> clean (Close c1)" by (auto simp: clean_def Close_def split: option.splits)
  then show "clean c'" "c_config c' = c_config c" "\<exists>ok' c1. connectLocked decl (n_mq env) c b = (ok', c1, b')"
    using assms 1 by (auto simp: ConsumeVote_def Close_def connectLocked_def clean_def split: if_splits prod.splits)
qed

text \<open>
  The delivery that call \<open>i\<close> receives is handled in the slot \<open>slot i\<close> of the pipeline's consumers; the
  slots of later calls are free.
\<close>

definition free_from :: "(nat \<Rightarrow> string) \<Rightarrow> nat \<Rightarrow> ('r, 'b) sys \<Rightarrow> bool" where
  "free_from slot i s \<longleftrightarrow> (\<forall>j\<ge>i. y_consumer s (slot j) = CIdle)"

locale consumer_run = worker sv db nid topo queue config "{}" "range slot" others "free_from slot"
  for sv :: "('r, 'b) services" and db :: "'r \<Rightarrow> keyspace" and nid :: "'r \<Rightarrow> string \<Rightarrow> stream_id"
    and topo :: "'b \<Rightarrow> topology" and queue :: "'b \<Rightarrow> string \<Rightarrow> message list" and config :: RabbitMQConfig
    and others :: "nat \<Rightarrow> 'r \<times> 'b \<times> vote_tables \<times> rest \<Rightarrow> 'r \<times> 'b \<times> vote_tables \<times> rest" and slot :: "nat \<Rightarrow> string" +
  fixes recv :: "string \<Rightarrow> nat \<Rightarrow> 'b \<Rightarrow> (message \<times> 'b) option"
  assumes slots_differ: "inj slot" and receives: "amqp_deliveries topo queue recv"
begin

abbreviation always :: "'x \<Rightarrow> ('r, 'b) sys \<Rightarrow> bool" where
  "always \<equiv> \<lambda>_ _. True"

lemma slot_eq [simp]: "slot i = slot j \<longleftrightarrow> i = j"
  using slots_differ by (simp add: inj_eq)

lemma busy_slot: "sync w s \<Longrightarrow> y_consumer s (slot i) \<noteq> CIdle \<Longrightarrow> i < w_calls w"
  by (auto simp: sync_def free_from_def not_less [symmetric])

text \<open>A step of the worker that puts the slot of an earlier call into another state.\<close>

lemma sync_slot:
  assumes "sync w s" "i < w_calls w" "w_others w' = w_others w" "w_calls w' = w_calls w" "w_rest w' = w_rest w"
    and "clean (w_client w')" "c_config (w_client w') = config"
    and "s' = s\<lparr>y_broker := w_broker w', y_tables := w_tables w', y_consumer := (y_consumer s)(slot i := pc)\<rparr>"
    and "w_redis w' = w_redis w"
  shows "sync w' s'"
proof -
  have "rest_of {} (range slot) s' = rest_of {} (range slot) s"
    by (auto simp: assms(8) rest_of_def fun_eq_iff)
  moreover have "free_from slot (w_calls w) s'"
    using assms(1,2,8) by (auto simp: sync_def free_from_def)
  ultimately show ?thesis using assms by (simp add: sync_def in_step_def)
qed

lemma own_slot: "own_same {} (range slot) s s' \<Longrightarrow> y_consumer s' (slot i) = y_consumer s (slot i)"
  by (simp add: own_same_def)

lemma ack_follows:
  assumes "sync w s" "y_consumer s (slot i) = CSettle m"
  shows "follows step sync always s (ackDelivery sv config m w)"
  unfolding ackDelivery_def
proof (rule call_follows [OF assms(1)])
  fix w1 s1 assume 1: "sync w1 s1" "own_same {} (range slot) s s1"
  let ?w2 = "w1\<lparr>w_broker := snd (sv_ack sv (VoteQueue config) m (w_broker w1))\<rparr>"
  let ?s2 = "s1\<lparr>y_broker := snd (sv_ack sv (VoteQueue config) m (y_broker s1)), y_consumer := (y_consumer s1)(slot i := CIdle)\<rparr>"
  have at: "y_consumer s1 (slot i) = CSettle m" using own_slot [OF 1(2)] assms(2) by simp
  have "sync ?w2 ?s2"
    by (rule sync_slot [OF 1(1) busy_slot [OF 1(1)]])
       (use 1(1) at in \<open>simp_all add: sync_def in_step_def\<close>)
  then show "follows step sync always s1 (Done () ?w2)" by (rule follows_own [OF pipe_step.settle [OF at]]) simp
qed

lemma move_follows:
  assumes "sync w s" "y_consumer s (slot i) = CMove m x m'"
  shows "follows step sync always s
    (then_run (mq_publish sv x m' w) (\<lambda>res w1. if isl res then Done () w1 else ackDelivery sv config m w1))"
proof (rule follows_then [where P = "\<lambda>res s'. y_consumer s' (slot i) = (if isl res then CNack m else CSettle m)"])
  show "follows step sync (\<lambda>res s'. y_consumer s' (slot i) = (if isl res then CNack m else CSettle m)) s (mq_publish sv x m' w)"
  proof (rule publish_follows [OF assms(1)])
    fix s1 c env res c' b'
    assume o: "own_same {} (range slot) s s1" and c: "clean c" "c_config c = config"
      and p: "Publish (sv_decl sv) (sv_pub sv) env x m' c (y_broker s1) = Some (res, c', b')"
    let ?s2 = "s1\<lparr>y_broker := b', y_consumer := (y_consumer s1)(slot i := (if isl res then CNack m else CSettle m))\<rparr>"
    have "y_consumer s1 (slot i) = CMove m x m'" using own_slot [OF o] assms(2) by simp
    then have "step s1 ?s2" by (rule pipe_step.move [OF _ c p])
    moreover have "i < w_calls w" by (rule busy_slot [OF assms(1)]) (simp add: assms(2))
    then have "free_from slot (Suc (w_calls w)) ?s2"
      using assms(1) own_slot [OF o] by (auto simp: sync_def free_from_def)
    moreover have "rest_of {} (range slot) ?s2 = rest_of {} (range slot) s1" by (auto simp: rest_of_def fun_eq_iff)
    ultimately show "\<exists>s2. step s1 s2 \<and> y_redis s2 = y_redis s1 \<and> y_broker s2 = b' \<and> y_tables s2 = y_tables s1 \<and>
        rest_of {} (range slot) s2 = rest_of {} (range slot) s1 \<and> free_from slot (Suc (w_calls w)) s2 \<and>
        y_consumer s2 (slot i) = (if isl res then CNack m else CSettle m)"
      by (intro exI [of _ ?s2]) simp
  qed
qed (auto simp: follows_Done intro: ack_follows)

text \<open>What the handler does with a delivery once it has decided.\<close>

lemma dead_follows:
  assumes "sync w s" "y_consumer s (slot i) = CMove m DeadExchange (dead_message sv m eid cause)"
  shows "follows step sync always s (moveToDeadLetter sv config m eid cause w)"
  using move_follows [OF assms] by (simp add: moveToDeadLetter_def dead_message_def Let_def)

lemma retry_follows:
  assumes "sync w s" "y_consumer s (slot i) = retry_or_dead sv config m eid cause"
  shows "follows step sync always s (retryVoteDelivery sv config m eid cause w)"
  using move_follows [OF assms(1)] dead_follows [OF assms(1)] assms(2)
  by (auto simp: retryVoteDelivery_def retry_or_dead_def Let_def split: if_splits)

lemma undecided_follows:
  assumes "sync w s" "y_consumer s (slot i) = CGot m"
    and "decide sv config no_faults 0 m (y_tables s) = (CMove m DeadExchange (dead_message sv m eid cause), y_tables s)"
  shows "follows step sync always s (moveToDeadLetter sv config m eid cause w)"
proof (rule follows_steps)
  let ?s1 = "s\<lparr>y_tables := y_tables s, y_consumer := (y_consumer s)(slot i := CMove m DeadExchange (dead_message sv m eid cause))\<rparr>"
  show "step\<^sup>*\<^sup>* s ?s1" using pipe_step.handle [OF assms(2,3)] by blast
  have "sync w ?s1"
    by (rule sync_slot [OF assms(1) busy_slot [OF assms(1)]])
       (use assms(1,2) in \<open>simp_all add: sync_def in_step_def\<close>)
  then show "follows step sync always ?s1 (moveToDeadLetter sv config m eid cause w)"
    by (rule dead_follows [where i = i]) simp
qed

lemma persist_follows:
  assumes "sync w s" "y_consumer s (slot i) = CGot m" "m_body m = JsonEvent event" "validateVoteEvent event = Inr ()"
  shows "follows step sync (\<lambda>res s'. y_consumer s' (slot i) =
      (case res of Inr _ \<Rightarrow> CSettle m
       | Inl err \<Rightarrow> if errors_is err ErrVoteEventConflict then CMove m DeadExchange (dead_message sv m (EventID event) err)
                    else retry_or_dead sv config m (EventID event) err)) s (persist_delivery sv event w)"
  unfolding persist_delivery_def
proof (rule call_follows [OF assms(1)])
  fix w1 s1 assume 1: "sync w1 s1" "own_same {} (range slot) s s1"
  have at: "y_consumer s1 (slot i) = CGot m" using own_slot [OF 1(2)] assms(2) by simp
  obtain flt now where f: "w_sql w1 (w_calls w) = (flt, now)" by fastforce
  obtain res t where p: "PersistVoteEvent (sv_mysql sv) flt now event (y_tables s1) = (res, t)" by fastforce
  let ?pc = "case res of Inr _ \<Rightarrow> CSettle m
     | Inl err \<Rightarrow> if errors_is err ErrVoteEventConflict then CMove m DeadExchange (dead_message sv m (EventID event) err)
                  else retry_or_dead sv config m (EventID event) err"
  let ?s2 = "s1\<lparr>y_tables := t, y_consumer := (y_consumer s1)(slot i := ?pc)\<rparr>"
  have "decide sv config flt now m (y_tables s1) = (?pc, t)"
    using assms(3,4) p by (simp add: decide_def split: sum.split)
  then have 2: "step s1 ?s2" by (rule pipe_step.handle [OF at])
  have "sync (w1\<lparr>w_tables := t\<rparr>) ?s2"
    by (rule sync_slot [OF 1(1) busy_slot [OF 1(1)]])
       (use 1(1) at in \<open>simp_all add: sync_def in_step_def\<close>)
  from follows_own [OF 2 this, of "\<lambda>res' s'. y_consumer s' (slot i) = (case res' of Inr _ \<Rightarrow> CSettle m
       | Inl err \<Rightarrow> if errors_is err ErrVoteEventConflict then CMove m DeadExchange (dead_message sv m (EventID event) err)
                    else retry_or_dead sv config m (EventID event) err)" res]
  show "follows step sync (\<lambda>res s'. y_consumer s' (slot i) =
      (case res of Inr _ \<Rightarrow> CSettle m
       | Inl err \<Rightarrow> if errors_is err ErrVoteEventConflict then CMove m DeadExchange (dead_message sv m (EventID event) err)
                    else retry_or_dead sv config m (EventID event) err)) s1
      (case w_sql w1 (w_calls w) of (flt, now) \<Rightarrow>
         (case PersistVoteEvent (sv_mysql sv) flt now event (w_tables w1) of (res, t) \<Rightarrow> Done res (w1\<lparr>w_tables := t\<rparr>)))"
    using 1(1) by (simp add: f p sync_def in_step_def)
qed

lemma handleVoteDelivery_follows:
  assumes "sync w s" "y_consumer s (slot i) = CGot m"
  shows "follows step sync always s (handleVoteDelivery sv config m w)"
proof (cases "m_body m")
  case (NotJson x)
  with undecided_follows [OF assms] show ?thesis by (simp add: handleVoteDelivery_def decide_def)
next
  case (JsonEvent event)
  show ?thesis
  proof (cases "validateVoteEvent event")
    case (Inl err)
    with undecided_follows [OF assms] JsonEvent show ?thesis by (simp add: handleVoteDelivery_def decide_def)
  next
    case (Inr u)
    then have "validateVoteEvent event = Inr ()" by simp
    note stored = persist_follows [OF assms JsonEvent this]
    show ?thesis
      unfolding handleVoteDelivery_def JsonEvent body.case Inr sum.case
      by (rule follows_then [OF stored])
         (auto split: sum.splits if_splits intro: ack_follows dead_follows retry_follows)
  qed
qed

lemma delivery_follows:
  assumes "sync w s"
  shows "follows step sync (\<lambda>got s'. \<forall>m. got = Some m \<longrightarrow> (\<exists>i. y_consumer s' (slot i) = CGot m)) s (next_delivery recv config w)"
  unfolding next_delivery_def
proof (rule call_follows [OF assms])
  fix w1 s1 assume 1: "sync w1 s1" "own_same {} (range slot) s s1" "w_calls w1 = Suc (w_calls w)"
  let ?i = "w_calls w"
  show "follows step sync (\<lambda>got s'. \<forall>m. got = Some m \<longrightarrow> (\<exists>i. y_consumer s' (slot i) = CGot m)) s1
      (case recv (VoteQueue config) ?i (w_broker w1) of
         None \<Rightarrow> Done None w1 | Some (delivery, b) \<Rightarrow> Done (Some delivery) (w1\<lparr>w_broker := b\<rparr>))"
  proof (cases "recv (VoteQueue config) ?i (w_broker w1)")
    case None
    with 1(1) show ?thesis by (simp add: follows_Done)
  next
    case (Some a)
    then obtain m b where a: "recv (VoteQueue config) ?i (y_broker s1) = Some (m, b)" "a = (m, b)"
      using 1(1) by (cases a) (simp add: sync_def in_step_def)
    from amqp_deliveries.recv_queue [OF receives a(1)] amqp_deliveries.recv_topo [OF receives a(1)]
    obtain xs ys where q: "queue (y_broker s1) (VoteQueue config) = xs @ m # ys"
      "queue b = (queue (y_broker s1))(VoteQueue config := xs @ ys)" "topo b = topo (y_broker s1)" by blast
    have free: "y_consumer s1 (slot ?i) = CIdle"
      using own_slot [OF 1(2), of ?i] assms by (simp add: sync_def free_from_def)
    let ?s2 = "s1\<lparr>y_broker := b, y_consumer := (y_consumer s1)(slot ?i := CGot m)\<rparr>"
    have 2: "step s1 ?s2" by (rule pipe_step.deliver [OF free q(1,3,2)])
    have "sync (w1\<lparr>w_broker := b\<rparr>) ?s2"
      by (rule sync_slot [OF 1(1), of ?i]) (use 1 in \<open>simp_all add: sync_def in_step_def\<close>)
    then have "follows step sync (\<lambda>got s'. \<forall>m. got = Some m \<longrightarrow> (\<exists>i. y_consumer s' (slot i) = CGot m)) s1 (Done (Some m) (w1\<lparr>w_broker := b\<rparr>))"
      by (rule follows_own [OF 2]) (auto intro!: exI [of _ ?i])
    with Some a(2) show ?thesis by simp
  qed
qed

lemma consume_vote_follows:
  assumes "sync w s"
  shows "follows step sync always s (consume_vote sv w)"
  unfolding consume_vote_def
proof (rule call_follows [OF assms])
  fix w1 s1 assume 1: "sync w1 s1"
  obtain ok c b where cv: "ConsumeVote (sv_decl sv) (w_net w1 (w_calls w)) (w_client w1) (w_broker w1) = (ok, c, b)"
    by (metis surj_pair)
  have "clean (w_client w1)" using 1 by (simp add: sync_def in_step_def)
  note cl = ConsumeVote_client [OF cv this]
  have "step s1 (s1\<lparr>y_broker := b\<rparr>)"
    using cl(3) 1 pipe_step.connect [of sv _ _ s1] by (auto simp: sync_def in_step_def)
  moreover have "sync (w1\<lparr>w_client := c, w_broker := b\<rparr>) (s1\<lparr>y_broker := b\<rparr>)"
    using 1 cl(1,2) by (simp add: sync_def in_step_def free_from_def)
  ultimately have "follows step sync always s1 (Done ok (w1\<lparr>w_client := c, w_broker := b\<rparr>))"
    by (rule follows_own) simp
  then show "follows step sync always s1
      (case ConsumeVote (sv_decl sv) (w_net w1 (w_calls w)) (w_client w1) (w_broker w1) of
         (ok, c, b) \<Rightarrow> Done ok (w1\<lparr>w_client := c, w_broker := b\<rparr>))" by (simp add: cv)
qed

lemma consume_deliveries_follows:
  assumes "sync w s"
  shows "follows step sync always s (consume_deliveries sv config recv n w)"
  using assms
proof (induction n arbitrary: w s)
  case (Suc n)
  show ?case unfolding consume_deliveries.simps
    by (rule follows_then [OF delivery_follows [OF Suc.prems]])
       (auto split: option.splits simp: follows_Done intro!: follows_then [where P = always] Suc.IH intro: handleVoteDelivery_follows)
qed (simp add: follows_Cut)

lemma RunVoteConsumer_follows:
  assumes "sync w s"
  shows "follows step sync always s (RunVoteConsumer sv config recv n k w)"
  using assms
proof (induction k arbitrary: w s)
  case (Suc k)
  have wait: "follows step sync always s1 (waitForRetry w1)" if "sync w1 s1" for w1 s1
    using that by (rule ctx_follows) simp
  have round: "follows step sync always s1 (if \<not> ok
         then then_run (waitForRetry w2) (\<lambda>again w3. if again then RunVoteConsumer sv config recv n k w3 else Done () w3)
         else then_run (consume_deliveries sv config recv n w2) (\<lambda>_ w3. RunVoteConsumer sv config recv n k w3))"
    if "sync w2 s1" for ok w2 s1
    using that follows_then [OF wait [OF that], where f = "\<lambda>again w3. if again then RunVoteConsumer sv config recv n k w3 else Done () w3"]
      follows_then [OF consume_deliveries_follows [OF that], where f = "\<lambda>_ w3. RunVoteConsumer sv config recv n k w3"] Suc.IH
    by (simp add: follows_Done)
  have first: "follows step sync always s (ctx_alive w)" by (rule ctx_follows [OF Suc.prems]) simp
  show ?case unfolding RunVoteConsumer.simps
    by (rule follows_then [OF first])
       (auto simp: follows_Done intro!: follows_then [OF consume_vote_follows] round)
qed (simp add: follows_Cut)

end

section \<open>A broker and a run to apply the theorem to\<close>

definition rb_recv :: "string \<Rightarrow> nat \<Rightarrow> ref_broker \<Rightarrow> (message \<times> ref_broker) option" where
  "rb_recv q n b = (case rb_queue b q of [] \<Rightarrow> None | m # ms \<Rightarrow> Some (m, b\<lparr>rb_queue := (rb_queue b)(q := ms)\<rparr>))"

interpretation rb_deliveries: amqp_deliveries rb_topo rb_queue rb_recv
proof
  fix q n b m b'
  assume "rb_recv q n b = Some (m, b')"
  then show "rb_topo b' = rb_topo b" "\<exists>xs ys. rb_queue b q = xs @ m # ys \<and> rb_queue b' = (rb_queue b)(q := xs @ ys)"
    by (auto simp: rb_recv_def split: list.splits) (metis append_Nil)
qed

definition demo_slot :: "nat \<Rightarrow> string" where
  "demo_slot i = replicate i CHR ''c''"

lemma inj_demo_slot: "inj demo_slot"
  by (rule injI) (metis demo_slot_def length_replicate)

interpretation demo_consumer: consumer_run demo_sv "\<lambda>ks. ks" ref_nid rb_topo rb_queue demo_config demo_others demo_slot rb_recv
  by unfold_locales (simp_all add: demo_others_step free_from_def inj_demo_slot)

definition demo_consumer_world :: "(keyspace, ref_broker, rest) world" where
  "demo_consumer_world = \<lparr>w_redis = \<lparr>srv = demo_ks, fates = []\<rparr>, w_client = the (fst demo_client),
     w_broker = demo_broker [relay_message trace_event], w_tables = empty_tables, w_rest = rest_of {} (range demo_slot) demo_sys,
     w_others = demo_others, w_net = \<lambda>_. \<lparr>n_mq = good_env, n_channel = True, n_qos = True, n_consume = True\<rparr>,
     w_sql = \<lambda>_. (no_faults, 1002), w_calls = 0, w_stop = 100, w_ctx = \<lambda>k. k = 0, w_looks = 0\<rparr>"

lemma demo_consumer_run:
  "\<exists>w'. RunVoteConsumer demo_sv demo_config rb_recv 2 2 demo_consumer_world = Done () w' \<and>
     rb_queue (w_broker w') (VoteQueue demo_config) = [] \<and> post_vote (w_tables w') = [demo_vote]"
proof -
  obtain st t where t: "PersistVoteEvent ref_mysql no_faults 1002 trace_event empty_tables = (Inr st, t)" "post_vote t = [demo_vote]"
    and v: "validateVoteEvent trace_event = Inr ()"
    using demo_persist by blast
  show ?thesis
    using t v demo_client_run
    by (simp add: numeral_2_eq_2 demo_consumer_world_def ctx_alive_def waitForRetry_def consume_vote_def ConsumeVote_def
      connectLocked_def next_delivery_def rb_recv_def demo_broker_def handleVoteDelivery_def relay_message_def
      persist_delivery_def ackDelivery_def then_run_def call_run_def interfere_def demo_others_def rest_of_def demo_sv_def)
qed

section \<open>The theorem\<close>

text \<open>
  C13: the consumer's code takes only the pipeline's steps. Take any run of \<open>RunVoteConsumer\<close>, with any number
  of channels and deliveries, whatever their bodies and headers, with any faults of the network, the broker and
  the database, and with all other instances (votes, relays, other consumers, the broker) taking any steps before
  each of its calls; watch it to its end or up to any call. There the pipeline has got, by steps, to a state with
  the Redis, the broker and the tables of the run, and with the others where the run left them.
\<close>

theorem RunVoteConsumer_takes_steps:
  assumes "pipeline sv db nid topo queue config" "amqp_deliveries topo queue recv" "inj slot"
    and "others_step sv config db topo queue {} (range slot) others"
    and "in_step {} (range slot) config others w s" "\<forall>i\<ge>w_calls w. y_consumer s (slot i) = CIdle"
  shows "\<exists>s'. (pipe_step sv config db topo queue)\<^sup>*\<^sup>* s s' \<and>
    in_step {} (range slot) config others (case RunVoteConsumer sv config recv n k w of Done _ w' \<Rightarrow> w' | Cut w' \<Rightarrow> w') s'"
proof -
  have c: "consumer_run sv db nid topo queue config others slot recv"
    by (intro consumer_run.intro worker.intro worker_axioms.intro consumer_run_axioms.intro assms(1-4))
       (auto simp: free_from_def)
  have "worker.sync config {} (range slot) others (free_from slot) w s"
    using assms(5,6) by (simp add: worker.sync_def [OF consumer_run.axioms(1) [OF c]] free_from_def)
  from consumer_run.RunVoteConsumer_follows [OF c this, of n k] show ?thesis
    by (auto simp: follows_def worker.sync_def [OF consumer_run.axioms(1) [OF c]] split: run.splits)
qed

theorem RunVoteConsumer_takes_steps_witness:
  "\<exists>s' w'. RunVoteConsumer demo_sv demo_config rb_recv 2 2 demo_consumer_world = Done () w' \<and>
     demo_steps (demo_sys\<lparr>y_broker := demo_broker [relay_message trace_event]\<rparr>) s' \<and>
     y_broker s' = w_broker w' \<and> post_vote (y_tables s') = [demo_vote]"
proof -
  let ?s = "demo_sys\<lparr>y_broker := demo_broker [relay_message trace_event]\<rparr>"
  obtain w' where w': "RunVoteConsumer demo_sv demo_config rb_recv 2 2 demo_consumer_world = Done () w'"
    "post_vote (w_tables w') = [demo_vote]"
    using demo_consumer_run by blast
  have others: "others_step demo_sv demo_config (\<lambda>ks. ks) rb_topo rb_queue {} (range demo_slot) demo_others"
    by (rule demo_others_step) simp
  have start: "in_step {} (range demo_slot) demo_config demo_others demo_consumer_world ?s"
    by (simp add: in_step_def demo_consumer_world_def demo_sys_def demo_client_run clean_def rest_of_def cong: if_cong)
  have free: "\<forall>i\<ge>w_calls demo_consumer_world. y_consumer ?s (demo_slot i) = CIdle" by (simp add: demo_sys_def)
  from RunVoteConsumer_takes_steps [OF demo.pipeline_axioms rb_deliveries.amqp_deliveries_axioms inj_demo_slot others start free,
      where n = 2 and k = 2]
  obtain s' where "demo_steps ?s s'" "in_step {} (range demo_slot) demo_config demo_others w' s'"
    unfolding w' run.case by blast
  with w' show ?thesis unfolding in_step_def by metis
qed

end
