(* ===== verification/Http.thy ===== *)
theory Http
  imports GoStd
begin

text \<open>
  The response codes and the response envelope of \<open>controller/code.go\<close> and \<open>response.go\<close>, and the
  part of gin's request context that the handlers and middlewares read (\<open>request.go\<close>). Strings
  are their UTF-8 bytes. A handler is a function to the responses it writes; a middleware either
  hands the context on or aborts with a response.
\<close>

section \<open>Response codes\<close>

definition utf8 :: "nat list \<Rightarrow> string" where
  "utf8 bs = map char_of bs"

text \<open>The number of characters of a UTF-8 string: its bytes that do not continue a sequence.\<close>

definition rune_count :: "string \<Rightarrow> nat" where
  "rune_count s = length (filter (\<lambda>c. \<not> (128 \<le> (of_char c :: nat) \<and> (of_char c :: nat) < 192)) s)"

type_synonym ResCode = int

definition CodeSuccess :: int where "CodeSuccess = 1000"
definition CodeInvalidParam :: int where "CodeInvalidParam = 1001"
definition CodeUserExist :: int where "CodeUserExist = 1002"
definition CodeUserNotExist :: int where "CodeUserNotExist = 1003"
definition CodeInvalidPassword :: int where "CodeInvalidPassword = 1004"
definition CodeServerBusy :: int where "CodeServerBusy = 1005"
definition CodeNeedLogin :: int where "CodeNeedLogin = 1006"
definition CodeValidToken :: int where "CodeValidToken = 1007"
definition CodeVoteExpired :: int where "CodeVoteExpired = 1008"
definition CodePostNotFound :: int where "CodePostNotFound = 1009"
definition CodeForbidden :: int where "CodeForbidden = 1010"
definition CodeAuthUnavailable :: int where "CodeAuthUnavailable = 1011"
definition CodeTooManyRequests :: int where "CodeTooManyRequests = 1012"

definition codeMsgMap :: "ResCode \<rightharpoonup> string" where
  "codeMsgMap = map_of
     [(CodeSuccess, ''success''),
      (CodeInvalidParam, utf8 [0xE8, 0xAF, 0xB7, 0xE6, 0xB1, 0x82, 0xE5, 0x8F, 0x82, 0xE6, 0x95, 0xB0, 0xE9, 0x94, 0x99, 0xE8, 0xAF, 0xAF]),
      (CodeUserExist, utf8 [0xE7, 0x94, 0xA8, 0xE6, 0x88, 0xB7, 0xE5, 0x90, 0x8D, 0xE5, 0xAD, 0x98, 0xE5, 0x9C, 0xA8]),
      (CodeUserNotExist, utf8 [0xE7, 0x94, 0xA8, 0xE6, 0x88, 0xB7, 0xE5, 0x90, 0x8D, 0xE4, 0xB8, 0x8D, 0xE5, 0xAD, 0x98, 0xE5, 0x9C, 0xA8]),
      (CodeInvalidPassword, utf8 [0xE7, 0x94, 0xA8, 0xE6, 0x88, 0xB7, 0xE5, 0x90, 0x8D, 0xE6, 0x88, 0x96, 0xE5, 0xAF, 0x86, 0xE7, 0xA0, 0x81, 0xE9, 0x94, 0x99, 0xE8, 0xAF, 0xAF]),
      (CodeServerBusy, utf8 [0xE6, 0x9C, 0x8D, 0xE5, 0x8A, 0xA1, 0xE7, 0xB9, 0x81, 0xE5, 0xBF, 0x99]),
      (CodeNeedLogin, utf8 [0xE9, 0x9C, 0x80, 0xE8, 0xA6, 0x81, 0xE7, 0x99, 0xBB, 0xE5, 0xBD, 0x95]),
      (CodeValidToken, utf8 [0xE6, 0x97, 0xA0, 0xE6, 0x95, 0x88, 0xE7, 0x9A, 0x84, 0x20, 0x74, 0x6F, 0x6B, 0x65, 0x6E]),
      (CodeVoteExpired, utf8 [0xE6, 0x8A, 0x95, 0xE7, 0xA5, 0xA8, 0xE6, 0x97, 0xB6, 0xE9, 0x97, 0xB4, 0xE5, 0xB7, 0xB2, 0xE8, 0xBF, 0x87]),
      (CodePostNotFound, utf8 [0xE5, 0xB8, 0x96, 0xE5, 0xAD, 0x90, 0xE4, 0xB8, 0x8D, 0xE5, 0xAD, 0x98, 0xE5, 0x9C, 0xA8]),
      (CodeForbidden, utf8 [0xE6, 0x97, 0xA0, 0xE6, 0x9D, 0x83, 0xE6, 0x89, 0xA7, 0xE8, 0xA1, 0x8C, 0xE8, 0xAF, 0xA5, 0xE6, 0x93, 0x8D, 0xE4, 0xBD, 0x9C]),
      (CodeAuthUnavailable, utf8 [0xE8, 0xAE, 0xA4, 0xE8, 0xAF, 0x81, 0xE6, 0x9C, 0x8D, 0xE5, 0x8A, 0xA1, 0xE6, 0x9A, 0x82, 0xE4, 0xB8, 0x8D, 0xE5, 0x8F, 0xAF, 0xE7, 0x94, 0xA8]),
      (CodeTooManyRequests, utf8 [0xE8, 0xAF, 0xB7, 0xE6, 0xB1, 0x82, 0xE8, 0xBF, 0x87, 0xE4, 0xBA, 0x8E, 0xE9, 0xA2, 0x91, 0xE7, 0xB9, 0x81])]"

lemmas code_defs = CodeSuccess_def CodeInvalidParam_def CodeUserExist_def CodeUserNotExist_def CodeInvalidPassword_def CodeServerBusy_def CodeNeedLogin_def CodeValidToken_def CodeVoteExpired_def CodePostNotFound_def CodeForbidden_def CodeAuthUnavailable_def CodeTooManyRequests_def

definition Msg :: "ResCode \<Rightarrow> string" where
  "Msg rc =
     (case codeMsgMap rc of
        Some msg \<Rightarrow> msg
      | None \<Rightarrow> (case codeMsgMap CodeServerBusy of None \<Rightarrow> [] | Some msg \<Rightarrow> msg))"

section \<open>Responses\<close>

datatype message = MsgText string | MsgFields "string \<rightharpoonup> string" | MsgRetry string int

record 'd ResponseData =
  Code :: ResCode
  Message :: message
  Data :: "'d option"

definition ResponseError :: "ResCode \<Rightarrow> 'd ResponseData" where
  "ResponseError code = \<lparr>Code = code, Message = MsgText (Msg code), Data = None\<rparr>"

definition ResponseErrorWithMsg :: "ResCode \<Rightarrow> message \<Rightarrow> 'd ResponseData" where
  "ResponseErrorWithMsg code msg = \<lparr>Code = code, Message = msg, Data = None\<rparr>"

definition ResponseSuccess :: "'d option \<Rightarrow> 'd ResponseData" where
  "ResponseSuccess data = \<lparr>Code = CodeSuccess, Message = MsgText (Msg CodeSuccess), Data = data\<rparr>"

lemma response_code [simp]:
  "Code (ResponseError c) = c" "Code (ResponseErrorWithMsg c m) = c" "Code (ResponseSuccess d) = CodeSuccess"
  "Data (ResponseSuccess d) = d" "Data (ResponseError c) = None"
  by (simp_all add: ResponseError_def ResponseErrorWithMsg_def ResponseSuccess_def)

section \<open>The request context\<close>

datatype ctx_value = CtxInt64 int | CtxString string

record gin_ctx =
  ctx_keys :: "string \<rightharpoonup> ctx_value"
  ctx_header :: "string \<Rightarrow> string"
  ctx_param :: "string \<Rightarrow> string"
  ctx_query :: "string \<Rightarrow> string"

definition CtxtUserIDKey :: string where "CtxtUserIDKey = ''userID''"
definition CtxtSessionIDKey :: string where "CtxtSessionIDKey = ''sessionID''"

definition ctx_set :: "string \<Rightarrow> ctx_value \<Rightarrow> gin_ctx \<Rightarrow> gin_ctx" where
  "ctx_set k v c = c\<lparr>ctx_keys := (ctx_keys c)(k \<mapsto> v)\<rparr>"

definition getCurrentUserID :: "gin_ctx \<Rightarrow> err + int" where
  "getCurrentUserID c =
     (case ctx_keys c CtxtUserIDKey of
        None \<Rightarrow> Inl ErrorUserNotLogin
      | Some (CtxInt64 userID) \<Rightarrow> Inr userID
      | Some _ \<Rightarrow> Inl ErrorUserNotLogin)"

definition getCurrentSessionID :: "gin_ctx \<Rightarrow> err + string" where
  "getCurrentSessionID c =
     (case ctx_keys c CtxtSessionIDKey of
        None \<Rightarrow> Inl ErrorUserNotLogin
      | Some (CtxString sid) \<Rightarrow> if sid = [] then Inl ErrorUserNotLogin else Inr sid
      | Some _ \<Rightarrow> Inl ErrorUserNotLogin)"

definition getPageInfo :: "gin_ctx \<Rightarrow> int \<times> int" where
  "getPageInfo c =
     ((case ParseInt 64 (ctx_query c ''page'') of Inr p \<Rightarrow> p | Inl _ \<Rightarrow> 1),
      (case ParseInt 64 (ctx_query c ''size'') of Inr s \<Rightarrow> s | Inl _ \<Rightarrow> 10))"

text \<open>What gin's \<open>ShouldBindJSON\<close> makes of a body: the parameters, validation errors, or another error.\<close>

datatype 'p bind = BindOk 'p | BindInvalid "string \<rightharpoonup> string" | BindErr

text \<open>What a middleware leaves: the chain goes on with a context, or stops with headers and a response.\<close>

datatype 'd middleware = Next gin_ctx | Abort "(string \<times> string) list" "'d ResponseData"

end
