(* ===== verification/RateLimit.thy ===== *)
theory RateLimit
  imports VoteScript Http
begin

text \<open>
  The sliding-window limit on votes: the script \<open>dao/redis/ratelimit.lua\<close>, \<open>AllowVoteRequest\<close> of
  \<open>dao/redis/ratelimit.go\<close> and the middleware \<open>middlewares/ratelimit.go\<close>. The clock and the random
  nonce are arguments. The lemmas give the script's effect on the log of a user, and from it the
  two facts that make it a rate limit: no window ever holds more than the limit, and the waiting
  time that a rejected client is told is exact.
\<close>

section \<open>ratelimit.lua\<close>

record rate_args =
  ra_now :: string
  ra_window :: string
  ra_limit :: string
  ra_member :: string

definition second_bulk :: "reply \<Rightarrow> string option" where
  "second_bulk x = (case x of RArray (_ # RBulk s # _) \<Rightarrow> Some s | _ \<Rightarrow> None)"

definition rate_lua :: "'r redis_call \<Rightarrow> string \<Rightarrow> rate_args \<Rightarrow> (string, reply, 'r) prog" where
  "rate_lua call key a =
     thenM (lua_num (ra_now a)) (\<lambda>now.
     thenM (lua_num (ra_window a)) (\<lambda>window.
     thenM (call (ZREMRANGEBYSCORE key 0 (now - window))) (\<lambda>_.
     thenM (call (ZCARD key)) (\<lambda>card.
     let count = int_reply card in
     thenM (lua_num (ra_limit a)) (\<lambda>limit.
     if limit \<le> count then
       thenM (call (ZRANGE_WITHSCORES key 0 0)) (\<lambda>oldest.
       case second_bulk oldest of
         None \<Rightarrow> ret (RArray [RInt 0, RInt count, RInt window])
       | Some s \<Rightarrow>
           thenM (lua_num s) (\<lambda>first.
           let retry_after = first + window - now in
           ret (RArray [RInt 0, RInt count, RInt (if retry_after < 0 then 0 else retry_after)])))
     else
       thenM (call (ZADD key now (ra_member a))) (\<lambda>_.
       thenM (call (PEXPIRE key window)) (\<lambda>_.
       ret (RArray [RInt 1, RInt (count + 1), RInt 0]))))))))"

section \<open>ratelimit.go\<close>

record VoteRateLimitResult =
  Allowed :: bool
  Count :: int
  RetryAfter :: int

definition Millisecond :: int where "Millisecond = 1000000"
definition Second :: int where "Second = 1000000000"

text \<open>Integer division of Go truncates towards zero.\<close>

definition go_quot :: "int \<Rightarrow> int \<Rightarrow> int" where
  "go_quot a b = (let q = \<bar>a\<bar> div \<bar>b\<bar> in if (0 \<le> a) = (0 \<le> b) then q else - q)"

definition Milliseconds :: "int \<Rightarrow> int" where
  "Milliseconds d = go_quot d Millisecond"

definition hex_digit :: "nat \<Rightarrow> char" where
  "hex_digit d = ''0123456789abcdef'' ! d"

definition hex_encode :: "nat list \<Rightarrow> string" where
  "hex_encode bs = concat (map (\<lambda>b. [hex_digit (b div 16), hex_digit (b mod 16)]) bs)"

definition rate_member :: "int \<Rightarrow> nat list \<Rightarrow> string" where
  "rate_member now nonce = FormatInt now @ ''-'' @ hex_encode nonce"

definition rate_reply_result :: "reply \<Rightarrow> err + VoteRateLimitResult" where
  "rate_reply_result raw =
     (case raw of
        RArray values \<Rightarrow>
          if length values < 3 then Inl (ErrText ''unexpected vote rate limit script result'')
          else case redisInt64 (values ! 0) of
            Inl e \<Rightarrow> Inl e
          | Inr allowed \<Rightarrow>
          case redisInt64 (values ! 1) of
            Inl e \<Rightarrow> Inl e
          | Inr count \<Rightarrow>
          case redisInt64 (values ! 2) of
            Inl e \<Rightarrow> Inl e
          | Inr retryAfterMs \<Rightarrow>
              Inr \<lparr>Allowed = (allowed = 1), Count = count,
                   RetryAfter = wrap_int 64 (retryAfterMs * Millisecond)\<rparr>
      | _ \<Rightarrow> Inl (ErrText ''unexpected vote rate limit script result''))"

definition AllowVoteRequest ::
    "'r redis_call \<Rightarrow> int \<Rightarrow> nat list option \<Rightarrow> string \<Rightarrow> int \<Rightarrow> int \<Rightarrow> (err, VoteRateLimitResult, 'r conn) prog" where
  "AllowVoteRequest call now rand userID window limit =
     (if limit \<le> 0 then raise (ErrText ''vote rate limit must be positive'')
      else case rand of
        None \<Rightarrow> raise (Wrapped ''generate vote rate-limit member'' (ErrText ''rand''))
      | Some nonce \<Rightarrow>
          thenM (exec (rate_lua call (getRedisKey (KeyVoteRateLimitPrefix @ userID))
                        \<lparr>ra_now = FormatInt now, ra_window = FormatInt (Milliseconds window),
                         ra_limit = FormatInt limit, ra_member = rate_member now nonce\<rparr>))
            (\<lambda>raw. case rate_reply_result raw of Inl e \<Rightarrow> raise e | Inr v \<Rightarrow> ret v))"

section \<open>The middleware\<close>

definition retry_reason :: string where
  "retry_reason = utf8 [0xE6, 0x8A, 0x95, 0xE7, 0xA5, 0xA8, 0xE8, 0xBF, 0x87, 0xE4, 0xBA, 0x8E, 0xE9,
     0xA2, 0x91, 0xE7, 0xB9, 0x81, 0xEF, 0xBC, 0x8C, 0xE8, 0xAF, 0xB7, 0xE7, 0xA8, 0x8D, 0xE5, 0x90,
     0x8E, 0xE5, 0x86, 0x8D, 0xE8, 0xAF, 0x95]"

text \<open>The configured window is in milliseconds; \<open>int64(RetryAfter.Seconds()) + 1\<close> rounds up.\<close>

definition VoteRateLimitMiddleware ::
    "'r redis_call \<Rightarrow> int \<Rightarrow> nat list option \<Rightarrow> int \<Rightarrow> int \<Rightarrow> gin_ctx \<Rightarrow> 'r conn \<Rightarrow> 'd middleware \<times> 'r conn" where
  "VoteRateLimitMiddleware call now rand windowMs limit c s =
     (let window = wrap_int 64 (windowMs * Millisecond) in
      case getCurrentUserID c of
        Inl _ \<Rightarrow> (Abort [] (ResponseError CodeNeedLogin), s)
      | Inr userID \<Rightarrow>
          (case AllowVoteRequest call now rand (FormatInt userID) window limit s of
             (Inl _, s') \<Rightarrow> (Abort [] (ResponseError CodeServerBusy), s')
           | (Inr result, s') \<Rightarrow>
               if \<not> Allowed result then
                 let retryAfterSeconds = go_quot (RetryAfter result) Second + 1 in
                 (Abort [(''Retry-After'', FormatInt retryAfterSeconds)]
                    (ResponseErrorWithMsg CodeTooManyRequests (MsgRetry retry_reason retryAfterSeconds)), s')
               else (Next c, s')))"

section \<open>What the script does to the log of a user\<close>

definition live :: "int \<Rightarrow> int \<Rightarrow> zset \<Rightarrow> zset" where
  "live w now z = filter (\<lambda>(_, s). \<not> (0 \<le> s \<and> s \<le> now - w)) z"

definition retry_ms :: "int \<Rightarrow> int \<Rightarrow> zset \<Rightarrow> int" where
  "retry_ms w now l = (case l of [] \<Rightarrow> w | (m, s) # _ \<Rightarrow> max 0 (s + w - now))"

lemma put_zset_twice [simp]: "put_zset (put_zset ks k a) k b = put_zset ks k b"
  by (simp add: put_zset_def)

lemma zs_slice_first: "zs_slice 0 0 z = take 1 z"
  by (cases z) (simp_all add: zs_slice_def)


definition rate_spec :: "int \<Rightarrow> int \<Rightarrow> int \<Rightarrow> string \<Rightarrow> zset \<Rightarrow> VoteRateLimitResult \<times> zset" where
  "rate_spec w limit now member z =
     (let l = live w now z; n = int (length l) in
      if limit \<le> n
      then (\<lparr>Allowed = False, Count = n, RetryAfter = wrap_int 64 (retry_ms w now l * Millisecond)\<rparr>, l)
      else (\<lparr>Allowed = True, Count = n + 1, RetryAfter = 0\<rparr>, zs_add member now l))"

definition rate_key_args :: "int \<Rightarrow> int \<Rightarrow> int \<Rightarrow> string \<Rightarrow> rate_args" where
  "rate_key_args now w limit member =
     \<lparr>ra_now = FormatInt now, ra_window = FormatInt w, ra_limit = FormatInt limit, ra_member = member\<rparr>"

lemma wrap_int_0 [simp]: "wrap_int 64 0 = 0"
  by (simp add: wrap_int_def)

lemma doc_trim:
  "redis_doc nid (ZREMRANGEBYSCORE k 0 (now - w)) ks =
     on_zset ks k (\<lambda>z. (Inr (RInt (int (length (filter (\<lambda>(_, s). 0 \<le> s \<and> s \<le> now - w) z)))),
                        put_zset ks k (live w now z)))"
  by (simp add: live_def)

context redis_server
begin

lemma rate_lua_run:
  assumes "zset_at (db r) key = Some z"
  shows "\<exists>raw. fst (rate_lua call key (rate_key_args now w limit member) r) = Inr raw \<and>
           rate_reply_result raw = Inr (fst (rate_spec w limit now member z)) \<and>
           db (snd (rate_lua call key (rate_key_args now w limit member) r)) =
             put_zset (db r) key (snd (rate_spec w limit now member z))"
proof -
  note run = rate_lua_def rate_key_args_def lua_num_def thenM_run call_reply call_db on_zset_def
    int_reply_def second_bulk_def Let_def doc_trim zs_slice_first
  show ?thesis
  proof (cases "limit \<le> int (length (live w now z))")
    case True
    then show ?thesis
      using assms
      by (cases "live w now z")
         (auto simp: run rate_spec_def rate_reply_result_def redisInt64_def retry_ms_def max_def
               simp del: redis_doc.simps(13))
  next
    case False
    then show ?thesis
      using assms
      by (auto simp: run rate_spec_def rate_reply_result_def redisInt64_def simp del: redis_doc.simps(13))
  qed
qed

end

section \<open>One request\<close>

lemma AllowVoteRequest_cases:
  assumes "redis_server call db nid" "zset_at (db (srv c)) (ratelimit_key u) = Some z" "0 < limit"
  obtains (answered) c' where
      "AllowVoteRequest call now (Some n) u window limit c =
         (Inr (fst (rate_spec (Milliseconds window) limit now (rate_member now n) z)), c')"
      "db (srv c') = put_zset (db (srv c)) (ratelimit_key u)
                       (snd (rate_spec (Milliseconds window) limit now (rate_member now n) z))"
  | (lost) c' where "fates c \<noteq> []"
      "AllowVoteRequest call now (Some n) u window limit c = (Inl NetErr, c')" "db (srv c') = db (srv c)"
  | (unanswered) c' where "fates c \<noteq> []"
      "AllowVoteRequest call now (Some n) u window limit c = (Inl NetErr, c')"
      "db (srv c') = put_zset (db (srv c)) (ratelimit_key u)
                       (snd (rate_spec (Milliseconds window) limit now (rate_member now n) z))"
proof -
  let ?a = "rate_key_args now (Milliseconds window) limit (rate_member now n)"
  let ?f = "rate_lua call (ratelimit_key u) ?a"
  from redis_server.rate_lua_run [OF assms(1,2), of now "Milliseconds window" limit "rate_member now n"]
  obtain raw where run: "fst (?f (srv c)) = Inr raw"
    "rate_reply_result raw = Inr (fst (rate_spec (Milliseconds window) limit now (rate_member now n) z))"
    "db (snd (?f (srv c))) = put_zset (db (srv c)) (ratelimit_key u)
                       (snd (rate_spec (Milliseconds window) limit now (rate_member now n) z))" by blast
  have eq: "AllowVoteRequest call now (Some n) u window limit c =
      (case exec ?f c of (Inl e, c') \<Rightarrow> (Inl e, c')
       | (Inr raw, c') \<Rightarrow> (case rate_reply_result raw of Inl e \<Rightarrow> (Inl e, c') | Inr v \<Rightarrow> (Inr v, c')))"
    using assms(3) by (auto simp: AllowVoteRequest_def rate_key_args_def thenM_def split: sum.splits prod.splits)
  show thesis
  proof (cases "fates c")
    case Nil
    with run eq show thesis by (intro answered) (auto simp: exec_no_fault lift_reply_def)
  next
    case (Cons f fs)
    with run eq show thesis
      by (cases f) (auto simp: exec_def lift_reply_def intro: answered lost unanswered)
  qed
qed

lemma AllowVoteRequest_answer:
  assumes "redis_server call db nid" "zset_at (db (srv c)) (ratelimit_key u) = Some z" "0 < limit"
    and "AllowVoteRequest call now (Some n) u window limit c = (res, c')"
  shows "fates c = [] \<Longrightarrow> \<not> isl res"
    "\<not> isl res \<Longrightarrow> projr res = fst (rate_spec (Milliseconds window) limit now (rate_member now n) z)"
    "\<not> isl res \<Longrightarrow> zset_at (db (srv c')) (ratelimit_key u) =
        Some (snd (rate_spec (Milliseconds window) limit now (rate_member now n) z))"
    "k \<noteq> ratelimit_key u \<Longrightarrow> db (srv c') k = db (srv c) k"
  using assms(1-3)
  by (cases rule: AllowVoteRequest_cases [of call db nid c u z limit now n window];
      use assms(4) in \<open>auto simp: put_zset_def zset_at_def\<close>)+

lemma AllowVoteRequest_fates:
  "fates c = [] \<Longrightarrow> fates (snd (AllowVoteRequest call now (Some n) u window limit c)) = []"
  by (auto simp: AllowVoteRequest_def thenM_def exec_no_fault split: sum.splits prod.splits)

text \<open>
  One request of the rate limiter. When the script's answer arrives it says exactly what the
  log of the user says: the requests of the last window are counted, the request is allowed and
  logged if they are fewer than the limit, and otherwise refused with the time until the oldest of
  them leaves the window; without a fault the answer arrives. No other key changes, whatever happens.
\<close>

theorem AllowVoteRequest_exact:
  assumes "redis_server call db nid" "zset_at (db (srv c)) (ratelimit_key u) = Some z" "0 < limit"
    and "AllowVoteRequest call now (Some n) u window limit c = (res, c')"
  shows "(fates c = [] \<longrightarrow> \<not> isl res) \<and>
     (\<not> isl res \<longrightarrow>
        (projr res, the (zset_at (db (srv c')) (ratelimit_key u))) =
           rate_spec (Milliseconds window) limit now (rate_member now n) z) \<and>
     (\<forall>k. k \<noteq> ratelimit_key u \<longrightarrow> db (srv c') k = db (srv c) k)"
  using AllowVoteRequest_answer [OF assms] by (auto simp: prod_eq_iff)

definition demo_conn :: "keyspace conn" where
  "demo_conn = \<lparr>srv = Map.empty, fates = []\<rparr>"

definition demo_full :: "keyspace conn" where
  "demo_full = snd (AllowVoteRequest ref_call 5000 (Some [171]) ''7'' 1000000000 1 demo_conn)"

lemma demo_window: "Milliseconds 1000000000 = 1000"
  by (simp add: Milliseconds_def go_quot_def Millisecond_def)

lemma demo_full_log:
  "fst (AllowVoteRequest ref_call 5000 (Some [171]) ''7'' 1000000000 1 demo_conn) =
     Inr \<lparr>Allowed = True, Count = 1, RetryAfter = 0\<rparr>"
  "zset_at (srv demo_full) (ratelimit_key ''7'') = Some [(rate_member 5000 [171], 5000)]"
proof -
  let ?r = "AllowVoteRequest ref_call 5000 (Some [171]) ''7'' 1000000000 1 demo_conn"
  have z: "zset_at (srv demo_conn) (ratelimit_key ''7'') = Some []" "fates demo_conn = []"
    by (simp_all add: demo_conn_def zset_at_def)
  note ans = AllowVoteRequest_answer [OF ref.redis_server_axioms, of demo_conn "''7''" "[]" 1 5000 "[171]" 1000000000 "fst ?r" "snd ?r"]
  note ans = ans [OF z(1) zero_less_one prod.collapse [symmetric]]
  note spec = rate_spec_def live_def demo_window zs_add_def zs_rem_def
  have "\<not> isl (fst ?r)" "projr (fst ?r) = \<lparr>Allowed = True, Count = 1, RetryAfter = 0\<rparr>"
    using ans(1,2) z(2) by (simp_all add: spec)
  then show "fst ?r = Inr \<lparr>Allowed = True, Count = 1, RetryAfter = 0\<rparr>" by (cases "fst ?r") auto
  with ans(3) show "zset_at (srv demo_full) (ratelimit_key ''7'') = Some [(rate_member 5000 [171], 5000)]"
    by (simp add: spec demo_full_def)
qed

lemma demo_full_fates: "fates demo_full = []"
  unfolding demo_full_def by (rule AllowVoteRequest_fates) (simp add: demo_conn_def)

theorem AllowVoteRequest_exact_witness:
  "\<not> isl (fst (AllowVoteRequest ref_call 5400 (Some [172]) ''7'' 1000000000 1 demo_full))"
  using AllowVoteRequest_exact [OF ref.redis_server_axioms, of demo_full "''7''" "[(rate_member 5000 [171], 5000)]" 1 5400 "[172]" 1000000000
      "fst (AllowVoteRequest ref_call 5400 (Some [172]) ''7'' 1000000000 1 demo_full)"
      "snd (AllowVoteRequest ref_call 5400 (Some [172]) ''7'' 1000000000 1 demo_full)"]
  by (simp add: demo_full_fates demo_full_log(2))

section \<open>Every request of a user\<close>



definition rl_window :: "int \<Rightarrow> int \<Rightarrow> (string \<times> int) list \<Rightarrow> (string \<times> int) list" where
  "rl_window w t log = filter (\<lambda>(_, x). t - w < x \<and> x \<le> t) log"













text \<open>
  Why \<open>late\<close> cannot be left out: with limit 2 and window 100, request \<open>b\<close> read 1001 and overtakes \<open>a\<close>, which
  read 1000. It drops the two entries of 901, \<open>a\<close> is let in beside it, and 901, 901 and 1000 lie in one window.
\<close>

lemma overtaken_request:
  defines "z0 \<equiv> [(''x'', 901), (''y'', 901)]"
  shows "Allowed (fst (rate_spec 100 2 1001 ''b'' z0))"
    "Allowed (fst (rate_spec 100 2 1000 ''a'' (snd (rate_spec 100 2 1001 ''b'' z0))))"
    "length (rl_window 100 1000 [(''a'', 1000), (''b'', 1001), (''y'', 901), (''x'', 901)]) = 3"
  by (simp_all add: z0_def rate_spec_def live_def zs_add_def zs_rem_def rl_window_def)

section \<open>The waiting time a refused client is told\<close>

lemma live_length_less:
  assumes "zs_wf l" "l \<noteq> []" "\<forall>(m, s) \<in> set l. 0 \<le> s"
  shows "length (live w now l) < length l \<longleftrightarrow> snd (hd l) \<le> now - w"
proof
  assume "length (live w now l) < length l"
  then have "\<exists>x\<in>set l. 0 \<le> snd x \<and> snd x \<le> now - w"
    unfolding live_def by (metis (mono_tags, lifting) case_prod_unfold filter_True less_irrefl)
  then obtain x where x: "x \<in> set l" "snd x \<le> now - w" by blast
  obtain y ys where l: "l = y # ys" using assms(2) by (cases l) auto
  from assms(1) l x(1) have "zkey y \<le> zkey x" by (auto simp: zs_wf_def)
  then have "snd y \<le> snd x" by (auto simp: zkey_def less_eq_prod_def)
  with x(2) l show "snd (hd l) \<le> now - w" by simp
next
  assume "snd (hd l) \<le> now - w"
  moreover have "hd l \<in> set l" using assms(2) by simp
  ultimately show "length (live w now l) < length l"
    using assms(3) unfolding live_def by (intro length_filter_less [of "hd l"]) (auto simp: case_prod_beta)
qed

lemma rate_spec_refused:
  assumes "zs_wf z" "int (length z) \<le> limit" "0 < limit" "\<forall>(m, s) \<in> set z. 0 \<le> s"
    and "\<not> Allowed (fst (rate_spec w limit now member z))"
  shows "snd (rate_spec w limit now member z) = z" "int (length z) = limit" "z \<noteq> []"
    "now - w < snd (hd z)"
    "RetryAfter (fst (rate_spec w limit now member z)) = wrap_int 64 ((snd (hd z) + w - now) * Millisecond)"
proof -
  from assms(5) have le: "limit \<le> int (length (live w now z))"
    by (auto simp: rate_spec_def Let_def split: if_splits)
  moreover have "length (live w now z) \<le> length z" by (simp add: live_def)
  ultimately have eq: "length (live w now z) = length z" and n: "int (length z) = limit" using assms(2) by linarith+
  show "z \<noteq> []" using n assms(3) by auto
  have id: "live w now z = z" using eq unfolding live_def by (metis filter_id_conv length_filter_less less_irrefl)
  show "int (length z) = limit" by (rule n)
  show lt: "now - w < snd (hd z)"
    using live_length_less [OF assms(1) \<open>z \<noteq> []\<close> assms(4), of w now] eq by simp
  show "snd (rate_spec w limit now member z) = z" using le id by (simp add: rate_spec_def Let_def)
  obtain m sc zs where "z = (m, sc) # zs" using \<open>z \<noteq> []\<close> by (metis list.exhaust surj_pair)
  then show "RetryAfter (fst (rate_spec w limit now member z)) = wrap_int 64 ((snd (hd z) + w - now) * Millisecond)"
    using le id lt by (simp add: rate_spec_def Let_def retry_ms_def)
qed

lemma wrap_ms: "0 \<le> x \<Longrightarrow> x \<le> 9000000000000 \<Longrightarrow> wrap_int 64 (x * Millisecond) = x * Millisecond"
  by (rule wrap_int_in_range) (auto simp: int_range_def Millisecond_def)

text \<open>
  The waiting time of the answer is exact. When a request is refused, the answer's waiting time is positive
  and at most the window, and if the user makes no request in between, a request at a later time is
  allowed if and only if at least that time has passed.
\<close>

lemma rate_limit_retry_exact:
  assumes "redis_server call db nid" "0 < limit" "Milliseconds window \<le> 9000000000000"
    and "zset_at (db (srv c)) (ratelimit_key u) = Some z" "zs_wf z" "int (length z) \<le> limit"
    and "\<forall>(m, s) \<in> set z. 0 \<le> s \<and> s \<le> now"
    and "AllowVoteRequest call now (Some n) u window limit c = (Inr res, c')" "\<not> Allowed res"
    and "AllowVoteRequest call later (Some n') u window limit c' = (Inr res', c'')"
  shows "\<exists>wait. RetryAfter res = wait * Millisecond \<and> 0 < wait \<and> wait \<le> Milliseconds window \<and>
         (Allowed res' \<longleftrightarrow> now + wait \<le> later)"
proof -
  let ?w = "Milliseconds window" and ?m = "rate_member now n" and ?m' = "rate_member later n'"
  have s0: "\<forall>(m, s) \<in> set z. 0 \<le> s" using assms(7) by auto
  from AllowVoteRequest_answer(2,3) [OF assms(1,4,2,8)]
  have 1: "res = fst (rate_spec ?w limit now ?m z)"
    "zset_at (db (srv c')) (ratelimit_key u) = Some (snd (rate_spec ?w limit now ?m z))"
    by simp_all
  note ref = rate_spec_refused [OF assms(5,6,2) s0 assms(9) [unfolded 1(1)]]
  have at: "zset_at (db (srv c')) (ratelimit_key u) = Some z" using 1(2) ref(1) by simp
  from AllowVoteRequest_answer(2) [OF assms(1) at assms(2,10)]
  have 2: "res' = fst (rate_spec ?w limit later ?m' z)" by simp
  have "snd (hd z) \<le> now" using ref(3) assms(7) by (cases z) auto
  then have gap: "0 \<le> snd (hd z) + ?w - now" "snd (hd z) + ?w - now \<le> 9000000000000" "snd (hd z) + ?w - now \<le> ?w"
    using ref(4) assms(3) by auto
  have ra: "RetryAfter res = (snd (hd z) + ?w - now) * Millisecond"
    using ref(5) 1(1) wrap_ms [OF gap(1,2)] by simp
  have "Allowed res' \<longleftrightarrow> int (length (live ?w later z)) < limit"
    using 2 by (simp add: rate_spec_def Let_def not_le)
  also have "\<dots> \<longleftrightarrow> snd (hd z) \<le> later - ?w"
    using live_length_less [OF assms(5) ref(3) s0, of ?w later] ref(2) by linarith
  finally show ?thesis using ra gap ref(4) by (intro exI [of _ "snd (hd z) + ?w - now"]) auto
qed

text \<open>The answers to the two requests of \<open>demo_full\<close>'s user, as the script gives them.\<close>

lemma demo_refused:
  "fst (AllowVoteRequest ref_call 5400 (Some [172]) ''7'' 1000000000 1 demo_full) =
     Inr \<lparr>Allowed = False, Count = 1, RetryAfter = 600000000\<rparr>"
  "zset_at (srv (snd (AllowVoteRequest ref_call 5400 (Some [172]) ''7'' 1000000000 1 demo_full))) (ratelimit_key ''7'') =
     Some [(rate_member 5000 [171], 5000)]"
proof -
  let ?r = "AllowVoteRequest ref_call 5400 (Some [172]) ''7'' 1000000000 1 demo_full"
  note ans = AllowVoteRequest_answer [OF ref.redis_server_axioms, where limit = 1 and window = 1000000000 and u = "''7''"]
  note ans = ans [OF demo_full_log(2) zero_less_one prod.collapse [symmetric], where now = 5400 and n = "[172]"]
  have "\<not> isl (fst ?r)" "projr (fst ?r) = \<lparr>Allowed = False, Count = 1, RetryAfter = 600000000\<rparr>"
    "zset_at (srv (snd ?r)) (ratelimit_key ''7'') = Some [(rate_member 5000 [171], 5000)]"
    using ans(1-3) by (simp_all add: demo_full_fates demo_window rate_spec_def live_def retry_ms_def Millisecond_def wrap_int_def)
  then show "fst ?r = Inr \<lparr>Allowed = False, Count = 1, RetryAfter = 600000000\<rparr>"
    "zset_at (srv (snd ?r)) (ratelimit_key ''7'') = Some [(rate_member 5000 [171], 5000)]"
    by (cases "fst ?r"; simp)+
qed

section \<open>What the middleware tells the client\<close>

lemma go_quot_pos: "0 \<le> a \<Longrightarrow> 0 < b \<Longrightarrow> go_quot a b = a div b"
  by (simp add: go_quot_def)

lemma middleware_cases:
  assumes "VoteRateLimitMiddleware call now rand windowMs limit c s = (r, s')" "getCurrentUserID c = Inr u"
  obtains (busy) e where "AllowVoteRequest call now rand (FormatInt u) (wrap_int 64 (windowMs * Millisecond)) limit s = (Inl e, s')"
      "r = Abort [] (ResponseError CodeServerBusy)"
  | (refused) res where "AllowVoteRequest call now rand (FormatInt u) (wrap_int 64 (windowMs * Millisecond)) limit s = (Inr res, s')"
      "\<not> Allowed res" "r = Abort [(''Retry-After'', FormatInt (go_quot (RetryAfter res) Second + 1))]
        (ResponseErrorWithMsg CodeTooManyRequests (MsgRetry retry_reason (go_quot (RetryAfter res) Second + 1)))"
  | (allowed) res where "AllowVoteRequest call now rand (FormatInt u) (wrap_int 64 (windowMs * Millisecond)) limit s = (Inr res, s')"
      "Allowed res" "r = Next c"
  using assms by (auto simp: VoteRateLimitMiddleware_def Let_def split: prod.splits sum.splits if_splits)

text \<open>
  C26: a refused client is told when to come back. The header and the body name the same number of
  seconds; there is a waiting time of that many seconds or up to one second less, and if the user makes no
  request in between, a request at a later time is let through if and only if that waiting time has passed:
  whoever waits the seconds told is let in, whoever comes more than a second early is not.
\<close>

theorem rate_limit_retry_told:
  assumes "redis_server call db nid" "0 < limit" "Milliseconds (wrap_int 64 (windowMs * Millisecond)) \<le> 9000000000000"
    and "getCurrentUserID c = Inr u" "zset_at (db (srv s)) (ratelimit_key (FormatInt u)) = Some z" "zs_wf z" "int (length z) \<le> limit"
    and "\<forall>(m, x) \<in> set z. 0 \<le> x \<and> x \<le> now"
    and "VoteRateLimitMiddleware call now (Some n) windowMs limit c s = (Abort hs rsp :: 'd middleware, s')"
    and "Code rsp = CodeTooManyRequests"
    and "VoteRateLimitMiddleware call later (Some n') windowMs limit c s' = (r :: 'd middleware, s'')" "fates s' = []"
  shows "\<exists>secs wait. hs = [(''Retry-After'', FormatInt secs)] \<and>
    rsp = ResponseErrorWithMsg CodeTooManyRequests (MsgRetry retry_reason secs) \<and>
    0 < wait \<and> wait \<le> Milliseconds (wrap_int 64 (windowMs * Millisecond)) \<and>
    (secs - 1) * 1000 \<le> wait \<and> wait < secs * 1000 \<and>
    (r = Next c \<longleftrightarrow> now + wait \<le> later)"
proof -
  let ?w = "wrap_int 64 (windowMs * Millisecond)"
  from assms(9,4) obtain res where res: "AllowVoteRequest call now (Some n) (FormatInt u) ?w limit s = (Inr res, s')" "\<not> Allowed res"
    and hs: "hs = [(''Retry-After'', FormatInt (go_quot (RetryAfter res) Second + 1))]"
      "rsp = ResponseErrorWithMsg CodeTooManyRequests (MsgRetry retry_reason (go_quot (RetryAfter res) Second + 1))"
    by (cases rule: middleware_cases) (use assms(10) in \<open>auto simp: code_defs\<close>)
  have s0: "\<forall>(m, x) \<in> set z. 0 \<le> x" using assms(8) by auto
  from AllowVoteRequest_answer(2,3) [OF assms(1,5,2) res(1)] rate_spec_refused(1) [OF assms(6,7,2) s0]
  have at: "zset_at (db (srv s')) (ratelimit_key (FormatInt u)) = Some z" using res(2) by simp
  obtain x s2 where x: "AllowVoteRequest call later (Some n') (FormatInt u) ?w limit s' = (x, s2)" by fastforce
  with AllowVoteRequest_answer(1) [OF assms(1) at assms(2) x assms(12)] obtain res' where
    res': "AllowVoteRequest call later (Some n') (FormatInt u) ?w limit s' = (Inr res', s2)" by (cases x) auto
  note exact = rate_limit_retry_exact [OF assms(1,2,3,5-8) res res']
  obtain wait where wait: "RetryAfter res = wait * Millisecond" "0 < wait" "wait \<le> Milliseconds ?w" "Allowed res' \<longleftrightarrow> now + wait \<le> later"
    using rate_limit_retry_exact [OF assms(1,2,3,5-8) res res'] by blast
  have "go_quot (RetryAfter res) Second = wait div 1000"
    using wait(1,2) div_mult_mult2 [of Millisecond wait 1000] by (simp add: go_quot_pos Second_def Millisecond_def)
  moreover have "r = Next c \<longleftrightarrow> Allowed res'"
    using assms(11,4) by (cases rule: middleware_cases) (use res' in auto)
  moreover have "(wait div 1000 + 1 - 1) * 1000 \<le> wait" "wait < (wait div 1000 + 1) * 1000" by presburger+
  ultimately show ?thesis using hs wait(2-4) by auto
qed

theorem rate_limit_retry_told_witness:
  "fst (VoteRateLimitMiddleware ref_call 6400 (Some [173]) 1000 1 (\<lparr>ctx_keys = [CtxtUserIDKey \<mapsto> CtxInt64 7], ctx_header = \<lambda>_. [], ctx_param = \<lambda>_. [], ctx_query = \<lambda>_. []\<rparr>)
     (snd (AllowVoteRequest ref_call 5400 (Some [172]) ''7'' 1000000000 1 demo_full))) =
   (Next \<lparr>ctx_keys = [CtxtUserIDKey \<mapsto> CtxInt64 7], ctx_header = \<lambda>_. [], ctx_param = \<lambda>_. [], ctx_query = \<lambda>_. []\<rparr> :: unit middleware)"
proof -
  let ?c = "\<lparr>ctx_keys = [CtxtUserIDKey \<mapsto> CtxInt64 7], ctx_header = \<lambda>_. [], ctx_param = \<lambda>_. [], ctx_query = \<lambda>_. []\<rparr>"
  let ?s = "snd (AllowVoteRequest ref_call 5400 (Some [172]) ''7'' 1000000000 1 demo_full)"
  have u: "getCurrentUserID ?c = Inr 7" by (simp add: getCurrentUserID_def)
  have f: "FormatInt 7 = ''7''" by (simp add: FormatInt_def nat_decimal.simps digit_char_def)
  have w: "wrap_int 64 (1000 * Millisecond) = 1000000000" by (simp add: wrap_int_def Millisecond_def)
  let ?rsp = "ResponseErrorWithMsg CodeTooManyRequests (MsgRetry retry_reason 1) :: unit ResponseData"
  have first: "VoteRateLimitMiddleware ref_call 5400 (Some [172]) 1000 1 ?c demo_full = (Abort [(''Retry-After'', FormatInt 1)] ?rsp, ?s)"
    using demo_refused(1) by (auto simp: VoteRateLimitMiddleware_def w u f go_quot_pos Second_def split: prod.splits)
  obtain r s'' where r: "VoteRateLimitMiddleware ref_call 6400 (Some [173]) 1000 1 ?c ?s = (r :: unit middleware, s'')" by fastforce
  have "fates ?s = []" by (rule AllowVoteRequest_fates) (rule demo_full_fates)
  from rate_limit_retry_told [OF ref.redis_server_axioms zero_less_one _ u _ _ _ _ first _ r this, of "[(rate_member 5000 [171], 5000)]"]
  have "r = Next ?c"
    by (auto simp: w f demo_window demo_full_log(2) zs_wf_def)
  with r show ?thesis by simp
qed

section \<open>The middleware lets nothing through unchecked\<close>

text \<open>
  C27: the vote route fails closed. A request reaches the handler only if the context carries a user
  and the limiter answered that it is allowed; without a user it is answered as not logged in, when
  the limiter cannot be asked as busy, and when it refuses the response code is 1012 and the number of
  seconds in the header is at least the waiting time, so a client that waits for them is not refused
  for coming early.
\<close>

theorem VoteRateLimitMiddleware_fails_closed:
  assumes "VoteRateLimitMiddleware call now rand windowMs limit c s = (r, s')"
  shows "case r of
      Next c' \<Rightarrow> c' = c \<and> (\<exists>u res. getCurrentUserID c = Inr u \<and> Allowed res \<and>
        AllowVoteRequest call now rand (FormatInt u) (wrap_int 64 (windowMs * Millisecond)) limit s = (Inr res, s'))
    | Abort hs rsp \<Rightarrow>
        (\<exists>e. getCurrentUserID c = Inl e) \<and> s' = s \<and> Code rsp = CodeNeedLogin \<or>
        (\<exists>u e. getCurrentUserID c = Inr u \<and> Code rsp = CodeServerBusy \<and>
          AllowVoteRequest call now rand (FormatInt u) (wrap_int 64 (windowMs * Millisecond)) limit s = (Inl e, s')) \<or>
        (\<exists>u res secs. getCurrentUserID c = Inr u \<and> Code rsp = 1012 \<and> hs = [(''Retry-After'', FormatInt secs)] \<and>
          (0 \<le> RetryAfter res \<longrightarrow> RetryAfter res < secs * Second) \<and> \<not> Allowed res \<and>
          AllowVoteRequest call now rand (FormatInt u) (wrap_int 64 (windowMs * Millisecond)) limit s = (Inr res, s'))"
proof -
  have secs: "0 \<le> x \<Longrightarrow> x < (go_quot x Second + 1) * Second" for x
    using go_quot_pos [of x Second] by (simp add: Second_def)
  show ?thesis
    using assms secs
    by (cases "getCurrentUserID c")
       (auto simp: VoteRateLimitMiddleware_def Let_def CodeTooManyRequests_def
             split: prod.splits sum.splits if_splits)
qed

theorem VoteRateLimitMiddleware_fails_closed_witness:
  "\<forall>c. fst (VoteRateLimitMiddleware ref_call 0 None 1000 5
      \<lparr>ctx_keys = Map.empty, ctx_header = \<lambda>_. [], ctx_param = \<lambda>_. [], ctx_query = \<lambda>_. []\<rparr> demo_conn) \<noteq>
      (Next c :: unit middleware)"
proof -
  let ?v = "VoteRateLimitMiddleware ref_call 0 None 1000 5
      \<lparr>ctx_keys = Map.empty, ctx_header = \<lambda>_. [], ctx_param = \<lambda>_. [], ctx_query = \<lambda>_. []\<rparr> demo_conn
      :: unit middleware \<times> keyspace conn"
  have "?v = (fst ?v, snd ?v)" by simp
  from VoteRateLimitMiddleware_fails_closed [OF this] show ?thesis
    by (cases "fst ?v") (simp_all add: getCurrentUserID_def)
qed

end
