(* ===== verification/App.thy ===== *)
theory App
  imports RedisServer VoteTables
begin

text \<open>
  The state the request handlers and the maintenance commands work on: the connection to Redis, the
  MySQL tables of \<open>init.sql\<close> and the faults of SQL statements, which the environment chooses
  (\<open>True\<close>: the next statement fails). A statement that fails changes nothing. Programs whose loops
  the environment can keep going carry fuel; None is a loop that has not ended.
\<close>

section \<open>Tables\<close>

record post_row =
  po_id :: int
  po_author :: int
  po_community :: int
  po_status :: int
  po_title :: string
  po_content :: string
  po_created :: int
  po_updated :: int

record user_row =
  us_id :: int
  us_name :: string
  us_password :: string

record community_row =
  co_id :: int
  co_name :: string
  co_intro :: string
  co_created :: int

record forum_tables = vote_tables +
  t_posts :: "post_row list"
  t_users :: "user_row list"
  t_communities :: "community_row list"

section \<open>Programs over both stores\<close>

lemma exec_srv:
  assumes "exec f c = (res, c')"
  shows "srv c' = srv c \<and> isl res \<or> srv c' = snd (f (srv c)) \<and> (isl res \<or> res = lift_reply (fst (f (srv c))))"
  using assms by (cases rule: exec_cases [of f c]) auto

lemma lift_reply_simps [simp]: "lift_reply (Inl e) = Inl (RedisErr e)" "lift_reply (Inr x) = Inr x"
  by (simp_all add: lift_reply_def)

record 'r app =
  a_redis :: "'r conn"
  a_tables :: forum_tables
  a_sql :: "bool list"

definition redisM :: "(err, 'a, 'r conn) prog \<Rightarrow> (err, 'a, 'r app) prog" where
  "redisM m s = (case m (a_redis s) of (res, c) \<Rightarrow> (res, s\<lparr>a_redis := c\<rparr>))"

definition sqlM :: "(forum_tables \<Rightarrow> (err + 'a) \<times> forum_tables) \<Rightarrow> (err, 'a, 'r app) prog" where
  "sqlM f s =
     (case a_sql s of
        True # fs \<Rightarrow> (Inl SqlErr, s\<lparr>a_sql := fs\<rparr>)
      | fs \<Rightarrow> (case f (a_tables s) of (res, t) \<Rightarrow> (res, s\<lparr>a_tables := t, a_sql := tl fs\<rparr>)))"

definition sql_query :: "(forum_tables \<Rightarrow> 'a) \<Rightarrow> (err, 'a, 'r app) prog" where
  "sql_query f = sqlM (\<lambda>t. (Inr (f t), t))"

definition wrap_err :: "string \<Rightarrow> (err, 'a, 's) prog \<Rightarrow> (err, 'a, 's) prog" where
  "wrap_err txt m s = (case m s of (Inl e, s') \<Rightarrow> (Inl (Wrapped txt e), s') | (Inr x, s') \<Rightarrow> (Inr x, s'))"

type_synonym ('a, 's) looping = "'s \<Rightarrow> ((err + 'a) \<times> 's) option"

definition liftO :: "(err, 'a, 's) prog \<Rightarrow> ('a, 's) looping" where
  "liftO m s = Some (m s)"

definition thenO :: "('a, 's) looping \<Rightarrow> ('a \<Rightarrow> ('b, 's) looping) \<Rightarrow> ('b, 's) looping" where
  "thenO m f s =
     (case m s of
        None \<Rightarrow> None
      | Some (Inl e, s') \<Rightarrow> Some (Inl e, s')
      | Some (Inr x, s') \<Rightarrow> f x s')"

definition wrapO :: "string \<Rightarrow> ('a, 's) looping \<Rightarrow> ('a, 's) looping" where
  "wrapO txt m s =
     (case m s of
        None \<Rightarrow> None | Some (Inl e, s') \<Rightarrow> Some (Inl (Wrapped txt e), s') | Some (Inr x, s') \<Rightarrow> Some (Inr x, s'))"

definition redisO :: "('a, 'r conn) looping \<Rightarrow> ('a, 'r app) looping" where
  "redisO m s = (case m (a_redis s) of None \<Rightarrow> None | Some (res, c) \<Rightarrow> Some (res, s\<lparr>a_redis := c\<rparr>))"

lemma thenO_Some:
  "thenO m f s = Some (r, s') \<longleftrightarrow>
     (\<exists>e. m s = Some (Inl e, s') \<and> r = Inl e) \<or> (\<exists>x s1. m s = Some (Inr x, s1) \<and> f x s1 = Some (r, s'))"
  by (auto simp: thenO_def split: option.splits prod.splits sum.splits)

lemma wrapO_Some:
  "wrapO txt m s = Some (r, s') \<longleftrightarrow>
     (\<exists>e. m s = Some (Inl e, s') \<and> r = Inl (Wrapped txt e)) \<or> (\<exists>x. m s = Some (Inr x, s') \<and> r = Inr x)"
  by (auto simp: wrapO_def split: option.splits prod.splits sum.splits)

lemma liftO_Some [simp]: "liftO m s = Some x \<longleftrightarrow> m s = x"
  by (auto simp: liftO_def)

lemma redisO_Some:
  "redisO m s = Some (r, s') \<longleftrightarrow> (\<exists>c. m (a_redis s) = Some (r, c) \<and> s' = s\<lparr>a_redis := c\<rparr>)"
  by (auto simp: redisO_def split: option.splits)

lemma redisM_run: "redisM m s = (res, s') \<longleftrightarrow> (\<exists>c. m (a_redis s) = (res, c) \<and> s' = s\<lparr>a_redis := c\<rparr>)"
  by (auto simp: redisM_def split: prod.splits)

lemma sql_query_run:
  "sql_query f s = (res, s') \<longleftrightarrow>
     (\<exists>fs. s' = s\<lparr>a_sql := fs\<rparr>) \<and>
     (if \<exists>fs. a_sql s = True # fs then res = Inl SqlErr \<and> a_sql s' = tl (a_sql s)
      else res = Inr (f (a_tables s)) \<and> a_sql s' = tl (a_sql s))"
  by (auto simp: sql_query_def sqlM_def split: list.splits bool.splits)

end
