(* ===== verification/Recovery.thy ===== *)
theory Recovery
  imports App VoteCorrect
begin

text \<open>
  The maintenance command: \<open>logic/recovery.go\<close> with \<open>dao/redis/recovery.go\<close> and
  \<open>dao/mysql/recovery.go\<close>. It throws away the Redis structures that are derived from MySQL and
  restores them batch by batch, with a marker that tells a finished state from an unfinished one.
  \<open>SCAN\<close> is the server's: what the program relies on is that a full iteration returns exactly the
  keys that match, when nothing else writes.
\<close>

section \<open>SCAN\<close>

type_synonym 'r scan = "nat \<Rightarrow> string \<Rightarrow> nat \<Rightarrow> 'r \<Rightarrow> (string + string list \<times> nat) \<times> 'r"

text \<open>The patterns of Redis, as far as the program writes them: literals, \<open>?\<close> and \<open>*\<close>.\<close>

fun glob :: "string \<Rightarrow> string \<Rightarrow> bool" where
  "glob [] s \<longleftrightarrow> s = []"
| "glob (p # ps) s \<longleftrightarrow>
     (if p = CHR ''*'' then glob ps s \<or> (case s of [] \<Rightarrow> False | c # cs \<Rightarrow> glob (p # ps) cs)
      else case s of [] \<Rightarrow> False | c # cs \<Rightarrow> (p = CHR ''?'' \<or> p = c) \<and> glob ps cs)"

fun scan_run :: "'r scan \<Rightarrow> nat \<Rightarrow> string \<Rightarrow> nat \<Rightarrow> 'r \<Rightarrow> (string list \<times> 'r) option" where
  "scan_run scan 0 pat cur r = None"
| "scan_run scan (Suc n) pat cur r =
     (case scan cur pat 500 r of
        (Inl _, _) \<Rightarrow> None
      | (Inr (batch, nxt), r') \<Rightarrow>
          if nxt = 0 then Some (batch, r')
          else map_option (\<lambda>(ks, r''). (batch @ ks, r'')) (scan_run scan n pat nxt r'))"

locale redis_scan = redis_server call db nid
  for call :: "'r redis_call" and db :: "'r \<Rightarrow> keyspace" and nid :: "'r \<Rightarrow> string \<Rightarrow> stream_id" +
  fixes scan :: "'r scan"
  assumes scan_db: "db (snd (scan cur pat n r)) = db r"
    and scan_all: "scan_run scan n pat 0 r = Some (ks, r') \<Longrightarrow> set ks = {k. db r k \<noteq> None \<and> glob pat k}"
    and scan_ends: "finite (dom (db r)) \<Longrightarrow> \<exists>n. scan_run scan n pat 0 r \<noteq> None"

text \<open>A server that answers in one batch (and never, should its keyspace be infinite).\<close>

definition ref_scan :: "keyspace scan" where
  "ref_scan cur pat n ks =
     (if cur = 0 \<and> finite {k. ks k \<noteq> None \<and> glob pat k}
      then (Inr (sorted_list_of_set {k. ks k \<noteq> None \<and> glob pat k}, 0), ks) else (Inr ([], 1), ks))"

lemma ref_scan_late: "cur \<noteq> 0 \<Longrightarrow> scan_run ref_scan n pat cur ks = None"
  by (induction n arbitrary: cur) (simp_all add: ref_scan_def)

interpretation refscan: redis_scan ref_call "\<lambda>ks. ks" ref_nid ref_scan
proof
  show "snd (ref_scan cur pat n r) = r" for cur pat n r by (simp add: ref_scan_def)
  show "set ks = {k. r k \<noteq> None \<and> glob pat k}" if "scan_run ref_scan n pat 0 r = Some (ks, r')" for n pat r ks r'
  proof (cases n)
    case (Suc m)
    show ?thesis
    proof (cases "finite {k. r k \<noteq> None \<and> glob pat k}")
      case True
      with that Suc show ?thesis by (auto simp: ref_scan_def)
    next
      case False
      with that Suc ref_scan_late [of 1 m pat r] show ?thesis by (simp add: ref_scan_def)
    qed
  qed (use that in simp)
  show "\<exists>n. scan_run ref_scan n pat 0 r \<noteq> None" if "finite (dom r)" for pat r
  proof -
    have "finite {k. r k \<noteq> None \<and> glob pat k}" by (rule finite_subset [OF _ that]) auto
    then have "scan_run ref_scan (Suc 0) pat 0 r \<noteq> None" by (simp add: ref_scan_def)
    then show ?thesis by blast
  qed
qed

section \<open>dao/redis/recovery.go\<close>

definition VoteStateReady :: string where "VoteStateReady = ''ready:v1''"
definition VoteStateRebuilding :: string where "VoteStateRebuilding = ''rebuilding:v1''"

definition GetVoteStateStatus :: "'r redis_call \<Rightarrow> (err, string, 'r conn) prog" where
  "GetVoteStateStatus call =
     thenM (exec (call (GET (getRedisKey KeyVoteStateStatus))))
       (\<lambda>status. case status of RNil \<Rightarrow> ret [] | RBulk s \<Rightarrow> ret s | _ \<Rightarrow> raise (ErrText ''unexpected reply''))"

definition MarkVoteStateReady :: "'r redis_call \<Rightarrow> (err, unit, 'r conn) prog" where
  "MarkVoteStateReady call = thenM (exec (call (SET (getRedisKey KeyVoteStateStatus) VoteStateReady 0))) (\<lambda>_. ret ())"

definition EnsureVoteStateReadable :: "'r redis_call \<Rightarrow> (err, unit, 'r conn) prog" where
  "EnsureVoteStateReadable call =
     thenM (GetVoteStateStatus call) (\<lambda>status.
       if status \<noteq> VoteStateReady then raise (Wrapped (''marker='' @ status) ErrVoteStateUnavailable) else ret ())"

definition CountIndexedPosts :: "'r redis_call \<Rightarrow> (err, int, 'r conn) prog" where
  "CountIndexedPosts call =
     thenM (exec (call (ZCARD (getRedisKey KeyPostTimeZSet)))) (\<lambda>timeCount.
     thenM (exec (call (ZCARD (getRedisKey KeyPostScoreZSet)))) (\<lambda>scoreCount.
     if int_reply timeCount \<noteq> int_reply scoreCount then raise (ErrText ''redis post index count mismatch'')
     else ret (int_reply timeCount)))"

text \<open>The two loops of \<open>deleteKeysMatching\<close>: a full iteration of SCAN, and the deletions in chunks of 500.\<close>

fun scan_keys :: "'r scan \<Rightarrow> nat \<Rightarrow> string \<Rightarrow> nat \<Rightarrow> string list \<Rightarrow> (string list, 'r conn) looping" where
  "scan_keys scan 0 pattern cursor keys s = None"
| "scan_keys scan (Suc n) pattern cursor keys s =
     thenO (liftO (exec (scan cursor pattern 500))) (\<lambda>(batch, nxt).
       if nxt = 0 then liftO (ret (keys @ batch)) else scan_keys scan n pattern nxt (keys @ batch)) s"

fun chunks :: "nat \<Rightarrow> nat \<Rightarrow> 'a list \<Rightarrow> 'a list list" where
  "chunks 0 n xs = []"
| "chunks (Suc m) n xs = (if xs = [] then [] else take n xs # chunks m n (drop n xs))"

fun del_chunks :: "'r redis_call \<Rightarrow> string list list \<Rightarrow> (err, unit, 'r conn) prog" where
  "del_chunks call [] = ret ()"
| "del_chunks call (c # cs) = thenM (exec (call (DEL c))) (\<lambda>_. del_chunks call cs)"

fun deleteKeysMatching :: "'r redis_call \<Rightarrow> 'r scan \<Rightarrow> nat \<Rightarrow> nat \<Rightarrow> string \<Rightarrow> (unit, 'r conn) looping" where
  "deleteKeysMatching call scan 0 n pattern s = None"
| "deleteKeysMatching call scan (Suc rounds) n pattern s =
     thenO (scan_keys scan n pattern 0 []) (\<lambda>keys.
       if keys = [] then liftO (ret ())
       else thenO (liftO (del_chunks call (chunks (length keys) 500 keys)))
              (\<lambda>_. deleteKeysMatching call scan rounds n pattern)) s"

fun delete_patterns :: "'r redis_call \<Rightarrow> 'r scan \<Rightarrow> nat \<Rightarrow> nat \<Rightarrow> string list \<Rightarrow> (unit, 'r conn) looping" where
  "delete_patterns call scan rounds n [] s = Some (Inr (), s)"
| "delete_patterns call scan rounds n (p # ps) s =
     thenO (deleteKeysMatching call scan rounds n p) (\<lambda>_. delete_patterns call scan rounds n ps) s"

definition rebuild_patterns :: "string list" where
  "rebuild_patterns = map (\<lambda>k. getRedisKey k @ ''*'')
     [KeyPostTimeZSet, KeyPostScoreZSet, KeyPostVotedZSetPrefix, KeyPostVoteVersionPrefix, KeyCommentZSetPrefix]"

definition PrepareVoteStateRebuild :: "'r redis_call \<Rightarrow> 'r scan \<Rightarrow> nat \<Rightarrow> nat \<Rightarrow> (unit, 'r conn) looping" where
  "PrepareVoteStateRebuild call scan rounds n =
     thenO (liftO (exec (call (XLEN (getRedisKey KeyVoteOutboxStream))))) (\<lambda>outboxLength.
     if 0 < int_reply outboxLength then liftO (raise (Wrapped ''entries remain'' ErrVoteOutboxNotEmpty))
     else
     thenO (liftO (exec (call (SET (getRedisKey KeyVoteStateStatus) VoteStateRebuilding 0)))) (\<lambda>_.
     thenO (liftO (exec (call (DEL [getRedisKey KeyPostTimeZSet, getRedisKey KeyPostScoreZSet])))) (\<lambda>_.
     delete_patterns call scan rounds n rebuild_patterns)))"

definition post_cmds :: "PostRecoverySnapshot \<Rightarrow> VoteRecoverySnapshot list \<Rightarrow> rcmd list" where
  "post_cmds post votes =
     (let postID = FormatInt (pPostID post) in
      [ZADD (getRedisKey KeyPostTimeZSet) (pCreateUnix post) postID,
       ZADD (getRedisKey KeyPostScoreZSet)
         (wrap_int 64 (pCreateUnix post + wrap_int 64 (pNetVote post * scorePerVote))) postID,
       SADD (getRedisKey (KeyCommentZSetPrefix @ FormatInt (pCommunityID post))) postID] @
      concat (map (\<lambda>vote. let userID = FormatInt (vUserID vote) in
        (if vDirection vote \<noteq> 0
         then [ZADD (getRedisKey (KeyPostVotedZSetPrefix @ postID)) (vDirection vote) userID] else []) @
        [HSET (getRedisKey (KeyPostVoteVersionPrefix @ postID)) userID (FormatInt (vVersion vote))]) votes))"

definition RestoreVoteStateBatch ::
    "'r redis_call \<Rightarrow> PostRecoverySnapshot list \<Rightarrow> VoteRecoverySnapshot list \<Rightarrow> (err, unit, 'r conn) prog" where
  "RestoreVoteStateBatch call posts votes =
     (if \<exists>v\<in>set votes. vDirection v \<notin> {-1, 0, 1} \<or> vVersion v \<le> 0
      then raise (ErrText ''invalid persisted vote'')
      else if \<exists>p\<in>set posts. pPostID p \<le> 0 \<or> pCommunityID p \<le> 0 \<or> pCreateUnix p \<le> 0
      then raise (ErrText ''invalid post recovery snapshot'')
      else thenM (exec_pipe call (concat (map (\<lambda>p. post_cmds p (filter (\<lambda>v. vPostID v = pPostID p) votes)) posts)))
             (\<lambda>_. ret ()))"

section \<open>dao/mysql/recovery.go\<close>

definition active :: "post_row \<Rightarrow> bool" where
  "active p \<longleftrightarrow> po_status p = 1"

definition CountActivePosts :: "(err, int, 'r app) prog" where
  "CountActivePosts = sql_query (\<lambda>t. int (length (filter active (t_posts t))))"

definition net_vote :: "forum_tables \<Rightarrow> int \<Rightarrow> int" where
  "net_vote t p = sum_list (map pv_direction (filter (\<lambda>v. pv_post v = p) (post_vote t)))"

definition post_snapshot :: "forum_tables \<Rightarrow> post_row \<Rightarrow> PostRecoverySnapshot" where
  "post_snapshot t p =
     \<lparr>pPostID = po_id p, pCommunityID = po_community p, pCreateUnix = po_created p, pNetVote = net_vote t (po_id p)\<rparr>"

definition recovery_batch :: "int \<Rightarrow> nat \<Rightarrow> forum_tables \<Rightarrow> PostRecoverySnapshot list" where
  "recovery_batch afterPostID limit t =
     take limit (map (post_snapshot t) (sort_key po_id (filter (\<lambda>p. active p \<and> afterPostID < po_id p) (t_posts t))))"

definition GetPostRecoveryBatch :: "int \<Rightarrow> int \<Rightarrow> (err, PostRecoverySnapshot list, 'r app) prog" where
  "GetPostRecoveryBatch afterPostID limit =
     (if limit \<le> 0 then raise (ErrText ''recovery batch size must be positive'')
      else sql_query (recovery_batch afterPostID (nat limit)))"

definition vote_snapshot :: "post_vote_row \<Rightarrow> VoteRecoverySnapshot" where
  "vote_snapshot v = \<lparr>vUserID = pv_user v, vPostID = pv_post v, vDirection = pv_direction v, vVersion = pv_version v\<rparr>"

definition recovery_votes :: "int list \<Rightarrow> forum_tables \<Rightarrow> VoteRecoverySnapshot list" where
  "recovery_votes postIDs t =
     map vote_snapshot (sort_key (\<lambda>v. (pv_post v, pv_user v)) (filter (\<lambda>v. pv_post v \<in> set postIDs) (post_vote t)))"

definition GetVoteRecoverySnapshots :: "int list \<Rightarrow> (err, VoteRecoverySnapshot list, 'r app) prog" where
  "GetVoteRecoverySnapshots postIDs =
     (if postIDs = [] then ret [] else sql_query (recovery_votes postIDs))"

section \<open>logic/recovery.go\<close>

record RedisRebuildReport =
  Posts :: int
  Votes :: int

definition EnsureRedisStateReady :: "'r redis_call \<Rightarrow> (err, unit, 'r app) prog" where
  "EnsureRedisStateReady call =
     thenM (wrap_err ''count mysql posts'' CountActivePosts) (\<lambda>databasePosts.
     thenM (wrap_err ''count redis posts'' (redisM (CountIndexedPosts call))) (\<lambda>indexedPosts.
     thenM (wrap_err ''read redis state marker'' (redisM (GetVoteStateStatus call))) (\<lambda>status.
     if status = [] \<and> databasePosts = indexedPosts
     then wrap_err ''initialize redis state marker'' (redisM (MarkVoteStateReady call))
     else if status \<noteq> VoteStateReady \<or> databasePosts \<noteq> indexedPosts
     then raise (Wrapped ''stop writers, drain RabbitMQ and run convo_rebuild_redis'' ErrRedisStateNeedsRebuild)
     else ret ())))"

fun rebuild_batches ::
    "'r redis_call \<Rightarrow> nat \<Rightarrow> int \<Rightarrow> int \<Rightarrow> RedisRebuildReport \<Rightarrow> (RedisRebuildReport, 'r app) looping" where
  "rebuild_batches call 0 batchSize afterPostID report s = None"
| "rebuild_batches call (Suc n) batchSize afterPostID report s =
     thenO (liftO (wrap_err ''read post recovery batch'' (GetPostRecoveryBatch afterPostID batchSize))) (\<lambda>posts.
     if posts = [] then liftO (ret report)
     else
     thenO (liftO (wrap_err ''read vote recovery batch'' (GetVoteRecoverySnapshots (map pPostID posts)))) (\<lambda>votes.
     thenO (liftO (wrap_err ''write redis recovery batch'' (redisM (RestoreVoteStateBatch call posts votes)))) (\<lambda>_.
     rebuild_batches call n batchSize (pPostID (last posts))
       \<lparr>Posts = Posts report + int (length posts), Votes = Votes report + int (length votes)\<rparr>))) s"

definition RebuildRedisFromMySQL ::
    "'r redis_call \<Rightarrow> 'r scan \<Rightarrow> nat \<Rightarrow> int \<Rightarrow> (RedisRebuildReport, 'r app) looping" where
  "RebuildRedisFromMySQL call scan n batchSize =
     (let size = if batchSize \<le> 0 then 500 else batchSize in
      thenO (wrapO ''prepare redis rebuild'' (redisO (PrepareVoteStateRebuild call scan n n))) (\<lambda>_.
      thenO (rebuild_batches call n size 0 \<lparr>Posts = 0, Votes = 0\<rparr>) (\<lambda>report.
      thenO (liftO (wrap_err ''verify rebuilt redis indexes'' (redisM (CountIndexedPosts call)))) (\<lambda>indexedPosts.
      if indexedPosts \<noteq> Posts report then liftO (raise (ErrText ''verify rebuilt redis indexes''))
      else thenO (liftO (wrap_err ''complete redis rebuild'' (redisM (MarkVoteStateReady call))))
             (\<lambda>_. liftO (ret report))))))"

end
