(* ===== verification/Auth.thy ===== *)
theory Auth
  imports App Http Settings
begin

text \<open>
  Signing up, logging in and out, and the check of a request: \<open>controller/user.go\<close>, \<open>logic/user.go\<close>,
  \<open>dao/mysql/user.go\<close>, \<open>dao/redis/session.go\<close>, \<open>pkg/jwt\<close>, \<open>pkg/encrypt\<close> and \<open>middlewares/auth.go\<close>. The
  libraries golang-jwt and bcrypt are parameters with the laws their documentation promises; the
  clock (nanoseconds), random bytes and new identifiers are arguments.
\<close>

section \<open>Tokens (pkg/jwt)\<close>

definition Hour :: int where "Hour = 3600000000000"
definition second_ns :: int where "second_ns = 1000000000"

record MyClaims =
  clUsername :: string
  clSessionID :: string
  clSubject :: string
  clIssuer :: string
  clIssuedAt :: "int option"
  clExpiresAt :: "int option"

text \<open>\<open>jwt_parse key methods issuer now token\<close> is \<open>ParseWithClaims\<close> with its options: the algorithm and the claims.\<close>

record jwt_lib =
  jwt_sign :: "string \<Rightarrow> MyClaims \<Rightarrow> err + string"
  jwt_parse :: "string \<Rightarrow> string list \<Rightarrow> string \<Rightarrow> int \<Rightarrow> string \<Rightarrow> (string \<times> MyClaims) option"

definition base64url_char :: "nat \<Rightarrow> char" where
  "base64url_char i = ''ABCDEFGHIJKLMNOPQRSTUVWXYZabcdefghijklmnopqrstuvwxyz0123456789-_'' ! i"

fun RawURLEncoding :: "nat list \<Rightarrow> string" where
  "RawURLEncoding (a # b # c # r) =
     [base64url_char (a div 4), base64url_char (a mod 4 * 16 + b div 16),
      base64url_char (b mod 16 * 4 + c div 64), base64url_char (c mod 64)] @ RawURLEncoding r"
| "RawURLEncoding [a, b] =
     [base64url_char (a div 4), base64url_char (a mod 4 * 16 + b div 16), base64url_char (b mod 16 * 4)]"
| "RawURLEncoding [a] = [base64url_char (a div 4), base64url_char (a mod 4 * 16)]"
| "RawURLEncoding [] = []"

definition plain_text :: "string \<Rightarrow> bool" where
  "plain_text s \<longleftrightarrow> (\<forall>c\<in>set s. 32 \<le> (of_char c :: nat) \<and> (of_char c :: nat) < 127)"

locale jwt_library =
  fixes J :: jwt_lib
  assumes jwt_options: "jwt_parse J key ms iss now tok = Some (alg, c) \<Longrightarrow>
      alg \<in> set ms \<and> clIssuer c = iss \<and> (\<forall>x. clExpiresAt c = Some x \<longrightarrow> now < x * second_ns)"
    and jwt_signed: "jwt_sign J key c = Inr tok \<Longrightarrow> ''HS256'' \<in> set ms \<Longrightarrow> clIssuer c = iss \<Longrightarrow>
      clExpiresAt c = Some x \<Longrightarrow> now < x * second_ns \<Longrightarrow> plain_text (clSubject c) \<Longrightarrow> plain_text (clSessionID c) \<Longrightarrow>
      \<exists>c'. jwt_parse J key ms iss now tok = Some (''HS256'', c') \<and> clSubject c' = clSubject c \<and> clSessionID c' = clSessionID c"

definition ExpireDuration :: "AuthConfig \<Rightarrow> int" where
  "ExpireDuration conf = wrap_int 64 (JwtExpire conf * Hour)"

text \<open>\<open>expiresAt\<close> in seconds: \<open>now\<close> and the duration, truncated to a whole second.\<close>

definition expires_at :: "AuthConfig \<Rightarrow> int \<Rightarrow> int" where
  "expires_at conf now = (now + ExpireDuration conf) div second_ns"

text \<open>\<open>time.Until\<close> saturates.\<close>

definition Until :: "int \<Rightarrow> int \<Rightarrow> int" where
  "Until now t = max (- (2 ^ 63)) (min (2 ^ 63 - 1) (t - now))"

definition GenToken ::
    "jwt_lib \<Rightarrow> AuthConfig \<Rightarrow> int \<Rightarrow> int \<Rightarrow> string \<Rightarrow> string \<Rightarrow> err + string \<times> int" where
  "GenToken J conf now userID username sessionID =
     (let c = \<lparr>clUsername = username, clSessionID = sessionID, clSubject = FormatInt userID, clIssuer = ''convo'',
               clIssuedAt = Some (now div second_ns), clExpiresAt = Some (expires_at conf now)\<rparr>
      in case jwt_sign J (JwtSecret conf) c of Inl e \<Rightarrow> Inl e | Inr tok \<Rightarrow> Inr (tok, expires_at conf now))"

definition ParseToken :: "jwt_lib \<Rightarrow> AuthConfig \<Rightarrow> int \<Rightarrow> string \<Rightarrow> err + MyClaims" where
  "ParseToken J conf now tokenString =
     (case jwt_parse J (JwtSecret conf) [''HS256''] ''convo'' now tokenString of
        None \<Rightarrow> Inl (ErrText ''invalid token'')
      | Some (alg, claims) \<Rightarrow> if alg \<noteq> ''HS256'' then Inl (ErrText ''unexpected signing method'') else Inr claims)"

section \<open>Sessions (dao/redis/session.go)\<close>

definition delete_session_script :: "'r redis_call \<Rightarrow> string \<Rightarrow> string \<Rightarrow> (string, reply, 'r) prog" where
  "delete_session_script call key sid =
     thenM (call (GET key)) (\<lambda>v. if v = RBulk sid then call (DEL [key]) else ret (RInt 0))"

text \<open>go-redis sends no expiry for a duration that is not positive, and at least one millisecond otherwise.\<close>

definition set_ttl :: "int \<Rightarrow> nat" where
  "set_ttl ttl = (if ttl \<le> 0 then 0 else max 1 (nat (ttl div 1000000)))"

definition SetSession :: "'r redis_call \<Rightarrow> int \<Rightarrow> string \<Rightarrow> int \<Rightarrow> (err, unit, 'r conn) prog" where
  "SetSession call userID sessionID ttl =
     thenM (exec (call (SET (getRedisKey (KeyAuthSessionPrefix @ FormatInt userID)) sessionID (set_ttl ttl)))) (\<lambda>_. ret ())"

definition ValidateSession :: "'r redis_call \<Rightarrow> int \<Rightarrow> string \<Rightarrow> (err, bool, 'r conn) prog" where
  "ValidateSession call userID sessionID =
     thenM (exec (call (GET (getRedisKey (KeyAuthSessionPrefix @ FormatInt userID))))) (\<lambda>value.
       case value of RNil \<Rightarrow> ret False | RBulk v \<Rightarrow> ret (v = sessionID) | _ \<Rightarrow> raise (ErrText ''unexpected reply''))"

definition DeleteSession :: "'r redis_call \<Rightarrow> int \<Rightarrow> string \<Rightarrow> (err, unit, 'r conn) prog" where
  "DeleteSession call userID sessionID =
     thenM (exec (delete_session_script call (getRedisKey (KeyAuthSessionPrefix @ FormatInt userID)) sessionID)) (\<lambda>_. ret ())"

section \<open>Users (dao/mysql/user.go) and passwords (pkg/encrypt)\<close>

record bcrypt_lib =
  bc_hash :: "nat list \<Rightarrow> string \<Rightarrow> string option"
  bc_compare :: "string \<Rightarrow> string \<Rightarrow> bool"

locale bcrypt_library =
  fixes B :: bcrypt_lib
  assumes bc_accepts: "bc_hash B salt pw = Some h \<Longrightarrow> bc_compare B h pw"

definition EncryptPassword :: "bcrypt_lib \<Rightarrow> nat list \<Rightarrow> string \<Rightarrow> err + string" where
  "EncryptPassword B salt password =
     (if length password > 72 then Inl ErrPasswordTooLong
      else case bc_hash B salt password of None \<Rightarrow> Inl (ErrText ''bcrypt'') | Some h \<Rightarrow> Inr h)"

definition ComparePassword :: "bcrypt_lib \<Rightarrow> string \<Rightarrow> string \<Rightarrow> bool" where
  "ComparePassword B hash password = bc_compare B hash password"

record User =
  uUserID :: int
  uUsername :: string
  uPassword :: string
  uToken :: string

text \<open>The names of users are compared under the collation of the column, like every string in MySQL.\<close>

definition named :: "mysql \<Rightarrow> string \<Rightarrow> user_row \<Rightarrow> bool" where
  "named M username r \<longleftrightarrow> coll M (us_name r) = coll M username"

definition CheckUserExit :: "mysql \<Rightarrow> string \<Rightarrow> (err, unit, 'r app) prog" where
  "CheckUserExit M username =
     thenM (sql_query (\<lambda>t. length (filter (named M username) (t_users t))))
       (\<lambda>count. if count > 0 then raise ErrorUserExist else ret ())"

text \<open>\<open>idx_user_id\<close> and \<open>idx_username\<close> are unique.\<close>

definition InsertUser :: "mysql \<Rightarrow> User \<Rightarrow> (err, unit, 'r app) prog" where
  "InsertUser M user =
     sqlM (\<lambda>t. if \<exists>r\<in>set (t_users t). us_id r = uUserID user \<or> named M (uUsername user) r then (Inl SqlErr, t)
               else (Inr (), t\<lparr>t_users := t_users t @
                      [\<lparr>us_id = uUserID user, us_name = uUsername user, us_password = uPassword user\<rparr>]\<rparr>))"

definition MysqlLogin :: "mysql \<Rightarrow> bcrypt_lib \<Rightarrow> User \<Rightarrow> (err, User, 'r app) prog" where
  "MysqlLogin M B user =
     thenM (sql_query (\<lambda>t. find (named M (uUsername user)) (t_users t))) (\<lambda>row.
       case row of
         None \<Rightarrow> raise ErrorUserNotExist
       | Some r \<Rightarrow>
           if \<not> ComparePassword B (us_password r) (uPassword user) then raise ErrorInvalidPassword
           else ret (user\<lparr>uUserID := us_id r, uUsername := us_name r, uPassword := us_password r\<rparr>))"

section \<open>logic/user.go\<close>

record ParamsSignUp =
  psUsername :: string
  psPassword :: string
  psRePassword :: string

record ParamsLogin =
  plUsername :: string
  plPassword :: string

definition liftE :: "err + 'a \<Rightarrow> (err, 'a, 's) prog" where
  "liftE x = (case x of Inl e \<Rightarrow> raise e | Inr y \<Rightarrow> ret y)"

definition SignUp :: "mysql \<Rightarrow> bcrypt_lib \<Rightarrow> int \<Rightarrow> nat list \<Rightarrow> ParamsSignUp \<Rightarrow> (err, unit, 'r app) prog" where
  "SignUp M B userID salt p =
     thenM (CheckUserExit M (psUsername p)) (\<lambda>_.
     thenM (liftE (EncryptPassword B salt (psPassword p))) (\<lambda>hash.
     InsertUser M \<lparr>uUserID = userID, uUsername = psUsername p, uPassword = hash, uToken = []\<rparr>))"

text \<open>\<open>rand\<close>: the 32 bytes read, if the generator works; \<open>later\<close>: the clock when \<open>time.Until\<close> reads it.\<close>

definition Login ::
    "'r redis_call \<Rightarrow> mysql \<Rightarrow> bcrypt_lib \<Rightarrow> jwt_lib \<Rightarrow> AuthConfig \<Rightarrow> int \<Rightarrow> int \<Rightarrow> nat list option \<Rightarrow> ParamsLogin
       \<Rightarrow> (err, User, 'r app) prog" where
  "Login call M B J conf now later rand p =
     thenM (MysqlLogin M B \<lparr>uUserID = 0, uUsername = plUsername p, uPassword = plPassword p, uToken = []\<rparr>) (\<lambda>user.
     case rand of
       None \<Rightarrow> raise (ErrText ''rand'')
     | Some sessionBytes \<Rightarrow>
         let sessionID = RawURLEncoding sessionBytes in
         thenM (liftE (GenToken J conf now (uUserID user) (uUsername user) sessionID)) (\<lambda>(token, expiresAt).
         thenM (redisM (SetSession call (uUserID user) sessionID (Until later (expiresAt * second_ns)))) (\<lambda>_.
         ret (user\<lparr>uToken := token\<rparr>))))"

definition Logout :: "'r redis_call \<Rightarrow> int \<Rightarrow> string \<Rightarrow> (err, unit, 'r conn) prog" where
  "Logout call userID sessionID = DeleteSession call userID sessionID"

section \<open>middlewares/auth.go\<close>

text \<open>\<open>strings.SplitN(s, " ", 2)\<close>.\<close>

fun SplitN2 :: "char \<Rightarrow> string \<Rightarrow> string list" where
  "SplitN2 sep [] = [[]]"
| "SplitN2 sep (c # s) =
     (if c = sep then [[], s] else case SplitN2 sep s of p # ps \<Rightarrow> (c # p) # ps | [] \<Rightarrow> [])"

definition JWTAuthMiddleware ::
    "'r redis_call \<Rightarrow> jwt_lib \<Rightarrow> AuthConfig \<Rightarrow> int \<Rightarrow> gin_ctx \<Rightarrow> 'r conn \<Rightarrow> 'd middleware \<times> 'r conn" where
  "JWTAuthMiddleware call J conf now c s =
     (let authHeader = ctx_header c ''Authorization'' in
      if authHeader = [] then (Abort [] (ResponseError CodeNeedLogin), s)
      else case SplitN2 CHR '' '' authHeader of
        [kind, tokenString] \<Rightarrow>
          if kind \<noteq> ''Bearer'' then (Abort [] (ResponseError CodeValidToken), s)
          else (case ParseToken J conf now tokenString of
            Inl _ \<Rightarrow> (Abort [] (ResponseError CodeValidToken), s)
          | Inr mc \<Rightarrow>
              (case ParseInt 64 (clSubject mc) of
                Inl _ \<Rightarrow> (Abort [] (ResponseError CodeValidToken), s)
              | Inr userID \<Rightarrow>
                  if clSessionID mc = [] then (Abort [] (ResponseError CodeValidToken), s)
                  else (case ValidateSession call userID (clSessionID mc) s of
                    (Inl _, s') \<Rightarrow> (Abort [] (ResponseError CodeAuthUnavailable), s')
                  | (Inr valid, s') \<Rightarrow>
                      if \<not> valid then (Abort [] (ResponseError CodeValidToken), s')
                      else (Next (ctx_set CtxtSessionIDKey (CtxString (clSessionID mc))
                                   (ctx_set CtxtUserIDKey (CtxInt64 userID) c)), s'))))
      | _ \<Rightarrow> (Abort [] (ResponseError CodeValidToken), s))"

section \<open>controller/user.go\<close>

record login_answer =
  laUserID :: string
  laUsername :: string
  laToken :: string

definition SignUpHandler ::
    "mysql \<Rightarrow> bcrypt_lib \<Rightarrow> int \<Rightarrow> nat list \<Rightarrow> ParamsSignUp bind \<Rightarrow> 'r app \<Rightarrow> 'd ResponseData \<times> 'r app" where
  "SignUpHandler M B userID salt body s =
     (case body of
        BindErr \<Rightarrow> (ResponseError CodeInvalidParam, s)
      | BindInvalid errs \<Rightarrow> (ResponseErrorWithMsg CodeInvalidPassword (MsgFields errs), s)
      | BindOk p \<Rightarrow>
          (case SignUp M B userID salt p s of
             (Inl err, s') \<Rightarrow>
               (if errors_is err ErrorUserExist then ResponseError CodeUserExist
                else if errors_is err ErrPasswordTooLong then ResponseError CodeInvalidPassword
                else ResponseError CodeServerBusy, s')
           | (Inr _, s') \<Rightarrow> (ResponseSuccess None, s')))"

definition LoginHandler ::
    "'r redis_call \<Rightarrow> mysql \<Rightarrow> bcrypt_lib \<Rightarrow> jwt_lib \<Rightarrow> AuthConfig \<Rightarrow> int \<Rightarrow> int \<Rightarrow> nat list option \<Rightarrow> ParamsLogin bind
       \<Rightarrow> 'r app \<Rightarrow> login_answer ResponseData \<times> 'r app" where
  "LoginHandler call M B J conf now later rand body s =
     (case body of
        BindErr \<Rightarrow> (ResponseError CodeInvalidParam, s)
      | BindInvalid errs \<Rightarrow> (ResponseErrorWithMsg CodeInvalidParam (MsgFields errs), s)
      | BindOk p \<Rightarrow>
          (case Login call M B J conf now later rand p s of
             (Inl err, s') \<Rightarrow>
               (if errors_is err ErrorUserNotExist \<or> errors_is err ErrorInvalidPassword then ResponseError CodeInvalidPassword
                else ResponseError CodeServerBusy, s')
           | (Inr user, s') \<Rightarrow>
               (ResponseSuccess (Some \<lparr>laUserID = FormatInt (uUserID user), laUsername = uUsername user, laToken = uToken user\<rparr>), s')))"

definition LogoutHandler :: "'r redis_call \<Rightarrow> gin_ctx \<Rightarrow> 'r conn \<Rightarrow> 'd ResponseData \<times> 'r conn" where
  "LogoutHandler call c s =
     (case getCurrentUserID c of
        Inl _ \<Rightarrow> (ResponseError CodeNeedLogin, s)
      | Inr userID \<Rightarrow>
          (case getCurrentSessionID c of
             Inl _ \<Rightarrow> (ResponseError CodeValidToken, s)
           | Inr sessionID \<Rightarrow>
               (case Logout call userID sessionID s of
                  (Inl _, s') \<Rightarrow> (ResponseError CodeServerBusy, s')
                | (Inr _, s') \<Rightarrow> (ResponseSuccess None, s'))))"

section \<open>What the operations do to the sessions\<close>

definition session_of :: "keyspace \<Rightarrow> int \<Rightarrow> string option" where
  "session_of ks u = (case ks (session_key (FormatInt u)) of Some (VStr s) \<Rightarrow> Some s | _ \<Rightarrow> None)"

lemma session_of_upd [simp]:
  "session_of (ks(session_key (FormatInt u) \<mapsto> VStr sid)) v = (if v = u then Some sid else session_of ks v)"
  by (simp add: session_of_def)

lemma base64url_plain: "i < 64 \<Longrightarrow> 32 \<le> (of_char (base64url_char i) :: nat) \<and> (of_char (base64url_char i) :: nat) < 127"
proof -
  have "list_all (\<lambda>c. 32 \<le> (of_char c :: nat) \<and> (of_char c :: nat) < 127)
     ''ABCDEFGHIJKLMNOPQRSTUVWXYZabcdefghijklmnopqrstuvwxyz0123456789-_''" by code_simp
  then show "i < 64 \<Longrightarrow> 32 \<le> (of_char (base64url_char i) :: nat) \<and> (of_char (base64url_char i) :: nat) < 127"
    unfolding base64url_char_def list_all_length by simp
qed

lemma sextet:
  fixes a b c :: nat
  shows "a < 256 \<Longrightarrow> a div 4 < 64" "b < 256 \<Longrightarrow> a mod 4 * 16 + b div 16 < 64"
    "c < 256 \<Longrightarrow> b mod 16 * 4 + c div 64 < 64" "b mod 16 * 4 < 64" "a mod 4 * 16 < 64"
proof -
  have m: "a mod 4 < 4" "b mod 16 < 16" by simp_all
  show "b mod 16 * 4 < 64" "a mod 4 * 16 < 64" using m by linarith+
  show "a < 256 \<Longrightarrow> a div 4 < 64" by (rule less_mult_imp_div_less) simp
  show "a mod 4 * 16 + b div 16 < 64" if "b < 256"
    using m(1) less_mult_imp_div_less [of b 16 16] that by linarith
  show "b mod 16 * 4 + c div 64 < 64" if "c < 256"
    using m(2) less_mult_imp_div_less [of c 4 64] that by linarith
qed

lemma RawURLEncoding_plain: "\<forall>b\<in>set bs. b < 256 \<Longrightarrow> plain_text (RawURLEncoding bs)"
  unfolding plain_text_def
  by (induction bs rule: RawURLEncoding.induct)
     (simp_all only: RawURLEncoding.simps, auto simp del: of_char_eq_iff
       simp: base64url_plain [THEN conjunct1] base64url_plain [THEN conjunct2] sextet)

lemma RawURLEncoding_ne: "bs \<noteq> [] \<Longrightarrow> RawURLEncoding bs \<noteq> []"
  by (cases bs rule: RawURLEncoding.cases) simp_all

lemma FormatInt_plain: "plain_text (FormatInt i)"
proof -
  have "32 \<le> (of_char c :: nat) \<and> (of_char c :: nat) < 127" if "c \<in> set (nat_decimal n)" for c n
    using nat_decimal_digits [OF that] by (auto simp: is_digit_def digit_val_def Let_def split: if_splits)
  then show ?thesis by (auto simp: plain_text_def FormatInt_def)
qed

lemma SplitN2_Cons: "SplitN2 sep s = [a, b] \<Longrightarrow> s = a @ [sep] @ b"
  by (induction s arbitrary: a) (auto split: if_splits list.splits)

lemma SplitN2_append: "sep \<notin> set a \<Longrightarrow> SplitN2 sep (a @ [sep] @ b) = [a, b]"
  by (induction a) auto

context redis_server
begin

lemma ValidateSession_run:
  assumes "ValidateSession call u sid s = (res, s')"
  shows "db (srv s') = db (srv s)" "\<And>v. res = Inr v \<Longrightarrow> v \<longleftrightarrow> session_of (db (srv s)) u = Some sid"
    "fates s = [] \<Longrightarrow> session_of (db (srv s)) u = Some sid \<Longrightarrow> res = Inr True"
proof -
  let ?k = "session_key (FormatInt u)"
  obtain r c where r: "exec (call (GET ?k)) s = (r, c)" by fastforce
  have get: "db (snd (call (GET ?k) (srv s))) = db (srv s)"
    by (auto simp: call_db split: option.splits rvalue.splits)
  have c: "db (srv c) = db (srv s)" "isl r \<or> r = lift_reply (fst (call (GET ?k) (srv s)))"
    using exec_srv [OF r] get by auto
  have s': "s' = c" using assms r by (auto simp: ValidateSession_def thenM_def split: sum.splits reply.splits)
  then show "db (srv s') = db (srv s)" using c(1) by simp
  show "v \<longleftrightarrow> session_of (db (srv s)) u = Some sid" if "res = Inr v" for v
    using assms r c(2) that
    by (auto simp: ValidateSession_def thenM_def session_of_def call_reply isl_def
        split: sum.splits reply.splits option.splits rvalue.splits)
  show "res = Inr True" if "fates s = []" "session_of (db (srv s)) u = Some sid"
    using assms that
    by (auto simp: ValidateSession_def thenM_def exec_no_fault session_of_def call_reply
        split: option.splits rvalue.splits)
qed

lemma SetSession_run:
  assumes "SetSession call u sid ttl s = (res, s')"
  shows "db (srv s') = (db (srv s))(session_key (FormatInt u) \<mapsto> VStr sid) \<or> isl res \<and> db (srv s') = db (srv s)"
proof -
  obtain r c where r: "exec (call (SET (session_key (FormatInt u)) sid (set_ttl ttl))) s = (r, c)" by fastforce
  have "s' = c" "isl res \<longleftrightarrow> isl r" using assms r by (auto simp: SetSession_def thenM_def split: sum.splits)
  with exec_srv [OF r] show ?thesis by (auto simp: call_db)
qed

lemma DeleteSession_run:
  assumes "DeleteSession call u sid s = (res, s')"
  defines "ks' \<equiv> if session_of (db (srv s)) u = Some sid then (db (srv s))(session_key (FormatInt u) := None) else db (srv s)"
  shows "db (srv s') = ks' \<or> isl res \<and> db (srv s') = db (srv s)"
proof -
  let ?k = "session_key (FormatInt u)"
  have script: "db (snd (delete_session_script call ?k sid (srv s))) = ks'"
    by (auto simp: delete_session_script_def thenM_run call_db call_reply session_of_def ks'_def fun_eq_iff
        split: sum.splits option.splits rvalue.splits)
  obtain r c where r: "exec (delete_session_script call ?k sid) s = (r, c)" by fastforce
  have "s' = c" "isl res \<longleftrightarrow> isl r" using assms(1) r by (auto simp: DeleteSession_def thenM_def split: sum.splits)
  with exec_srv [OF r] script show ?thesis by auto
qed

end

end
