(* ===== verification/Posts.thy ===== *)
theory Posts
  imports Recovery Auth
begin

text \<open>
  Posts: \<open>logic/post.go\<close>, \<open>logic/vote.go\<close> and \<open>logic/community.go\<close> with \<open>dao/redis/post.go\<close>,
  \<open>dao/redis/post_cache.go\<close>, \<open>dao/mysql/post.go\<close>, \<open>dao/mysql/community.go\<close> and the rest of
  \<open>dao/mysql/user.go\<close>, and their handlers in \<open>controller\<close>. A row of a table is also the Go struct it is
  read into. The JSON text of a cached post is a parameter with the round trip as its law; clocks and new
  identifiers are arguments. A handler runs without interruption here, so \<open>singleflight\<close> runs its function;
  PostCache has its calls among those of other requests.
\<close>

section \<open>Data (models/post.go, models/params.go)\<close>

record ApiPostDetail =
  adAuthorName :: string
  adVoteNum :: int
  adPost :: post_row
  adCommunity :: community_row

record CachedPostDetail =
  cdAuthorName :: string
  cdPost :: post_row
  cdCommunity :: community_row

record ParamsPostList =
  lpCommunityID :: int
  lpPage :: int
  lpSize :: int
  lpOrder :: string

definition OrderTime :: string where "OrderTime = ''Time''"
definition OrderScore :: string where "OrderScore = ''score''"

section \<open>dao/redis/post.go\<close>

definition reply_members :: "reply \<Rightarrow> string list" where
  "reply_members x = (case x of RArray xs \<Rightarrow> map (\<lambda>y. case y of RBulk s \<Rightarrow> s | _ \<Rightarrow> []) xs | _ \<Rightarrow> [])"

definition getIDsFormKey :: "'r redis_call \<Rightarrow> string \<Rightarrow> int \<Rightarrow> int \<Rightarrow> (err, string list, 'r conn) prog" where
  "getIDsFormKey call key page sz =
     (let start = wrap_int 64 ((page - 1) * sz);
          stop = wrap_int 64 (start + sz - 1)
      in thenM (exec (call (ZREVRANGE key start stop))) (\<lambda>x. ret (reply_members x)))"

definition order_key :: "string \<Rightarrow> string" where
  "order_key order = getRedisKey (if order = OrderScore then KeyPostScoreZSet else KeyPostTimeZSet)"

definition GetPostIDsInOrder :: "'r redis_call \<Rightarrow> ParamsPostList \<Rightarrow> (err, string list, 'r conn) prog" where
  "GetPostIDsInOrder call p =
     thenM (EnsureVoteStateReadable call) (\<lambda>_. getIDsFormKey call (order_key (lpOrder p)) (lpPage p) (lpSize p))"

definition GetPostVoteData :: "'r redis_call \<Rightarrow> string list \<Rightarrow> (err, int list, 'r conn) prog" where
  "GetPostVoteData call ids =
     thenM (exec_tx call (map (\<lambda>i. ZCOUNT (getRedisKey (KeyPostVotedZSetPrefix @ i)) 1 1) ids))
       (\<lambda>rs. ret (map int_reply rs))"

text \<open>\<open>client.Exists(key).Val()\<close>: an error counts as 0.\<close>

definition exists_val :: "'r redis_call \<Rightarrow> string \<Rightarrow> (err, int, 'r conn) prog" where
  "exists_val call key s =
     (case exec (call (EXISTS key)) s of (Inl _, s') \<Rightarrow> (Inr 0, s') | (Inr x, s') \<Rightarrow> (Inr (int_reply x), s'))"

definition GetCommunityPostIDsInOrder :: "'r redis_call \<Rightarrow> ParamsPostList \<Rightarrow> (err, string list, 'r conn) prog" where
  "GetCommunityPostIDsInOrder call p =
     thenM (EnsureVoteStateReadable call) (\<lambda>_.
       let orderKey = order_key (lpOrder p);
           cKey = getRedisKey (KeyCommentZSetPrefix @ FormatInt (lpCommunityID p));
           key = orderKey @ FormatInt (lpCommunityID p)
       in thenM (exists_val call key) (\<lambda>n.
          thenM (if n < 1 then thenM (exec_pipe call [ZINTERSTORE_MAX key cKey orderKey, PEXPIRE key 60000]) (\<lambda>_. ret ())
                 else ret ()) (\<lambda>_.
          getIDsFormKey call key (lpPage p) (lpSize p))))"

section \<open>dao/redis/post_cache.go\<close>

record cache_codec =
  json_marshal :: "CachedPostDetail \<Rightarrow> string"
  json_unmarshal :: "string \<Rightarrow> CachedPostDetail option"

locale json_cache =
  fixes J :: cache_codec
  assumes marshal_unmarshal: "json_unmarshal J (json_marshal J d) = Some d"

definition postCacheKey :: "int \<Rightarrow> string" where
  "postCacheKey postID = getRedisKey (KeyPostCachePrefix @ FormatInt postID @ '':v1'')"

definition GetPostDetailCache :: "'r redis_call \<Rightarrow> cache_codec \<Rightarrow> int \<Rightarrow> (err, CachedPostDetail, 'r conn) prog" where
  "GetPostDetailCache call J postID =
     thenM (exec (call (GET (postCacheKey postID)))) (\<lambda>data.
       case data of
         RNil \<Rightarrow> raise RedisNil
       | RBulk s \<Rightarrow> (case json_unmarshal J s of None \<Rightarrow> raise (ErrText ''json'') | Some d \<Rightarrow> ret d)
       | _ \<Rightarrow> raise (ErrText ''unexpected reply''))"

definition SetPostDetailCache :: "'r redis_call \<Rightarrow> cache_codec \<Rightarrow> int \<Rightarrow> CachedPostDetail \<Rightarrow> int \<Rightarrow> (err, unit, 'r conn) prog" where
  "SetPostDetailCache call J postID detail ttl =
     thenM (exec (call (SET (postCacheKey postID) (json_marshal J detail) (set_ttl ttl)))) (\<lambda>_. ret ())"

definition DeletePostDetailCache :: "'r redis_call \<Rightarrow> int \<Rightarrow> (err, unit, 'r conn) prog" where
  "DeletePostDetailCache call postID = thenM (exec (call (DEL [postCacheKey postID]))) (\<lambda>_. ret ())"

definition GetPostVoteCount :: "'r redis_call \<Rightarrow> int \<Rightarrow> (err, int, 'r conn) prog" where
  "GetPostVoteCount call postID =
     thenM (EnsureVoteStateReadable call) (\<lambda>_.
     let post = FormatInt postID in
     thenM (exec (call (ZSCORE (getRedisKey KeyPostTimeZSet) post))) (\<lambda>x.
     if x = RNil then raise ErrPostNotInitialized
     else thenM (exec (call (ZCOUNT (getRedisKey (KeyPostVotedZSetPrefix @ post)) 1 1))) (\<lambda>n. ret (int_reply n))))"

section \<open>dao/mysql/post.go\<close>

text \<open>\<open>idx_post_id\<close> is unique; the status is 1 and both times are the server's clock by default.\<close>

definition MysqlCreatePost :: "int \<Rightarrow> post_row \<Rightarrow> (err, unit, 'r app) prog" where
  "MysqlCreatePost now p =
     sqlM (\<lambda>t. if po_id p \<in> po_id ` set (t_posts t) then (Inl SqlErr, t)
               else (Inr (), t\<lparr>t_posts := t_posts t @ [p\<lparr>po_status := 1, po_created := now, po_updated := now\<rparr>]\<rparr>))"

definition post_detail :: "forum_tables \<Rightarrow> int \<Rightarrow> ApiPostDetail option" where
  "post_detail t postID =
     (case find (\<lambda>p. po_id p = postID \<and> active p) (t_posts t) of
        None \<Rightarrow> None
      | Some p \<Rightarrow>
          (case (find (\<lambda>u. us_id u = po_author p) (t_users t), find (\<lambda>c. co_id c = po_community p) (t_communities t)) of
             (Some u, Some c) \<Rightarrow> Some \<lparr>adAuthorName = us_name u, adVoteNum = 0, adPost = p, adCommunity = c\<rparr>
           | _ \<Rightarrow> None))"

definition GetPostDetailByID :: "int \<Rightarrow> (err, ApiPostDetail, 'r app) prog" where
  "GetPostDetailByID postID =
     thenM (sql_query (\<lambda>t. post_detail t postID)) (\<lambda>row. case row of None \<Rightarrow> raise SqlNoRows | Some d \<Rightarrow> ret d)"

text \<open>A row that keeps its values does not count as affected, and its \<open>update_time\<close> stays.\<close>

definition edit_post :: "int \<Rightarrow> int \<Rightarrow> int \<Rightarrow> string \<Rightarrow> string \<Rightarrow> post_row \<Rightarrow> post_row" where
  "edit_post now postID authorID title content p =
     (if po_id p = postID \<and> po_author p = authorID \<and> active p \<and> (po_title p \<noteq> title \<or> po_content p \<noteq> content)
      then p\<lparr>po_title := title, po_content := content, po_updated := now\<rparr> else p)"

definition MysqlUpdatePost :: "int \<Rightarrow> int \<Rightarrow> int \<Rightarrow> string \<Rightarrow> string \<Rightarrow> (err, bool, 'r app) prog" where
  "MysqlUpdatePost now postID authorID title content =
     sqlM (\<lambda>t. (Inr (\<exists>p\<in>set (t_posts t). po_id p = postID \<and> po_author p = authorID \<and> active p \<and>
                        (po_title p \<noteq> title \<or> po_content p \<noteq> content)),
                t\<lparr>t_posts := map (edit_post now postID authorID title content) (t_posts t)\<rparr>))"

definition GetPostAuthorID :: "int \<Rightarrow> (err, int, 'r app) prog" where
  "GetPostAuthorID postID =
     thenM (sql_query (\<lambda>t. find (\<lambda>p. po_id p = postID \<and> active p) (t_posts t)))
       (\<lambda>row. case row of None \<Rightarrow> raise SqlNoRows | Some p \<Rightarrow> ret (po_author p))"

text \<open>\<open>FIND_IN_SET\<close> counts from 1 and gives 0 when the string is not there.\<close>

fun find_in_set :: "string \<Rightarrow> string list \<Rightarrow> nat" where
  "find_in_set s [] = 0"
| "find_in_set s (x # xs) = (if x = s then 1 else case find_in_set s xs of 0 \<Rightarrow> 0 | Suc n \<Rightarrow> Suc (Suc n))"

definition posts_by_ids :: "mysql \<Rightarrow> string list \<Rightarrow> forum_tables \<Rightarrow> post_row list" where
  "posts_by_ids M ids t =
     sort_key (\<lambda>p. find_in_set (FormatInt (po_id p)) ids)
       (filter (\<lambda>p. list_ex (\<lambda>i. sql_bigint M i = Some (po_id p)) ids) (t_posts t))"

definition GetPostListByIds :: "mysql \<Rightarrow> string list \<Rightarrow> (err, post_row list, 'r app) prog" where
  "GetPostListByIds M ids =
     (if ids = [] then raise (ErrText ''sqlx: empty slice'') else sql_query (posts_by_ids M ids))"

section \<open>dao/mysql/user.go and dao/mysql/community.go, by identifiers\<close>

fun remdups_fwd :: "'a list \<Rightarrow> 'a list \<Rightarrow> 'a list" where
  "remdups_fwd seen [] = []"
| "remdups_fwd seen (x # xs) = (if x \<in> set seen then remdups_fwd seen xs else x # remdups_fwd (x # seen) xs)"

fun user_batches :: "int list list \<Rightarrow> (err, user_row list, 'r app) prog" where
  "user_batches [] = ret []"
| "user_batches (b # bs) =
     thenM (sql_query (\<lambda>t. filter (\<lambda>u. us_id u \<in> set b) (t_users t))) (\<lambda>us.
     thenM (user_batches bs) (\<lambda>rest. ret (us @ rest)))"

definition GetUsersByIDs :: "int list \<Rightarrow> (err, user_row list, 'r app) prog" where
  "GetUsersByIDs uids =
     (let uniqueUIDs = remdups_fwd [] uids in user_batches (chunks (length uniqueUIDs) 500 uniqueUIDs))"

definition GetCommunityDetailsByIDs :: "int list \<Rightarrow> (err, community_row list, 'r app) prog" where
  "GetCommunityDetailsByIDs ids =
     (if ids = [] then ret [] else sql_query (\<lambda>t. filter (\<lambda>c. co_id c \<in> set ids) (t_communities t)))"

definition GetCommunityList :: "(err, (int \<times> string) list, 'r app) prog" where
  "GetCommunityList = sql_query (\<lambda>t. map (\<lambda>c. (co_id c, co_name c)) (t_communities t))"

definition GetCommunityDetailByID :: "int \<Rightarrow> (err, community_row, 'r app) prog" where
  "GetCommunityDetailByID cid =
     thenM (sql_query (\<lambda>t. find (\<lambda>c. co_id c = cid) (t_communities t)))
       (\<lambda>row. case row of None \<Rightarrow> raise ErrorInvalidID | Some c \<Rightarrow> ret c)"

section \<open>logic/post.go\<close>

text \<open>The three attempts; \<open>nows\<close> are the clock's seconds at each of them.\<close>

fun create_attempts :: "'r redis_call \<Rightarrow> int list \<Rightarrow> post_row \<Rightarrow> (err, unit, 'r conn) prog" where
  "create_attempts call [] p s = (Inr (), s)"
| "create_attempts call (now # nows) p s =
     (case RedisCreatePost call now (po_id p) (po_community p) s of
        (Inr _, s') \<Rightarrow> (Inr (), s')
      | (Inl e, s') \<Rightarrow> if nows = [] then (Inl e, s') else create_attempts call nows p s')"

definition LogicCreatePost ::
    "'r redis_call \<Rightarrow> int \<Rightarrow> int \<Rightarrow> int \<times> int \<times> int \<Rightarrow> post_row \<Rightarrow> (err, post_row, 'r app) prog" where
  "LogicCreatePost call newID now nows p =
     (case nows of (n1, n2, n3) \<Rightarrow>
      let p = p\<lparr>po_id := newID\<rparr> in
      thenM (wrap_err ''redis post index is unavailable'' (redisM (EnsureVoteStateReadable call))) (\<lambda>_.
      thenM (MysqlCreatePost now p) (\<lambda>_.
      thenM (wrap_err ''run the offline redis rebuild'' (redisM (create_attempts call [n1, n2, n3] p))) (\<lambda>_.
      ret p))))"

definition cached_detail :: "ApiPostDetail \<Rightarrow> CachedPostDetail" where
  "cached_detail d = \<lparr>cdAuthorName = adAuthorName d, cdPost = adPost d, cdCommunity = adCommunity d\<rparr>"

definition not_found :: "(err, 'a, 's) prog \<Rightarrow> (err, 'a, 's) prog" where
  "not_found m s = (case m s of (Inl e, s') \<Rightarrow> (Inl (if errors_is e SqlNoRows then ErrPostNotFound else e), s') | (Inr x, s') \<Rightarrow> (Inr x, s'))"

definition catchM :: "(err, 'a, 's) prog \<Rightarrow> (err \<Rightarrow> (err, 'b, 's) prog) \<Rightarrow> ('a \<Rightarrow> (err, 'b, 's) prog) \<Rightarrow> (err, 'b, 's) prog" where
  "catchM m h f s = (case m s of (Inl e, s') \<Rightarrow> h e s' | (Inr x, s') \<Rightarrow> f x s')"

definition post_base :: "'r redis_call \<Rightarrow> cache_codec \<Rightarrow> CacheConfig \<Rightarrow> int \<Rightarrow> (err, ApiPostDetail, 'r app) prog" where
  "post_base call J conf pid =
     catchM (redisM (GetPostDetailCache call J pid))
       (\<lambda>err.
         if err = RedisNil then
           thenM (not_found (GetPostDetailByID pid)) (\<lambda>data.
           catchM (redisM (SetPostDetailCache call J pid (cached_detail data)
                             (wrap_int 64 (PostDetailTTLSeconds conf * second_ns))))
             (\<lambda>_. ret data) (\<lambda>_. ret data))
         else not_found (GetPostDetailByID pid))
       (\<lambda>cached. ret \<lparr>adAuthorName = cdAuthorName cached, adVoteNum = 0, adPost = cdPost cached, adCommunity = cdCommunity cached\<rparr>)"

definition LogicGetPostById :: "'r redis_call \<Rightarrow> cache_codec \<Rightarrow> CacheConfig \<Rightarrow> int \<Rightarrow> (err, ApiPostDetail, 'r app) prog" where
  "LogicGetPostById call J conf pid =
     thenM (post_base call J conf pid) (\<lambda>data.
     thenM (catchM (redisM (GetPostVoteCount call pid)) (\<lambda>_. sql_query (CountPostUpVotes pid)) ret) (\<lambda>voteCount.
     ret (data\<lparr>adVoteNum := voteCount\<rparr>)))"

text \<open>The result says whether the second deletion of the cache entry has been scheduled.\<close>

definition LogicUpdatePost ::
    "'r redis_call \<Rightarrow> int \<Rightarrow> int \<Rightarrow> int \<Rightarrow> string \<Rightarrow> string \<Rightarrow> (err, bool, 'r app) prog" where
  "LogicUpdatePost call now postID authorID title content =
     thenM (MysqlUpdatePost now postID authorID title content) (\<lambda>updated.
     if \<not> updated then
       thenM (not_found (GetPostAuthorID postID)) (\<lambda>ownerID.
       if ownerID \<noteq> authorID then raise ErrForbidden else ret False)
     else catchM (redisM (DeletePostDetailCache call postID)) (\<lambda>_. ret True) (\<lambda>_. ret True))"

fun detail_rows ::
    "(int \<rightharpoonup> string) \<Rightarrow> (int \<rightharpoonup> community_row) \<Rightarrow> int list \<Rightarrow> nat \<Rightarrow> post_row list \<Rightarrow> ApiPostDetail list" where
  "detail_rows userNameMap communityMap voteData idx [] = []"
| "detail_rows userNameMap communityMap voteData idx (post # posts) =
     (case userNameMap (po_author post) of
        None \<Rightarrow> []
      | Some userName \<Rightarrow>
          (case communityMap (po_community post) of
             None \<Rightarrow> []
           | Some community \<Rightarrow>
               [\<lparr>adAuthorName = userName, adVoteNum = if idx < length voteData then voteData ! idx else 0,
                 adPost = post, adCommunity = community\<rparr>])) @
     detail_rows userNameMap communityMap voteData (Suc idx) posts"

definition buildPostDetails ::
    "'r redis_call \<Rightarrow> post_row list \<Rightarrow> string list \<Rightarrow> (err, ApiPostDetail list, 'r app) prog" where
  "buildPostDetails call posts ids =
     (if posts = [] then ret []
      else
      thenM (redisM (GetPostVoteData call ids)) (\<lambda>voteData.
      thenM (GetUsersByIDs (remdups_fwd [] (map po_author posts))) (\<lambda>users.
      thenM (GetCommunityDetailsByIDs (remdups_fwd [] (map po_community posts))) (\<lambda>communities.
      ret (detail_rows (map_of (map (\<lambda>u. (us_id u, us_name u)) (rev users)))
             (map_of (map (\<lambda>c. (co_id c, c)) (rev communities))) voteData 0 posts)))))"

definition GetPostListTwo :: "'r redis_call \<Rightarrow> mysql \<Rightarrow> ParamsPostList \<Rightarrow> (err, ApiPostDetail list, 'r app) prog" where
  "GetPostListTwo call M p =
     thenM (redisM (GetPostIDsInOrder call p)) (\<lambda>ids.
     if ids = [] then ret []
     else thenM (GetPostListByIds M ids) (\<lambda>posts. buildPostDetails call posts ids))"

definition GetCommunityPostList :: "'r redis_call \<Rightarrow> mysql \<Rightarrow> ParamsPostList \<Rightarrow> (err, ApiPostDetail list, 'r app) prog" where
  "GetCommunityPostList call M p =
     thenM (redisM (GetCommunityPostIDsInOrder call p)) (\<lambda>ids.
     if ids = [] then ret []
     else thenM (GetPostListByIds M ids) (\<lambda>posts. buildPostDetails call posts ids))"

definition GetPostListNew :: "'r redis_call \<Rightarrow> mysql \<Rightarrow> ParamsPostList \<Rightarrow> (err, ApiPostDetail list, 'r app) prog" where
  "GetPostListNew call M p = (if lpCommunityID p = 0 then GetPostListTwo call M p else GetCommunityPostList call M p)"

section \<open>logic/vote.go\<close>

record ParamsVoteData =
  vdPostID :: int
  vdDirection :: int

definition LogicVoteForPost ::
    "'r redis_call \<Rightarrow> int \<Rightarrow> int \<Rightarrow> int \<Rightarrow> ParamsVoteData \<Rightarrow> (err, VoteResult, 'r conn) prog" where
  "LogicVoteForPost call userID newID now p =
     thenM (EnsureVoteStateReadable call) (\<lambda>_.
       VoteForPost call (FormatInt userID) (FormatInt (vdPostID p)) (vdDirection p) (FormatInt newID) now)"

definition LogicGetCommunityDetail :: "int \<Rightarrow> (err, community_row, 'r app) prog" where
  "LogicGetCommunityDetail cid = GetCommunityDetailByID cid"

section \<open>controller/community.go\<close>

definition CommunityHandler :: "'r app \<Rightarrow> (int \<times> string) list ResponseData \<times> 'r app" where
  "CommunityHandler s =
     (case GetCommunityList s of
        (Inl _, s') \<Rightarrow> (ResponseError CodeServerBusy, s') | (Inr data, s') \<Rightarrow> (ResponseSuccess (Some data), s'))"

definition CommunityDetailHandler :: "gin_ctx \<Rightarrow> 'r app \<Rightarrow> community_row ResponseData \<times> 'r app" where
  "CommunityDetailHandler c s =
     (case ParseInt 64 (ctx_param c ''id'') of
        Inl _ \<Rightarrow> (ResponseError CodeInvalidParam, s)
      | Inr cid \<Rightarrow>
          (case LogicGetCommunityDetail cid s of
             (Inl _, s') \<Rightarrow> (ResponseError CodeServerBusy, s') | (Inr data, s') \<Rightarrow> (ResponseSuccess (Some data), s')))"

section \<open>controller/post.go and controller/vote.go\<close>

record ParamsCreatePost =
  cpCommunityID :: int
  cpTitle :: string
  cpContent :: string

record ParamsUpdatePost =
  upTitle :: string
  upContent :: string

definition CreatePostHandler ::
    "'r redis_call \<Rightarrow> int \<Rightarrow> int \<Rightarrow> int \<times> int \<times> int \<Rightarrow> gin_ctx \<Rightarrow> ParamsCreatePost bind \<Rightarrow> 'r app
       \<Rightarrow> string ResponseData \<times> 'r app" where
  "CreatePostHandler call newID now nows c body s =
     (case body of
        BindOk params \<Rightarrow>
          (case getCurrentUserID c of
             Inl _ \<Rightarrow> (ResponseError CodeNeedLogin, s)
           | Inr userID \<Rightarrow>
               (case LogicCreatePost call newID now nows
                       \<lparr>po_id = 0, po_author = userID, po_community = cpCommunityID params, po_status = 0,
                        po_title = cpTitle params, po_content = cpContent params, po_created = 0, po_updated = 0\<rparr> s of
                  (Inl _, s') \<Rightarrow> (ResponseError CodeServerBusy, s')
                | (Inr p, s') \<Rightarrow> (ResponseSuccess (Some (FormatInt (po_id p))), s')))
      | _ \<Rightarrow> (ResponseError CodeInvalidParam, s))"

definition GetPostDetailHandler ::
    "'r redis_call \<Rightarrow> cache_codec \<Rightarrow> CacheConfig \<Rightarrow> gin_ctx \<Rightarrow> 'r app \<Rightarrow> ApiPostDetail ResponseData \<times> 'r app" where
  "GetPostDetailHandler call J conf c s =
     (case ParseInt 64 (ctx_param c ''id'') of
        Inl _ \<Rightarrow> (ResponseError CodeInvalidParam, s)
      | Inr pid \<Rightarrow>
          if pid \<le> 0 then (ResponseError CodeInvalidParam, s)
          else (case LogicGetPostById call J conf pid s of
                  (Inl err, s') \<Rightarrow>
                    (if errors_is err ErrPostNotFound then ResponseError CodePostNotFound else ResponseError CodeServerBusy, s')
                | (Inr data, s') \<Rightarrow> (ResponseSuccess (Some data), s')))"

definition UpdatePostHandler ::
    "'r redis_call \<Rightarrow> int \<Rightarrow> gin_ctx \<Rightarrow> ParamsUpdatePost bind \<Rightarrow> 'r app \<Rightarrow> 'd ResponseData \<times> 'r app" where
  "UpdatePostHandler call now c body s =
     (case ParseInt 64 (ctx_param c ''id'') of
        Inl _ \<Rightarrow> (ResponseError CodeInvalidParam, s)
      | Inr postID \<Rightarrow>
          if postID \<le> 0 then (ResponseError CodeInvalidParam, s)
          else (case body of
              BindOk params \<Rightarrow>
                (case getCurrentUserID c of
                   Inl _ \<Rightarrow> (ResponseError CodeNeedLogin, s)
                 | Inr authorID \<Rightarrow>
                     (case LogicUpdatePost call now postID authorID (upTitle params) (upContent params) s of
                        (Inl err, s') \<Rightarrow>
                          (if errors_is err ErrPostNotFound then ResponseError CodePostNotFound
                           else if errors_is err ErrForbidden then ResponseError CodeForbidden
                           else ResponseError CodeServerBusy, s')
                      | (Inr _, s') \<Rightarrow> (ResponseSuccess None, s')))
            | _ \<Rightarrow> (ResponseError CodeInvalidParam, s)))"

text \<open>The parameters start as page 1, ten posts, by time, and binding the query overwrites them.\<close>

definition GetPostListTwoHandler ::
    "'r redis_call \<Rightarrow> mysql \<Rightarrow> (ParamsPostList \<Rightarrow> ParamsPostList option) \<Rightarrow> 'r app \<Rightarrow> ApiPostDetail list ResponseData \<times> 'r app" where
  "GetPostListTwoHandler call M bind_query s =
     (case bind_query \<lparr>lpCommunityID = 0, lpPage = 1, lpSize = 10, lpOrder = OrderTime\<rparr> of
        None \<Rightarrow> (ResponseError CodeInvalidParam, s)
      | Some p \<Rightarrow>
          (case GetPostListNew call M p s of
             (Inl _, s') \<Rightarrow> (ResponseError CodeServerBusy, s')
           | (Inr data, s') \<Rightarrow> (ResponseSuccess (Some data), s')))"

definition PostVoteHandler ::
    "'r redis_call \<Rightarrow> int \<Rightarrow> int \<Rightarrow> gin_ctx \<Rightarrow> ParamsVoteData bind \<Rightarrow> 'r conn \<Rightarrow> VoteResult ResponseData \<times> 'r conn" where
  "PostVoteHandler call newID now c body s =
     (case body of
        BindErr \<Rightarrow> (ResponseError CodeInvalidParam, s)
      | BindInvalid errData \<Rightarrow> (ResponseErrorWithMsg CodeInvalidParam (MsgFields errData), s)
      | BindOk p \<Rightarrow>
          (case getCurrentUserID c of
             Inl _ \<Rightarrow> (ResponseError CodeNeedLogin, s)
           | Inr userID \<Rightarrow>
               (case LogicVoteForPost call userID newID now p s of
                  (Inl err, s') \<Rightarrow>
                    (if errors_is err ErrVoteTimeExpired then ResponseError CodeVoteExpired
                     else if errors_is err ErrPostNotInitialized then ResponseError CodePostNotFound
                     else if errors_is err ErrInvalidDirection then ResponseError CodeInvalidParam
                     else ResponseError CodeServerBusy, s')
                | (Inr result, s') \<Rightarrow> (ResponseSuccess (Some result), s'))))"

end
