(* ===== verification/RecoveryCorrect.thy ===== *)
theory RecoveryCorrect
  imports Recovery VotePath
begin

text \<open>
  What a rebuild restores: afterwards Redis holds, for every active post of MySQL and nothing else,
  the creation time, the score, the community and every voter's direction and version.
\<close>

section \<open>What the restoring commands do\<close>

definition smembers :: "keyspace \<Rightarrow> string \<Rightarrow> string set" where
  "smembers ks k = (case set_at ks k of None \<Rightarrow> {} | Some s \<Rightarrow> set s)"

definition typed :: "keyspace \<Rightarrow> bool" where
  "typed ks \<longleftrightarrow> vote_wf ks \<and> (\<forall>c. set_at ks (community_key c) \<noteq> None)"

inductive restore_cmd :: "rcmd \<Rightarrow> bool" where
  "restore_cmd (ZADD time_key s m)"
| "restore_cmd (ZADD score_key s m)"
| "d = -1 \<or> d = 1 \<Longrightarrow> restore_cmd (ZADD (voted_key p) d u)"
| "0 < n \<Longrightarrow> int_range 64 n \<Longrightarrow> restore_cmd (HSET (version_key p) u (FormatInt n))"
| "restore_cmd (SADD (community_key c) m)"

fun cmd_zscore :: "rcmd \<Rightarrow> (string \<Rightarrow> string \<Rightarrow> int option) \<Rightarrow> string \<Rightarrow> string \<Rightarrow> int option" where
  "cmd_zscore (ZADD k s m) f = f(k := (f k)(m \<mapsto> s))"
| "cmd_zscore c f = f"

fun cmd_hget :: "rcmd \<Rightarrow> (string \<Rightarrow> string \<Rightarrow> string option) \<Rightarrow> string \<Rightarrow> string \<Rightarrow> string option" where
  "cmd_hget (HSET k m v) f = f(k := (f k)(m \<mapsto> v))"
| "cmd_hget c f = f"

fun cmd_smembers :: "rcmd \<Rightarrow> (string \<Rightarrow> string set) \<Rightarrow> string \<Rightarrow> string set" where
  "cmd_smembers (SADD k m) f = f(k := insert m (f k))"
| "cmd_smembers c f = f"

lemma zadd_effect:
  fixes f s m
  assumes "zset_at ks k = Some z"
  defines "ks' \<equiv> snd (redis_doc f (ZADD k s m) ks)"
  shows "fst (redis_doc f (ZADD k s m) ks) \<noteq> Inl e" "ks' = put_zset ks k (zs_add m s z)"
    "zscore ks' = cmd_zscore (ZADD k s m) (zscore ks)" "hget ks' = hget ks" "smembers ks' = smembers ks"
proof -
  show eq: "ks' = put_zset ks k (zs_add m s z)" "fst (redis_doc f (ZADD k s m) ks) \<noteq> Inl e"
    using assms(1) by (simp_all add: ks'_def on_zset_def)
  show "zscore ks' = cmd_zscore (ZADD k s m) (zscore ks)"
    using assms(1) by (auto simp: eq zscore_def fun_eq_iff zset_simps zset_at_def put_zset_def)
  show "hget ks' = hget ks" "smembers ks' = smembers ks"
    using assms(1)
    by (auto simp: eq hget_def smembers_def fun_eq_iff hash_at_def set_at_def put_zset_def zset_at_def
        split: option.splits rvalue.splits)
qed

lemma hset_effect:
  fixes f m v
  assumes "hash_at ks k = Some h"
  defines "ks' \<equiv> snd (redis_doc f (HSET k m v) ks)"
  shows "fst (redis_doc f (HSET k m v) ks) \<noteq> Inl e" "ks' = ks(k \<mapsto> VHash (h(m \<mapsto> v)))"
    "zscore ks' = zscore ks" "hget ks' = cmd_hget (HSET k m v) (hget ks)" "smembers ks' = smembers ks"
proof -
  show eq: "ks' = ks(k \<mapsto> VHash (h(m \<mapsto> v)))" "fst (redis_doc f (HSET k m v) ks) \<noteq> Inl e"
    using assms(1) by (simp_all add: ks'_def on_hash_def)
  show "zscore ks' = zscore ks" "hget ks' = cmd_hget (HSET k m v) (hget ks)" "smembers ks' = smembers ks"
    using assms(1)
    by (auto simp: eq hget_def smembers_def zscore_def fun_eq_iff hash_at_def set_at_def zset_at_def
        split: option.splits rvalue.splits)
qed

lemma sadd_effect:
  fixes f m
  assumes "set_at ks k = Some s"
  defines "ks' \<equiv> snd (redis_doc f (SADD k m) ks)"
  shows "fst (redis_doc f (SADD k m) ks) \<noteq> Inl e" "ks' = ks(k \<mapsto> VSet (add_to_set m s))"
    "zscore ks' = zscore ks" "hget ks' = hget ks" "smembers ks' = cmd_smembers (SADD k m) (smembers ks)"
proof -
  show eq: "ks' = ks(k \<mapsto> VSet (add_to_set m s))" "fst (redis_doc f (SADD k m) ks) \<noteq> Inl e"
    using assms(1) by (simp_all add: ks'_def on_set_def)
  show "zscore ks' = zscore ks" "hget ks' = hget ks" "smembers ks' = cmd_smembers (SADD k m) (smembers ks)"
    using assms(1)
    by (auto simp: eq hget_def smembers_def zscore_def fun_eq_iff hash_at_def set_at_def zset_at_def
        split: option.splits rvalue.splits)
qed

lemma typed_put_zset:
  assumes "typed ks" "k = time_key \<and> zs_wf z \<or> k = score_key \<and> zs_wf z \<or> (\<exists>p. k = voted_key p) \<and> voted_wf z"
  shows "typed (put_zset ks k z)"
proof -
  have d: "version_key p \<noteq> k" "outbox_key \<noteq> k" "community_key c \<noteq> k" for p c using assms(2) by auto
  have z: "zset_at (put_zset ks k z) k' = (if k' = k then Some z else zset_at ks k')" for k' by simp
  from assms have "(\<exists>z'. zset_at (put_zset ks k z) time_key = Some z' \<and> zs_wf z')"
    "(\<exists>z'. zset_at (put_zset ks k z) score_key = Some z' \<and> zs_wf z')"
    "\<exists>z'. zset_at (put_zset ks k z) (voted_key p) = Some z' \<and> voted_wf z'" for p
    unfolding z typed_def vote_wf_def by auto
  with assms(1) d show ?thesis by (simp add: typed_def vote_wf_def)
qed

lemma restore_cmd_effect:
  assumes "restore_cmd c" "typed ks"
  shows "\<not> isl (fst (redis_doc f c ks))" "typed (snd (redis_doc f c ks))"
    "zscore (snd (redis_doc f c ks)) = cmd_zscore c (zscore ks)"
    "hget (snd (redis_doc f c ks)) = cmd_hget c (hget ks)"
    "smembers (snd (redis_doc f c ks)) = cmd_smembers c (smembers ks)"
proof -
  have wf: "vote_wf ks" using assms(2) by (simp add: typed_def)
  have "\<not> isl (fst (redis_doc f c ks)) \<and> typed (snd (redis_doc f c ks)) \<and>
    zscore (snd (redis_doc f c ks)) = cmd_zscore c (zscore ks) \<and>
    hget (snd (redis_doc f c ks)) = cmd_hget c (hget ks) \<and>
    smembers (snd (redis_doc f c ks)) = cmd_smembers c (smembers ks)"
    using assms(1)
  proof cases
    case (1 s m)
    then obtain z where z: "zset_at ks time_key = Some z" "zs_wf z" using wf by (auto simp: vote_wf_def)
    note e = zadd_effect [OF z(1), of f s m]
    have "typed (put_zset ks time_key (zs_add m s z))"
      by (rule typed_put_zset [OF assms(2)]) (simp add: zs_wf_add z(2))
    then show ?thesis unfolding 1 e(3-5) using e(1,2) by (auto simp: isl_def)
  next
    case (2 s m)
    then obtain z where z: "zset_at ks score_key = Some z" "zs_wf z" using wf by (auto simp: vote_wf_def)
    note e = zadd_effect [OF z(1), of f s m]
    have "typed (put_zset ks score_key (zs_add m s z))"
      by (rule typed_put_zset [OF assms(2)]) (simp add: zs_wf_add z(2))
    then show ?thesis unfolding 2 e(3-5) using e(1,2) by (auto simp: isl_def)
  next
    case (3 d p u)
    then obtain z where z: "zset_at ks (voted_key p) = Some z" "voted_wf z" using wf by (auto simp: vote_wf_def)
    note e = zadd_effect [OF z(1), of f d u]
    have "typed (put_zset ks (voted_key p) (zs_add u d z))"
      by (rule typed_put_zset [OF assms(2)]) (use voted_wf_add [OF z(2) 3(2)] in blast)
    then show ?thesis unfolding 3(1) e(3-5) using e(1,2) by (auto simp: isl_def)
  next
    case (4 n p u)
    then obtain h where h: "hash_at ks (version_key p) = Some h" "versions_wf h" using wf by (auto simp: vote_wf_def)
    note e = hset_effect [OF h(1), of f u "FormatInt n"]
    have "typed (ks(version_key p \<mapsto> VHash (h(u \<mapsto> FormatInt n))))"
      using assms(2) versions_wf_upd [OF h(2) 4(2,3)]
      by (auto simp: typed_def vote_wf_def hash_at_def [of "ks(_ := _)"]) (auto simp: hash_at_def)
    then show ?thesis unfolding 4(1) e(3-5) using e(1,2) by (auto simp: isl_def)
  next
    case (5 k m)
    then obtain s where s: "set_at ks (community_key k) = Some s" using assms(2) by (auto simp: typed_def)
    note e = sadd_effect [OF s, of f m]
    have "typed (ks(community_key k \<mapsto> VSet (add_to_set m s)))"
      using assms(2) by (auto simp: typed_def vote_wf_def set_at_def)
    then show ?thesis unfolding 5 e(3-5) using e(1,2) by (auto simp: isl_def)
  qed
  then show "\<not> isl (fst (redis_doc f c ks))" "typed (snd (redis_doc f c ks))"
    "zscore (snd (redis_doc f c ks)) = cmd_zscore c (zscore ks)"
    "hget (snd (redis_doc f c ks)) = cmd_hget c (hget ks)"
    "smembers (snd (redis_doc f c ks)) = cmd_smembers c (smembers ks)" by blast+
qed

definition restored_by :: "rcmd list \<Rightarrow> keyspace \<Rightarrow> keyspace \<Rightarrow> bool" where
  "restored_by cs ks ks' \<longleftrightarrow>
     typed ks' \<and> zscore ks' = fold cmd_zscore cs (zscore ks) \<and> hget ks' = fold cmd_hget cs (hget ks) \<and>
     smembers ks' = fold cmd_smembers cs (smembers ks)"

context redis_server
begin

lemma restore_cmds_run:
  assumes "\<forall>c\<in>set cs. restore_cmd c" "typed (db r)"
  shows "restored_by cs (db r) (db (snd (run_all call cs r))) \<and> (\<exists>ys. first_error (fst (run_all call cs r)) = Inr ys)"
  using assms
proof (induction cs arbitrary: r)
  case Nil
  then show ?case by (simp add: restored_by_def)
next
  case (Cons c cs)
  note e = restore_cmd_effect [of c "db r" "nid r", folded call_reply call_db]
  have c: "restore_cmd c" "\<forall>c\<in>set cs. restore_cmd c" using Cons.prems(1) by auto
  note ih = Cons.IH [OF c(2) e(2) [OF c(1) Cons.prems(2)]]
  have "restored_by (c # cs) (db r) (db (snd (run_all call (c # cs) r)))"
    using ih e(3-5) [OF c(1) Cons.prems(2)] by (simp add: restored_by_def)
  moreover have "\<exists>ys. first_error (fst (run_all call (c # cs) r)) = Inr ys"
    using ih e(1) [OF c(1) Cons.prems(2)] by (cases "fst (call c r)") auto
  ultimately show ?case ..
qed

end

section \<open>A restored state\<close>

definition post_score :: "forum_tables \<Rightarrow> post_row \<Rightarrow> int" where
  "post_score t p = po_created p + net_vote t (po_id p) * scorePerVote"

definition tables_valid :: "forum_tables \<Rightarrow> bool" where
  "tables_valid t \<longleftrightarrow>
     distinct (map po_id (t_posts t)) \<and> rows_distinct (post_vote t) \<and>
     (\<forall>p\<in>set (t_posts t). active p \<longrightarrow> 0 < po_id p \<and> 0 < po_community p \<and> 0 < po_created p \<and>
        int_range 64 (net_vote t (po_id p) * scorePerVote) \<and> int_range 64 (post_score t p)) \<and>
     (\<forall>v\<in>set (post_vote t). pv_direction v \<in> {-1, 0, 1} \<and> 0 < pv_version v \<and> int_range 64 (pv_version v))"

definition restored :: "forum_tables \<Rightarrow> post_row set \<Rightarrow> keyspace \<Rightarrow> bool" where
  "restored t P ks \<longleftrightarrow> typed ks \<and>
     (\<forall>m c. zscore ks time_key m = Some c \<longleftrightarrow> (\<exists>p\<in>P. m = FormatInt (po_id p) \<and> c = po_created p)) \<and>
     (\<forall>m c. zscore ks score_key m = Some c \<longleftrightarrow> (\<exists>p\<in>P. m = FormatInt (po_id p) \<and> c = post_score t p)) \<and>
     (\<forall>q u d. zscore ks (voted_key q) u = Some d \<longleftrightarrow>
        (\<exists>p\<in>P. \<exists>v\<in>set (post_vote t). q = FormatInt (po_id p) \<and> pv_post v = po_id p \<and>
           u = FormatInt (pv_user v) \<and> d = pv_direction v \<and> d \<noteq> 0)) \<and>
     (\<forall>q u s. hget ks (version_key q) u = Some s \<longleftrightarrow>
        (\<exists>p\<in>P. \<exists>v\<in>set (post_vote t). q = FormatInt (po_id p) \<and> pv_post v = po_id p \<and>
           u = FormatInt (pv_user v) \<and> s = FormatInt (pv_version v))) \<and>
     (\<forall>c m. m \<in> smembers ks (community_key c) \<longleftrightarrow>
        (\<exists>p\<in>P. m = FormatInt (po_id p) \<and> c = FormatInt (po_community p)))"

definition vote_cmds :: "string \<Rightarrow> VoteRecoverySnapshot list \<Rightarrow> rcmd list" where
  "vote_cmds postID votes = concat (map (\<lambda>vote.
     (if vDirection vote \<noteq> 0 then [ZADD (voted_key postID) (vDirection vote) (FormatInt (vUserID vote))] else []) @
     [HSET (version_key postID) (FormatInt (vUserID vote)) (FormatInt (vVersion vote))]) votes)"

lemma vote_cmds_simps [simp]:
  "vote_cmds q [] = []"
  "vote_cmds q (v # vs) =
     (if vDirection v \<noteq> 0 then [ZADD (voted_key q) (vDirection v) (FormatInt (vUserID v))] else []) @
     [HSET (version_key q) (FormatInt (vUserID v)) (FormatInt (vVersion v))] @ vote_cmds q vs"
  by (simp_all add: vote_cmds_def)

lemma post_cmds_eq:
  "post_cmds post votes =
     [ZADD time_key (pCreateUnix post) (FormatInt (pPostID post)),
      ZADD score_key (wrap_int 64 (pCreateUnix post + wrap_int 64 (pNetVote post * scorePerVote))) (FormatInt (pPostID post)),
      SADD (community_key (FormatInt (pCommunityID post))) (FormatInt (pPostID post))] @
     vote_cmds (FormatInt (pPostID post)) votes"
  by (simp add: post_cmds_def vote_cmds_def Let_def)

lemma fold_vote_cmds_other:
  "k \<noteq> voted_key q \<Longrightarrow> fold cmd_zscore (vote_cmds q vs) f k = f k"
  "k' \<noteq> version_key q \<Longrightarrow> fold cmd_hget (vote_cmds q vs) g k' = g k'"
  "fold cmd_smembers (vote_cmds q vs) h = h"
  by (induction vs arbitrary: f g h) auto

lemma fold_vote_cmds_zscore:
  "distinct (map vUserID vs) \<Longrightarrow>
   fold cmd_zscore (vote_cmds q vs) f (voted_key q) u = Some d \<longleftrightarrow>
     (\<exists>v\<in>set vs. u = FormatInt (vUserID v) \<and> d = vDirection v \<and> d \<noteq> 0) \<or>
     (f (voted_key q) u = Some d \<and> \<not> (\<exists>v\<in>set vs. u = FormatInt (vUserID v) \<and> vDirection v \<noteq> 0))"
proof (induction vs arbitrary: f u d)
  case (Cons v vs)
  then have d: "distinct (map vUserID vs)" "vUserID v \<notin> vUserID ` set vs" by simp_all
  show ?case
  proof (cases "u = FormatInt (vUserID v) \<and> vDirection v \<noteq> 0")
    case True
    with d(2) have none: "\<not> (\<exists>w\<in>set vs. u = FormatInt (vUserID w))" by auto
    with True show ?thesis by (auto simp: Cons.IH [OF d(1)])
  next
    case False
    then show ?thesis by (auto simp: Cons.IH [OF d(1)])
  qed
qed simp

lemma fold_vote_cmds_hget:
  "distinct (map vUserID vs) \<Longrightarrow>
   fold cmd_hget (vote_cmds q vs) f (version_key q) u = Some s \<longleftrightarrow>
     (\<exists>v\<in>set vs. u = FormatInt (vUserID v) \<and> s = FormatInt (vVersion v)) \<or>
     (f (version_key q) u = Some s \<and> \<not> (\<exists>v\<in>set vs. u = FormatInt (vUserID v)))"
proof (induction vs arbitrary: f u s)
  case (Cons v vs)
  then have d: "distinct (map vUserID vs)" "vUserID v \<notin> vUserID ` set vs" by simp_all
  show ?case
  proof (cases "u = FormatInt (vUserID v)")
    case True
    with d(2) have none: "\<not> (\<exists>w\<in>set vs. u = FormatInt (vUserID w))" by auto
    with True show ?thesis by (auto simp: Cons.IH [OF d(1)])
  next
    case False
    then show ?thesis by (auto simp: Cons.IH [OF d(1)])
  qed
qed simp

lemma post_cmds_ok:
  assumes "\<forall>v\<in>set votes. vDirection v \<in> {-1, 0, 1} \<and> 0 < vVersion v \<and> int_range 64 (vVersion v)"
  shows "\<forall>c\<in>set (post_cmds post votes). restore_cmd c"
proof -
  have "\<forall>c\<in>set (vote_cmds q votes). restore_cmd c" for q
    using assms by (induction votes) (auto intro: restore_cmd.intros)
  then show ?thesis by (auto simp: post_cmds_eq intro: restore_cmd.intros)
qed

lemma restored_post:
  assumes res: "restored t P ks" and new: "po_id p \<notin> po_id ` P"
    and votes: "set votes = vote_snapshot ` {v \<in> set (post_vote t). pv_post v = po_id p}" "distinct (map vUserID votes)"
    and score: "int_range 64 (net_vote t (po_id p) * scorePerVote)" "int_range 64 (post_score t p)"
    and run: "restored_by (post_cmds (post_snapshot t p) votes) ks ks'"
  shows "restored t (insert p P) ks'"
proof -
  let ?q = "FormatInt (po_id p)"
  have fresh: "\<not> (\<exists>p'\<in>P. ?q = FormatInt (po_id p'))" using new by auto
  have sc: "wrap_int 64 (pCreateUnix (post_snapshot t p) + wrap_int 64 (pNetVote (post_snapshot t p) * scorePerVote)) = post_score t p"
    using score by (simp add: post_snapshot_def post_score_def wrap_int_in_range)
  have ex: "(\<exists>w\<in>set votes. Q w) \<longleftrightarrow> (\<exists>v\<in>set (post_vote t). pv_post v = po_id p \<and> Q (vote_snapshot v))" for Q
    by (auto simp: votes(1))
  have old: "zscore ks (voted_key ?q) u = None" "hget ks (version_key ?q) u = None" for u
    using res fresh by (auto simp: restored_def simp flip: not_Some_eq)
  have pid: "pPostID (post_snapshot t p) = po_id p" "pCommunityID (post_snapshot t p) = po_community p"
    "pCreateUnix (post_snapshot t p) = po_created p" by (simp_all add: post_snapshot_def)
  let ?f = "(zscore ks)(time_key := (zscore ks time_key)(?q \<mapsto> po_created p), score_key := (zscore ks score_key)(?q \<mapsto> post_score t p))"
  have z: "zscore ks' = fold cmd_zscore (vote_cmds ?q votes) ?f"
    and h: "hget ks' = fold cmd_hget (vote_cmds ?q votes) (hget ks)"
    and m: "smembers ks' = (smembers ks)(community_key (FormatInt (po_community p)) :=
        insert ?q (smembers ks (community_key (FormatInt (po_community p)))))"
    and ty: "typed ks'"
    using run by (simp_all add: restored_by_def post_cmds_eq sc [unfolded pid] pid fold_vote_cmds_other(3))
  have "zscore ks' time_key = (zscore ks time_key)(?q \<mapsto> po_created p)"
    "zscore ks' score_key = (zscore ks score_key)(?q \<mapsto> post_score t p)"
    by (simp_all add: z fold_vote_cmds_other fun_eq_iff)
  moreover have "zscore ks' (voted_key q) u = Some d \<longleftrightarrow>
      (if q = ?q then \<exists>v\<in>set (post_vote t). pv_post v = po_id p \<and> u = FormatInt (pv_user v) \<and> d = pv_direction v \<and> d \<noteq> 0
       else zscore ks (voted_key q) u = Some d)" for q u d
    using old(1) by (auto simp: z fold_vote_cmds_other fold_vote_cmds_zscore [OF votes(2)] ex vote_snapshot_def)
  moreover have "hget ks' (version_key q) u = Some s \<longleftrightarrow>
      (if q = ?q then \<exists>v\<in>set (post_vote t). pv_post v = po_id p \<and> u = FormatInt (pv_user v) \<and> s = FormatInt (pv_version v)
       else hget ks (version_key q) u = Some s)" for q u s
    using old(2) by (auto simp: h fold_vote_cmds_other fold_vote_cmds_hget [OF votes(2)] ex vote_snapshot_def)
  ultimately show ?thesis
    using res ty fresh unfolding restored_def m by (auto split: if_splits)
qed

section \<open>Which keys are touched\<close>

definition derived :: "string \<Rightarrow> bool" where
  "derived k \<longleftrightarrow> (\<exists>pat\<in>set rebuild_patterns. glob pat k)"

lemma glob_star: "glob ''*'' s"
  by (induction s) simp_all

lemma glob_prefix:
  "CHR ''*'' \<notin> set p \<Longrightarrow> CHR ''?'' \<notin> set p \<Longrightarrow> glob (p @ ''*'') s \<longleftrightarrow> (\<exists>r. s = p @ r)"
proof (induction p arbitrary: s)
  case Nil
  then show ?case using glob_star by simp
next
  case (Cons c p)
  then show ?case by (cases s) auto
qed

lemma derived_iff:
  "derived k \<longleftrightarrow> (\<exists>r. k = time_key @ r \<or> k = score_key @ r \<or> k = voted_key r \<or> k = version_key r \<or> k = community_key r)"
proof -
  have "glob (getRedisKey K @ ''*'') k \<longleftrightarrow> (\<exists>r. k = getRedisKey K @ r)"
    if "K \<in> {KeyPostTimeZSet, KeyPostScoreZSet, KeyPostVotedZSetPrefix, KeyPostVoteVersionPrefix, KeyCommentZSetPrefix}" for K
    by (rule glob_prefix) (use that in \<open>auto simp: key_defs getRedisKey_def\<close>)
  then show ?thesis
    by (simp add: derived_def rebuild_patterns_def ex_disj_distrib) (simp add: getRedisKey_def)
qed

lemma derived_keys [simp]:
  "derived time_key" "derived score_key" "derived (voted_key q)" "derived (version_key q)" "derived (community_key q)"
  by (auto simp: derived_iff intro: exI [of _ "[]"])

lemma not_derived [simp]: "\<not> derived status_key" "\<not> derived outbox_key" "\<not> derived (session_key u)" "\<not> derived (ratelimit_key u)"
  by (auto simp: derived_iff key_defs getRedisKey_def)

lemma restore_cmd_frame: "restore_cmd c \<Longrightarrow> \<not> derived k \<Longrightarrow> snd (redis_doc f c ks) k = ks k"
  by (cases rule: restore_cmd.cases)
     (auto simp: on_zset_def on_hash_def on_set_def put_zset_apply split: option.splits)

lemma typed_status: "typed (ks(status_key := v)) \<longleftrightarrow> typed ks"
  by (simp add: typed_def vote_wf_def)

lemma restored_status: "restored t P ks \<Longrightarrow> restored t P (ks(status_key := v))"
  by (simp add: restored_def typed_status zscore_def hget_def smembers_def)

lemma restored_nothing:
  assumes "\<And>k. derived k \<Longrightarrow> ks k = None" "stream_at ks outbox_key \<noteq> None"
  shows "restored t {} ks"
proof -
  have n: "ks time_key = None" "ks score_key = None" "ks (voted_key q) = None" "ks (version_key q) = None"
    "ks (community_key q) = None" for q using assms(1) by simp_all
  have "typed ks"
    using assms(2) n by (auto simp: typed_def vote_wf_def zset_at_def hash_at_def set_at_def voted_wf_def versions_wf_def)
  then show ?thesis
    using n by (simp add: restored_def zscore_def hget_def smembers_def zset_at_def hash_at_def set_at_def)
qed

context redis_server
begin

lemma run_all_frame: "\<forall>c\<in>set cs. restore_cmd c \<Longrightarrow> \<not> derived k \<Longrightarrow> db (snd (run_all call cs r)) k = db r k"
  by (induction cs arbitrary: r) (simp_all add: call_db restore_cmd_frame)

lemma run_all_append: "snd (run_all call (cs @ ds) r) = snd (run_all call ds (snd (run_all call cs r)))"
  by (induction cs arbitrary: r) simp_all

text \<open>One batch: the posts of a list \<open>ps\<close> of rows, none of which was there before.\<close>

lemma restore_batch:
  assumes "restored t P (db r)" "distinct (map po_id ps)" "po_id ` set ps \<inter> po_id ` P = {}"
    and "\<forall>p\<in>set ps. set (votes p) = vote_snapshot ` {v \<in> set (post_vote t). pv_post v = po_id p} \<and> distinct (map vUserID (votes p)) \<and>
      (\<forall>v\<in>set (votes p). vDirection v \<in> {-1, 0, 1} \<and> 0 < vVersion v \<and> int_range 64 (vVersion v)) \<and>
      int_range 64 (net_vote t (po_id p) * scorePerVote) \<and> int_range 64 (post_score t p)"
  shows "restored t (P \<union> set ps) (db (snd (run_all call (concat (map (\<lambda>p. post_cmds (post_snapshot t p) (votes p)) ps)) r)))"
  using assms
proof (induction ps arbitrary: P r)
  case (Cons p ps)
  let ?r = "snd (run_all call (post_cmds (post_snapshot t p) (votes p)) r)"
  have p: "set (votes p) = vote_snapshot ` {v \<in> set (post_vote t). pv_post v = po_id p}" "distinct (map vUserID (votes p))"
    "\<forall>v\<in>set (votes p). vDirection v \<in> {-1, 0, 1} \<and> 0 < vVersion v \<and> int_range 64 (vVersion v)"
    "int_range 64 (net_vote t (po_id p) * scorePerVote)" "int_range 64 (post_score t p)"
    using Cons.prems(4) by auto
  have "typed (db r)" using Cons.prems(1) by (simp add: restored_def)
  then have by': "restored_by (post_cmds (post_snapshot t p) (votes p)) (db r) (db ?r)"
    using restore_cmds_run [OF post_cmds_ok [OF p(3)]] by blast
  have "restored t (insert p P) (db ?r)"
    by (rule restored_post [OF Cons.prems(1) _ p(1,2,4,5) by']) (use Cons.prems(3) in auto)
  from Cons.IH [OF this] Cons.prems(2-4) show ?case by (auto simp: run_all_append)
qed simp

end

end
