(* ===== verification/Rebuild.thy ===== *)
theory Rebuild
  imports RecoveryCorrect
begin

text \<open>
  The rebuild of Redis, step by step: what each stage of \<open>RebuildRedisFromMySQL\<close> leaves when it
  succeeds and when it is cut off, and the theorems about the command as a whole.
\<close>

section \<open>Deleting what is derived\<close>

definition keeps :: "keyspace \<Rightarrow> keyspace \<Rightarrow> bool" where
  "keeps ks ks' \<longleftrightarrow> (\<forall>k. \<not> derived k \<longrightarrow> ks' k = ks k)"

definition shrinks :: "keyspace \<Rightarrow> keyspace \<Rightarrow> bool" where
  "shrinks ks ks' \<longleftrightarrow> (\<forall>k. ks' k = ks k \<or> derived k \<and> ks' k = None)"

lemma keeps_refl [simp, intro]: "keeps ks ks"
  by (simp add: keeps_def)

lemma keeps_trans: "keeps a b \<Longrightarrow> keeps b c \<Longrightarrow> keeps a c"
  by (simp add: keeps_def)

lemma shrinks_refl [simp, intro]: "shrinks ks ks"
  by (simp add: shrinks_def)

lemma shrinks_trans: "shrinks a b \<Longrightarrow> shrinks b c \<Longrightarrow> shrinks a c"
  unfolding shrinks_def by (metis (no_types))

lemma shrinks_keeps: "shrinks a b \<Longrightarrow> keeps a b"
  by (auto simp: shrinks_def keeps_def)

lemma shrinks_none: "shrinks a b \<Longrightarrow> a k = None \<Longrightarrow> b k = None"
  unfolding shrinks_def by metis

definition mark :: "string \<Rightarrow> keyspace \<Rightarrow> keyspace" where
  "mark m ks = ks(status_key \<mapsto> VStr m)"

lemma stream_at_keeps: "keeps ks ks' \<Longrightarrow> stream_at ks' outbox_key = stream_at ks outbox_key"
  by (simp add: keeps_def stream_at_def)

lemma concat_chunks: "0 < n \<Longrightarrow> length xs \<le> m \<Longrightarrow> concat (chunks m n xs) = xs"
proof (induction m n xs rule: chunks.induct)
  case (2 m n xs)
  then show ?case by (cases xs) auto
qed simp

context redis_server
begin

lemma del_db: "db (snd (call (DEL ds) r)) = (\<lambda>k. if k \<in> set ds then None else db r k)"
  by (simp add: call_db)

lemma del_shrinks: "\<forall>k\<in>set ds. derived k \<Longrightarrow> exec (call (DEL ds)) c = (res, c') \<Longrightarrow> shrinks (db (srv c)) (db (srv c'))"
  using exec_srv [of "call (DEL ds)" c res c'] by (auto simp: del_db shrinks_def)

lemma del_chunks_shrinks:
  "del_chunks call cs c = (res, c') \<Longrightarrow> \<forall>k\<in>\<Union> (set ` set cs). derived k \<Longrightarrow> shrinks (db (srv c)) (db (srv c'))"
proof (induction cs arbitrary: c)
  case (Cons d ds)
  from Cons.prems(2) have d: "\<forall>k\<in>set d. derived k" "\<forall>k\<in>\<Union> (set ` set ds). derived k" by auto
  show ?case
  proof (cases rule: thenM_cases [of "exec (call (DEL d))" c "\<lambda>_. del_chunks call ds"])
    case (err e s')
    with Cons.prems(1) del_shrinks [OF d(1)] show ?thesis by simp
  next
    case (ok x s')
    with Cons.prems(1) Cons.IH [of s'] d(2) shrinks_trans [OF del_shrinks [OF d(1) ok(1)]] show ?thesis by simp
  qed
qed simp

lemma del_chunks_no_fault:
  "fates c = [] \<Longrightarrow> \<exists>c'. del_chunks call cs c = (Inr (), c') \<and> fates c' = [] \<and>
     db (srv c') = (\<lambda>k. if k \<in> \<Union> (set ` set cs) then None else db (srv c) k)"
proof (induction cs arbitrary: c)
  case (Cons d ds)
  let ?c = "c\<lparr>srv := snd (call (DEL d) (srv c))\<rparr>"
  obtain y where y: "fst (call (DEL d) (srv c)) = Inr y" by (simp add: call_reply)
  obtain c' where "del_chunks call ds ?c = (Inr (), c')" "fates c' = []"
    "db (srv c') = (\<lambda>k. if k \<in> \<Union> (set ` set ds) then None else db (srv ?c) k)"
    using Cons.IH [of ?c] Cons.prems by auto
  then show ?case using y Cons.prems by (auto simp: thenM_def exec_no_fault del_db)
qed simp

end

section \<open>Iterating over the keys\<close>

lemma scan_run_step:
  "scan_run scan (Suc n) pat cur r = Some y \<longleftrightarrow>
     (\<exists>batch nxt r'. scan cur pat 500 r = (Inr (batch, nxt), r') \<and>
        (if nxt = 0 then y = (batch, r')
         else \<exists>z. scan_run scan n pat nxt r' = Some z \<and> y = (batch @ fst z, snd z)))"
  by (auto split: sum.splits prod.splits)

lemma scan_run_mono: "scan_run scan n pat cur r = Some y \<Longrightarrow> n \<le> m \<Longrightarrow> scan_run scan m pat cur r = Some y"
proof (induction n arbitrary: m cur r y)
  case (Suc n)
  then obtain m' where m: "m = Suc m'" "n \<le> m'" by (cases m) auto
  from Suc.prems(1) show ?case unfolding m(1) scan_run_step using Suc.IH m(2) by (metis (no_types, lifting))
qed simp

lemma scan_keys_run:
  "scan_keys scan n pat cur ks c = Some (Inr xs, c') \<Longrightarrow> \<exists>ys. scan_run scan n pat cur (srv c) = Some (ys, srv c') \<and> xs = ks @ ys"
proof (induction n arbitrary: cur ks c)
  case (Suc n)
  then obtain b nxt c1 where c1: "exec (scan cur pat 500) c = (Inr (b, nxt), c1)"
    and rest: "(if nxt = 0 then liftO (ret (ks @ b)) else scan_keys scan n pat nxt (ks @ b)) c1 = Some (Inr xs, c')"
    by (auto simp: thenO_Some)
  have s: "fst (scan cur pat 500 (srv c)) = Inr (b, nxt)" "srv c1 = snd (scan cur pat 500 (srv c))"
    using exec_Inr [of "scan cur pat 500" c] c1 by auto
  then have e: "scan cur pat 500 (srv c) = (Inr (b, nxt), srv c1)" by (metis prod.collapse)
  show ?case
  proof (cases "nxt = 0")
    case True
    with rest e show ?thesis by simp
  next
    case False
    with rest Suc.IH [of nxt "ks @ b" c1] e show ?thesis by auto
  qed
qed simp

lemma scan_keys_no_fault:
  "scan_run scan n pat cur (srv c) = Some (ys, r') \<Longrightarrow> fates c = [] \<Longrightarrow>
     scan_keys scan n pat cur ks c = Some (Inr (ks @ ys), c\<lparr>srv := r'\<rparr>)"
proof (induction n arbitrary: cur ks c ys)
  case (Suc n)
  then show ?case
    by (auto simp: thenO_def liftO_def exec_no_fault split: sum.splits prod.splits if_splits)
qed simp

context redis_scan
begin

lemma scan_keys_db: "scan_keys scan n pat cur ks c = Some (res, c') \<Longrightarrow> db (srv c') = db (srv c)"
proof (induction n arbitrary: cur ks c)
  case (Suc n)
  have e: "db (srv c1) = db (srv c)" if "exec (scan cur pat 500) c = (x, c1)" for x c1
    using exec_srv [OF that] by (auto simp: scan_db)
  from Suc.prems show ?case
    by (auto simp: thenO_Some e dest!: Suc.IH split: if_splits)
qed simp

lemma scan_keys_set:
  "scan_keys scan n pat 0 [] c = Some (Inr xs, c') \<Longrightarrow> set xs = {k. db (srv c) k \<noteq> None \<and> glob pat k}"
  using scan_keys_run [of scan n pat 0 "[]" c xs c'] scan_all by auto

lemma deleteKeysMatching_outcome:
  assumes "\<forall>k. glob pat k \<longrightarrow> derived k" "deleteKeysMatching call scan rounds n pat c = Some (res, c')"
  shows "shrinks (db (srv c)) (db (srv c')) \<and> (\<not> isl res \<longrightarrow> (\<forall>k. glob pat k \<longrightarrow> db (srv c') k = None))"
  using assms(2)
proof (induction rounds arbitrary: c)
  case (Suc rounds)
  from Suc.prems consider
      (fail) e where "scan_keys scan n pat 0 [] c = Some (Inl e, c')" "res = Inl e"
    | (ok) xs c1 where "scan_keys scan n pat 0 [] c = Some (Inr xs, c1)"
        "(if xs = [] then liftO (ret ())
          else thenO (liftO (del_chunks call (chunks (length xs) 500 xs))) (\<lambda>_. deleteKeysMatching call scan rounds n pat)) c1 =
         Some (res, c')"
    by (auto simp: thenO_Some)
  then show ?case
  proof cases
    case fail
    then show ?thesis by (simp add: scan_keys_db [OF fail(1)])
  next
    case ok
    have db1: "db (srv c1) = db (srv c)" by (rule scan_keys_db [OF ok(1)])
    have xs: "set xs = {k. db (srv c) k \<noteq> None \<and> glob pat k}" by (rule scan_keys_set [OF ok(1)])
    show ?thesis
    proof (cases "xs = []")
      case True
      with ok(2) have "c' = c1" by simp
      with True xs show ?thesis by (auto simp: db1)
    next
      case False
      have "\<Union> (set ` set (chunks (length xs) 500 xs)) = set xs"
        using concat_chunks [of 500 xs "length xs"] by (metis le_refl set_concat zero_less_numeral)
      then have d: "\<forall>k\<in>\<Union> (set ` set (chunks (length xs) 500 xs)). derived k" using xs assms(1) by auto
      from ok(2) False consider
          (stop) e where "del_chunks call (chunks (length xs) 500 xs) c1 = (Inl e, c')" "res = Inl e"
        | (again) x c2 where "del_chunks call (chunks (length xs) 500 xs) c1 = (Inr x, c2)"
            "deleteKeysMatching call scan rounds n pat c2 = Some (res, c')"
        by (auto simp: thenO_Some)
      then show ?thesis
      proof cases
        case stop
        with del_chunks_shrinks [OF stop(1) d] show ?thesis by (simp add: db1)
      next
        case again
        with Suc.IH [OF again(2)] shrinks_trans [OF del_chunks_shrinks [OF again(1) d]] show ?thesis by (simp add: db1)
      qed
    qed
  qed
qed simp

lemma delete_patterns_outcome:
  assumes "\<forall>p\<in>set ps. \<forall>k. glob p k \<longrightarrow> derived k" "delete_patterns call scan rounds n ps c = Some (res, c')"
  shows "shrinks (db (srv c)) (db (srv c')) \<and> (\<not> isl res \<longrightarrow> (\<forall>p\<in>set ps. \<forall>k. glob p k \<longrightarrow> db (srv c') k = None))"
  using assms
proof (induction ps arbitrary: c)
  case (Cons p ps)
  from Cons.prems(2) consider
      (fail) e where "deleteKeysMatching call scan rounds n p c = Some (Inl e, c')" "res = Inl e"
    | (ok) x c1 where "deleteKeysMatching call scan rounds n p c = Some (Inr x, c1)"
        "delete_patterns call scan rounds n ps c1 = Some (res, c')"
    by (auto simp: thenO_Some)
  then show ?case
  proof cases
    case fail
    with deleteKeysMatching_outcome [OF _ fail(1)] Cons.prems(1) show ?thesis by auto
  next
    case ok
    have 1: "shrinks (db (srv c)) (db (srv c1))" "\<forall>k. glob p k \<longrightarrow> db (srv c1) k = None"
      using deleteKeysMatching_outcome [OF _ ok(1)] Cons.prems(1) by auto
    have 2: "shrinks (db (srv c1)) (db (srv c'))"
      "\<not> isl res \<longrightarrow> (\<forall>q\<in>set ps. \<forall>k. glob q k \<longrightarrow> db (srv c') k = None)"
      using Cons.IH [OF _ ok(2)] Cons.prems(1) by auto
    from 1 2 show ?thesis by (auto intro: shrinks_trans shrinks_none)
  qed
qed simp

text \<open>Without faults the deletions end: the second look at a pattern finds nothing.\<close>

lemma shrinks_finite: "shrinks a b \<Longrightarrow> finite (dom a) \<Longrightarrow> finite (dom b)"
  by (rule finite_subset [of _ "dom a"]) (auto simp: shrinks_def dom_def, metis option.distinct(1))

lemma scan_returns:
  assumes "fates c = []" "finite (dom (db (srv c)))"
  obtains N xs r where "\<forall>n\<ge>N. scan_keys scan n pat 0 [] c = Some (Inr xs, c\<lparr>srv := r\<rparr>)"
    "db r = db (srv c)" "set xs = {k. db (srv c) k \<noteq> None \<and> glob pat k}"
proof -
  from scan_ends [OF assms(2), of pat] obtain N xs r where N: "scan_run scan N pat 0 (srv c) = Some (xs, r)" by force
  have k: "scan_keys scan n pat 0 [] c = Some (Inr xs, c\<lparr>srv := r\<rparr>)" if "N \<le> n" for n
    using scan_keys_no_fault [OF scan_run_mono [OF N that] assms(1), of "[]"] by simp
  from that [of N xs r] k scan_keys_db [OF k [OF le_refl]] scan_keys_set [OF k [OF le_refl]] show thesis by simp
qed

lemma deleteKeysMatching_returns:
  assumes "fates c = []" "finite (dom (db (srv c)))" "\<forall>k. glob pat k \<longrightarrow> derived k"
  shows "\<exists>N c'. (\<forall>rounds\<ge>N. \<forall>n\<ge>N. deleteKeysMatching call scan rounds n pat c = Some (Inr (), c')) \<and> fates c' = []"
proof -
  obtain N xs r where N: "\<forall>n\<ge>N. scan_keys scan n pat 0 [] c = Some (Inr xs, c\<lparr>srv := r\<rparr>)" "db r = db (srv c)"
    "set xs = {k. db (srv c) k \<noteq> None \<and> glob pat k}" by (rule scan_returns [OF assms(1,2)])
  have Suc: "\<exists>m. k = Suc m" if "0 < k" for k :: nat using that by (cases k) auto
  show ?thesis
  proof (cases "xs = []")
    case True
    have "deleteKeysMatching call scan rounds n pat c = Some (Inr (), c\<lparr>srv := r\<rparr>)" if "N + 1 \<le> rounds" "N + 1 \<le> n" for rounds n
      using Suc [of rounds] that N(1) True by (auto simp: thenO_def liftO_def)
    with assms(1) show ?thesis by (intro exI [of _ "N + 1"] exI [of _ "c\<lparr>srv := r\<rparr>"]) simp
  next
    case False
    let ?c1 = "c\<lparr>srv := r\<rparr>" and ?chunks = "chunks (length xs) 500 xs"
    have u: "\<Union> (set ` set ?chunks) = set xs"
      using concat_chunks [of 500 xs "length xs"] by (metis le_refl set_concat zero_less_numeral)
    obtain c2 where c2: "del_chunks call ?chunks ?c1 = (Inr (), c2)" "fates c2 = []"
      "db (srv c2) = (\<lambda>k. if k \<in> set xs then None else db r k)"
      using del_chunks_no_fault [of ?c1 ?chunks] assms(1) u by (auto cong: if_cong)
    have fin: "finite (dom (db (srv c2)))" by (rule finite_subset [OF _ assms(2)]) (simp add: c2(3) N(2) dom_def subset_eq)
    obtain N' ys r' where N': "\<forall>n\<ge>N'. scan_keys scan n pat 0 [] c2 = Some (Inr ys, c2\<lparr>srv := r'\<rparr>)"
      "set ys = {k. db (srv c2) k \<noteq> None \<and> glob pat k}" by (rule scan_returns [OF c2(2) fin])
    have "\<not> (db (srv c2) k \<noteq> None \<and> glob pat k)" for k unfolding c2(3) N(2,3) by simp
    then have "set ys = {}" unfolding N'(2) by blast
    then have ys: "ys = []" by simp
    have "deleteKeysMatching call scan rounds n pat c = Some (Inr (), c2\<lparr>srv := r'\<rparr>)"
      if ge: "N + N' + 2 \<le> rounds" "N + N' + 2 \<le> n" for rounds n
    proof -
      have m: "rounds = Suc (Suc (rounds - 2))" using ge(1) by simp
      have "scan_keys scan n pat 0 [] c = Some (Inr xs, ?c1)" "scan_keys scan n pat 0 [] c2 = Some (Inr [], c2\<lparr>srv := r'\<rparr>)"
        using N(1) N'(1) ys ge(2) by simp_all
      then show ?thesis using False c2(1) by (subst m) (simp add: thenO_def liftO_def)
    qed
    with c2(2) show ?thesis by (intro exI [of _ "N + N' + 2"] exI [of _ "c2\<lparr>srv := r'\<rparr>"]) simp
  qed
qed

lemma delete_patterns_returns:
  assumes "fates c = []" "finite (dom (db (srv c)))" "\<forall>p\<in>set ps. \<forall>k. glob p k \<longrightarrow> derived k"
  shows "\<exists>N c'. (\<forall>rounds\<ge>N. \<forall>n\<ge>N. delete_patterns call scan rounds n ps c = Some (Inr (), c')) \<and> fates c' = []"
  using assms
proof (induction ps arbitrary: c)
  case Nil
  then show ?case by (auto intro!: exI [of _ c])
next
  case (Cons p ps)
  have p: "\<forall>k. glob p k \<longrightarrow> derived k" "\<forall>q\<in>set ps. \<forall>k. glob q k \<longrightarrow> derived k" using Cons.prems(3) by auto
  obtain N c1 where N: "\<forall>rounds\<ge>N. \<forall>n\<ge>N. deleteKeysMatching call scan rounds n p c = Some (Inr (), c1)" "fates c1 = []"
    using deleteKeysMatching_returns [OF Cons.prems(1,2) p(1)] by blast
  have "finite (dom (db (srv c1)))"
    using deleteKeysMatching_outcome [OF p(1), of N N c "Inr ()" c1] N(1) shrinks_finite Cons.prems(2) by blast
  from Cons.IH [OF N(2) this p(2)] obtain N' c' where
    N': "\<forall>rounds\<ge>N'. \<forall>n\<ge>N'. delete_patterns call scan rounds n ps c1 = Some (Inr (), c')" "fates c' = []" by blast
  have "\<forall>rounds\<ge>N + N'. \<forall>n\<ge>N + N'. delete_patterns call scan rounds n (p # ps) c = Some (Inr (), c')"
    using N(1) N'(1) by (simp add: thenO_def)
  with N'(2) show ?case by blast
qed

text \<open>
  The preparation: either nothing has happened, or the marker says \<open>rebuilding\<close>, and keys the rebuild
  does not own are as they were; on success no derived key is left.
\<close>

lemma set_status_db: "db (snd (call (SET status_key m 0) r)) = mark m (db r)"
  by (simp add: call_db mark_def)

lemma Prepare_outcome:
  assumes "PrepareVoteStateRebuild call scan rounds n c = Some (res, c')"
  shows "isl res \<and> db (srv c') = db (srv c) \<or>
     keeps (mark VoteStateRebuilding (db (srv c))) (db (srv c')) \<and>
     (\<not> isl res \<longrightarrow> (\<forall>k. derived k \<longrightarrow> db (srv c') k = None) \<and> stream_at (db (srv c)) outbox_key \<noteq> None)"
proof -
  let ?xlen = "exec (call (XLEN outbox_key))" and ?set = "exec (call (SET status_key VoteStateRebuilding 0))"
    and ?del = "exec (call (DEL [time_key, score_key]))"
  have x: "db (srv c1) = db (srv c)" "r = Inr y \<Longrightarrow> stream_at (db (srv c)) outbox_key \<noteq> None" if "?xlen c = (r, c1)" for r y c1
    using exec_srv [OF that] by (auto simp: call_db call_reply on_stream_def split: option.splits)
  have s: "db (srv c2) = db (srv c1) \<and> isl r \<or> db (srv c2) = mark VoteStateRebuilding (db (srv c1))"
    if "?set c1 = (r, c2)" for r c1 c2
    using exec_srv [OF that] by (auto simp: set_status_db)
  have d: "keeps (db (srv c2)) (db (srv c3))" if "?del c2 = (r, c3)" for r c2 c3
    using del_shrinks [OF _ that] by (auto intro: shrinks_keeps)
  have pat: "\<forall>p\<in>set rebuild_patterns. \<forall>k. glob p k \<longrightarrow> derived k" by (auto simp: derived_def)
  note p = delete_patterns_outcome [OF pat]
  from assms consider
      (xlen) e where "?xlen c = (Inl e, c')" "res = Inl e"
    | (full) y where "?xlen c = (Inr y, c')" "isl res"
    | (set) y e c1 where "?xlen c = (Inr y, c1)" "?set c1 = (Inl e, c')" "res = Inl e"
    | (del) y z e c1 c2 where "?xlen c = (Inr y, c1)" "?set c1 = (Inr z, c2)" "?del c2 = (Inl e, c')" "res = Inl e"
    | (keys) y z w c1 c2 c3 where "?xlen c = (Inr y, c1)" "?set c1 = (Inr z, c2)" "?del c2 = (Inr w, c3)"
        "delete_patterns call scan rounds n rebuild_patterns c3 = Some (res, c')"
    unfolding PrepareVoteStateRebuild_def by (auto simp: thenO_Some split: if_splits)
  then show ?thesis
  proof cases
    case keys
    have "db (srv c2) = mark VoteStateRebuilding (db (srv c))" using s [OF keys(2)] x(1) [OF keys(1)] by auto
    with d [OF keys(3)] p [OF keys(4)] have "keeps (mark VoteStateRebuilding (db (srv c))) (db (srv c'))"
      by (metis keeps_trans shrinks_keeps)
    moreover have "db (srv c') k = None" if "\<not> isl res" "derived k" for k
      using p [OF keys(4)] that by (auto simp: derived_def)
    ultimately show ?thesis using x(2) [OF keys(1)] by blast
  next
    case del
    with s [OF del(2)] x(1) [OF del(1)] d [OF del(3)] show ?thesis by auto
  next
    case set
    with s [OF set(2)] x(1) [OF set(1)] show ?thesis by auto
  qed (use x(1) in auto)
qed

end

section \<open>One batch after the other\<close>

definition indexed :: "forum_tables \<Rightarrow> int \<Rightarrow> post_row set" where
  "indexed t a = {p \<in> set (t_posts t). active p \<and> po_id p \<le> a}"

definition due :: "forum_tables \<Rightarrow> int \<Rightarrow> post_row list" where
  "due t a = filter (\<lambda>p. active p \<and> a < po_id p) (t_posts t)"

definition batch :: "forum_tables \<Rightarrow> int \<Rightarrow> nat \<Rightarrow> post_row list" where
  "batch t a n = take n (sort_key po_id (due t a))"

definition vote_count :: "forum_tables \<Rightarrow> post_row set \<Rightarrow> nat" where
  "vote_count t P = length (filter (\<lambda>v. pv_post v \<in> po_id ` P) (post_vote t))"

lemma recovery_batch_eq: "recovery_batch a n t = map (post_snapshot t) (batch t a n)"
  by (simp add: recovery_batch_def batch_def due_def take_map)

lemma batch_empty: "0 < n \<Longrightarrow> batch t a n = [] \<longleftrightarrow> due t a = []"
  by (auto simp: batch_def) (metis length_0_conv length_sort)

lemma due_distinct: "tables_valid t \<Longrightarrow> distinct (map po_id (due t a))"
  unfolding tables_valid_def due_def by (meson distinct_map_filter)

lemma sorted_le_last: "sorted (map f xs) \<Longrightarrow> x \<in> set xs \<Longrightarrow> f x \<le> f (last xs)"
  by (induction xs rule: rev_induct) (auto simp: sorted_append)

lemma batch_split:
  assumes "tables_valid t" "batch t a n \<noteq> []"
  defines "b \<equiv> po_id (last (batch t a n))"
  shows "distinct (map po_id (batch t a n))" "set (batch t a n) = {p \<in> set (due t a). po_id p \<le> b}" "a < b"
    "length (due t a) = length (batch t a n) + length (due t b)"
    "indexed t b = indexed t a \<union> set (batch t a n)" "set (due t a) = set (batch t a n) \<union> set (due t b)"
proof -
  let ?B = "batch t a n"
  obtain D where S: "sort_key po_id (due t a) = ?B @ D" unfolding batch_def by (metis append_take_drop_id)
  have "sorted (map po_id (sort_key po_id (due t a)))" by (rule sorted_sort_key)
  then have so: "sorted (map po_id ?B)" "\<forall>x\<in>set ?B. \<forall>y\<in>set D. po_id x \<le> po_id y" by (auto simp: S sorted_append)
  have "distinct (map po_id (sort_key po_id (due t a)))" using due_distinct [OF assms(1), of a] by (simp add: distinct_map)
  then have dist: "distinct (map po_id ?B)" "distinct (map po_id D)" "po_id ` set ?B \<inter> po_id ` set D = {}"
    by (simp_all only: S map_append distinct_append set_map)
  show "distinct (map po_id ?B)" by (rule dist(1))
  have le: "po_id p \<le> b" if "p \<in> set ?B" for p unfolding b_def by (rule sorted_le_last [OF so(1) that])
  have last: "last ?B \<in> set ?B" using assms(2) by simp
  have gt: "b < po_id p" if "p \<in> set D" for p
  proof -
    have "b \<le> po_id p" "b \<noteq> po_id p" using last so(2) dist(3) that unfolding b_def by blast+
    then show ?thesis by simp
  qed
  have sets: "set (due t a) = set ?B \<union> set D" by (metis S set_append set_sort)
  show bs: "set ?B = {p \<in> set (due t a). po_id p \<le> b}" unfolding sets using le gt by fastforce
  have "last ?B \<in> set (due t a)" using last sets by blast
  then show "a < b" unfolding b_def due_def by simp
  then have du: "set (due t b) = {p \<in> set (due t a). b < po_id p}" by (auto simp: due_def)
  have D: "set D = set (due t b)" unfolding du sets using le gt by fastforce
  have "distinct D" "distinct (due t b)" using dist(2) due_distinct [OF assms(1), of b] by (simp_all add: distinct_map)
  then have "length D = length (due t b)" by (metis D distinct_card)
  then show "length (due t a) = length ?B + length (due t b)" by (metis S length_append length_sort)
  show "indexed t b = indexed t a \<union> set ?B" unfolding bs using \<open>a < b\<close> by (auto simp: indexed_def due_def)
  show "set (due t a) = set ?B \<union> set (due t b)" unfolding sets D by (rule refl)
qed

definition post_votes :: "forum_tables \<Rightarrow> post_row list \<Rightarrow> post_row \<Rightarrow> VoteRecoverySnapshot list" where
  "post_votes t ps p = filter (\<lambda>v. vPostID v = po_id p) (recovery_votes (map po_id ps) t)"

lemma post_votes_facts:
  assumes "tables_valid t" "p \<in> set ps"
  shows "set (post_votes t ps p) = vote_snapshot ` {v \<in> set (post_vote t). pv_post v = po_id p}"
    "distinct (map vUserID (post_votes t ps p))"
    "\<forall>v\<in>set (post_votes t ps p). vDirection v \<in> {-1, 0, 1} \<and> 0 < vVersion v \<and> int_range 64 (vVersion v)"
proof -
  have e: "post_votes t ps p = map vote_snapshot (filter (\<lambda>v. pv_post v = po_id p)
      (sort_key (\<lambda>v. (pv_post v, pv_user v)) (filter (\<lambda>v. pv_post v \<in> po_id ` set ps) (post_vote t))))" (is "_ = map _ ?vs")
    by (simp add: post_votes_def recovery_votes_def filter_map comp_def vote_snapshot_def)
  have vs: "set ?vs = {v \<in> set (post_vote t). pv_post v = po_id p}" using assms(2) by auto
  then show s: "set (post_votes t ps p) = vote_snapshot ` {v \<in> set (post_vote t). pv_post v = po_id p}" by (simp add: e)
  have "distinct (map (\<lambda>v. (pv_user v, pv_post v)) (post_vote t))"
    using assms(1) by (simp add: tables_valid_def rows_distinct_def)
  then have "distinct (map (\<lambda>v. (pv_user v, pv_post v)) ?vs)" by (simp add: distinct_map inj_on_def)
  then have "distinct (map pv_user ?vs)" using assms(2) by (auto simp: distinct_map inj_on_def)
  then show "distinct (map vUserID (post_votes t ps p))" by (simp add: e vote_snapshot_def comp_def)
  show "\<forall>v\<in>set (post_votes t ps p). vDirection v \<in> {-1, 0, 1} \<and> 0 < vVersion v \<and> int_range 64 (vVersion v)"
    using assms(1) by (auto simp: s vote_snapshot_def tables_valid_def)
qed

lemma RestoreVoteStateBatch_valid:
  assumes "tables_valid t" "set ps \<subseteq> {p \<in> set (t_posts t). active p}"
  shows "RestoreVoteStateBatch call (map (post_snapshot t) ps) (recovery_votes (map po_id ps) t) =
     thenM (exec_pipe call (concat (map (\<lambda>p. post_cmds (post_snapshot t p) (post_votes t ps p)) ps))) (\<lambda>_. ret ())"
proof -
  have v: "\<not> (\<exists>v\<in>set (recovery_votes (map po_id ps) t). vDirection v \<notin> {-1, 0, 1} \<or> vVersion v \<le> 0)"
    using assms(1) by (auto simp: recovery_votes_def vote_snapshot_def tables_valid_def)
  have p: "\<not> (\<exists>p\<in>set (map (post_snapshot t) ps). pPostID p \<le> 0 \<or> pCommunityID p \<le> 0 \<or> pCreateUnix p \<le> 0)"
    using assms by (fastforce simp: post_snapshot_def tables_valid_def)
  show ?thesis
    unfolding RestoreVoteStateBatch_def if_not_P [OF v] if_not_P [OF p]
    by (simp add: comp_def post_snapshot_def post_votes_def)
qed

lemma exec_pipe_srv:
  assumes "exec_pipe call cs c = (res, c')"
  shows "isl res \<and> (\<exists>n. srv c' = snd (run_all call (take n cs) (srv c))) \<or>
    srv c' = snd (run_all call cs (srv c)) \<and> (isl res \<or> res = lift_reply (first_error (fst (run_all call cs (srv c)))))"
proof (cases "\<exists>n fs. fates c = ReplyLost n # fs")
  case True
  then obtain n fs where "fates c = ReplyLost n # fs" by blast
  with assms show ?thesis by (auto simp: exec_pipe_def intro: exI [of _ n])
next
  case False
  then have "exec_pipe call cs c = exec_tx call cs c" by (auto simp: exec_pipe_def split: list.splits fate.splits)
  with assms exec_srv [of "\<lambda>r. (first_error (fst (run_all call cs r)), snd (run_all call cs r))" c res c']
  show ?thesis by (auto simp: exec_tx_def intro: exI [of _ 0])
qed

lemma exec_pipe_no_fault: "fates c = [] \<Longrightarrow> exec_pipe call cs c =
    (lift_reply (first_error (fst (run_all call cs (srv c)))), c\<lparr>srv := snd (run_all call cs (srv c))\<rparr>)"
  by (simp add: exec_pipe_def exec_tx_def exec_no_fault)

lemma wrap_err_run: "wrap_err txt m s = (res, s') \<longleftrightarrow> (\<exists>r. m s = (r, s') \<and>
    (case r of Inl e \<Rightarrow> res = Inl (Wrapped txt e) | Inr x \<Rightarrow> res = Inr x))"
  by (auto simp: wrap_err_def split: prod.splits sum.splits)

context redis_server
begin

lemma restore_rows:
  assumes valid: "tables_valid t" and ps: "set ps \<subseteq> {p \<in> set (t_posts t). active p}" "distinct (map po_id ps)"
    and old: "restored t P (db (srv c))" "po_id ` set ps \<inter> po_id ` P = {}"
    and run: "RestoreVoteStateBatch call (map (post_snapshot t) ps) (recovery_votes (map po_id ps) t) c = (res, c')"
  shows "keeps (db (srv c)) (db (srv c'))" "\<not> isl res \<Longrightarrow> restored t (P \<union> set ps) (db (srv c'))"
    "fates c = [] \<Longrightarrow> res = Inr () \<and> fates c' = []"
proof -
  let ?cs = "concat (map (\<lambda>p. post_cmds (post_snapshot t p) (post_votes t ps p)) ps)"
  note vf = post_votes_facts [OF valid]
  have "\<forall>x\<in>set (post_cmds (post_snapshot t p) (post_votes t ps p)). restore_cmd x" if "p \<in> set ps" for p
    by (rule post_cmds_ok) (rule vf(3) [OF that])
  then have cs: "\<forall>x\<in>set ?cs. restore_cmd x" by simp
  have full: "restored t (P \<union> set ps) (db (snd (run_all call ?cs (srv c))))"
  proof (rule restore_batch [OF old(1) ps(2) old(2)], intro ballI conjI)
    fix p assume p: "p \<in> set ps"
    show "set (post_votes t ps p) = vote_snapshot ` {v \<in> set (post_vote t). pv_post v = po_id p}"
      "distinct (map vUserID (post_votes t ps p))" by (rule vf(1,2) [OF p])+
    show "vDirection v \<in> {-1, 0, 1}" "0 < vVersion v" "int_range 64 (vVersion v)" if "v \<in> set (post_votes t ps p)" for v
      using vf(3) [OF p] that by blast+
    show "int_range 64 (net_vote t (po_id p) * scorePerVote)" "int_range 64 (post_score t p)"
      using p ps(1) valid unfolding tables_valid_def by blast+
  qed
  have run': "thenM (exec_pipe call ?cs) (\<lambda>_. ret ()) c = (res, c')"
    using run by (simp only: RestoreVoteStateBatch_valid [OF valid ps(1)])
  obtain r where r: "exec_pipe call ?cs c = (r, c')" "isl res \<longleftrightarrow> isl r"
    using run' by (cases rule: thenM_cases [of "exec_pipe call ?cs" c "\<lambda>_. ret ()"]) auto
  have "keeps (db (srv c)) (db (snd (run_all call xs (srv c))))" if "set xs \<subseteq> set ?cs" for xs
    unfolding keeps_def using run_all_frame [of xs] that cs by blast
  then show "keeps (db (srv c)) (db (srv c'))"
    using exec_pipe_srv [OF r(1)] set_take_subset [of _ ?cs] by (elim disjE conjE exE) simp_all
  show "restored t (P \<union> set ps) (db (srv c'))" if "\<not> isl res"
    using exec_pipe_srv [OF r(1)] r(2) that full by auto
  have "typed (db (srv c))" using old(1) by (simp add: restored_def)
  then obtain ys where "first_error (fst (run_all call ?cs (srv c))) = Inr ys" using restore_cmds_run [OF cs] by blast
  then show "res = Inr () \<and> fates c' = []" if "fates c = []"
    using run' that by (simp add: thenM_def exec_pipe_no_fault split: sum.splits) auto
qed

lemma thenO_E:
  assumes "thenO m f s = Some (res, s')"
  obtains (err) e where "m s = Some (Inl e, s')" "res = Inl e" | (ok) x s1 where "m s = Some (Inr x, s1)" "f x s1 = Some (res, s')"
  using assms by (auto simp: thenO_Some)

lemma wrap_redisM:
  assumes "wrap_err msg (redisM m) s = (r, s')"
  obtains r' c where "m (a_redis s) = (r', c)" "s' = s\<lparr>a_redis := c\<rparr>" "isl r' \<longleftrightarrow> isl r" "\<And>x. r = Inr x \<Longrightarrow> r' = Inr x"
  using assms by (cases "m (a_redis s)") (auto simp: wrap_err_def redisM_def split: sum.splits)

lemma thenO_liftE:
  assumes "thenO (liftO m) f s = Some (res, s')"
  obtains (err) e where "m s = (Inl e, s')" "res = Inl e" | (ok) x s1 where "m s = (Inr x, s1)" "f x s1 = Some (res, s')"
  using assms by (auto simp: thenO_Some)

text \<open>What a batch reads, and the loop as a sequence of batches.\<close>

lemma read_posts:
  assumes "0 < limit" "wrap_err txt (GetPostRecoveryBatch a limit) s = (res, s')"
  shows "a_tables s' = a_tables s" "a_redis s' = a_redis s" "isl res \<or> res = Inr (map (post_snapshot (a_tables s)) (batch (a_tables s) a (nat limit)))"
    "a_sql s = [] \<Longrightarrow> \<not> isl res \<and> a_sql s' = []"
  using assms by (auto simp: wrap_err_run GetPostRecoveryBatch_def sql_query_run recovery_batch_eq split: if_splits)

lemma read_votes:
  assumes "ps \<noteq> []" "wrap_err txt (GetVoteRecoverySnapshots ps) s = (res, s')"
  shows "a_tables s' = a_tables s" "a_redis s' = a_redis s" "isl res \<or> res = Inr (recovery_votes ps (a_tables s))"
    "a_sql s = [] \<Longrightarrow> \<not> isl res \<and> a_sql s' = []"
  using assms by (auto simp: wrap_err_run GetVoteRecoverySnapshots_def sql_query_run split: if_splits)

lemma vote_count_Un: "po_id ` P \<inter> po_id ` Q = {} \<Longrightarrow> vote_count t (P \<union> Q) = vote_count t P + vote_count t Q"
proof -
  assume d: "po_id ` P \<inter> po_id ` Q = {}"
  have "length (filter (\<lambda>v. pv_post v \<in> po_id ` (P \<union> Q)) vs) =
      length (filter (\<lambda>v. pv_post v \<in> po_id ` P) vs) + length (filter (\<lambda>v. pv_post v \<in> po_id ` Q) vs)" for vs
    by (induction vs) (use d in auto)
  then show ?thesis by (simp add: vote_count_def)
qed

lemma vote_count_read: "length (recovery_votes (map po_id ps) t) = vote_count t (set ps)"
  by (simp add: recovery_votes_def vote_count_def)

text \<open>The cases of one turn of the loop; \<open>ps\<close> are the rows of the batch.\<close>

lemma rebuild_turn:
  assumes run: "rebuild_batches call (Suc n) sz a report s = Some (res, s')" and sz: "0 < sz"
  defines "t \<equiv> a_tables s" and "ps \<equiv> batch (a_tables s) a (nat sz)"
  obtains (stop) "a_tables s' = t" "a_redis s' = a_redis s" "isl res"
  | (finished) "a_tables s' = t" "a_redis s' = a_redis s" "ps = []" "res = Inr report"
  | (lost) e c where "a_tables s' = t" "ps \<noteq> []" "isl res"
      "RestoreVoteStateBatch call (map (post_snapshot t) ps) (recovery_votes (map po_id ps) t) (a_redis s) = (Inl e, a_redis s')"
  | (more) s1 where "a_tables s1 = t" "ps \<noteq> []"
      "RestoreVoteStateBatch call (map (post_snapshot t) ps) (recovery_votes (map po_id ps) t) (a_redis s) = (Inr (), a_redis s1)"
      "rebuild_batches call n sz (po_id (last ps))
        \<lparr>Posts = Posts report + int (length ps), Votes = Votes report + int (vote_count t (set ps))\<rparr> s1 = Some (res, s')"
proof (rule thenO_liftE [OF run [unfolded rebuild_batches.simps]])
  fix e assume e: "wrap_err ''read post recovery batch'' (GetPostRecoveryBatch a sz) s = (Inl e, s')" "res = Inl e"
  from read_posts [OF sz e(1)] e(2) show thesis by (intro stop) (simp_all add: t_def)
next
  fix x s1
  assume x: "wrap_err ''read post recovery batch'' (GetPostRecoveryBatch a sz) s = (Inr x, s1)"
    and k: "(if x = [] then liftO (ret report) else
      thenO (liftO (wrap_err ''read vote recovery batch'' (GetVoteRecoverySnapshots (map pPostID x)))) (\<lambda>votes.
      thenO (liftO (wrap_err ''write redis recovery batch'' (redisM (RestoreVoteStateBatch call x votes)))) (\<lambda>_.
      rebuild_batches call n sz (pPostID (last x))
        \<lparr>Posts = Posts report + int (length x), Votes = Votes report + int (length votes)\<rparr>))) s1 = Some (res, s')"
  have s1: "a_tables s1 = t" "a_redis s1 = a_redis s" and xe: "x = map (post_snapshot t) ps"
    using read_posts [OF sz x] by (simp_all add: t_def ps_def)
  show thesis
  proof (cases "ps = []")
    case True
    with k xe s1 show thesis by (intro finished) simp_all
  next
    case False
    have ids: "map pPostID x = map po_id ps" "pPostID (last x) = po_id (last ps)" "x \<noteq> []" "map po_id ps \<noteq> []"
      using False by (simp_all add: xe comp_def post_snapshot_def last_map)
    show thesis
    proof (rule thenO_liftE [OF k [unfolded if_not_P [OF ids(3)], unfolded ids(1,2)]])
      fix e assume e: "wrap_err ''read vote recovery batch'' (GetVoteRecoverySnapshots (map po_id ps)) s1 = (Inl e, s')" "res = Inl e"
      from read_votes [OF ids(4) e(1)] e(2) s1 show thesis by (intro stop) simp_all
    next
      fix v s2
      assume v: "wrap_err ''read vote recovery batch'' (GetVoteRecoverySnapshots (map po_id ps)) s1 = (Inr v, s2)"
        and k2: "thenO (liftO (wrap_err ''write redis recovery batch'' (redisM (RestoreVoteStateBatch call x v)))) (\<lambda>_.
          rebuild_batches call n sz (po_id (last ps))
            \<lparr>Posts = Posts report + int (length x), Votes = Votes report + int (length v)\<rparr>) s2 = Some (res, s')"
      have s2: "a_tables s2 = t" "a_redis s2 = a_redis s" and ve: "v = recovery_votes (map po_id ps) t"
        using read_votes [OF ids(4) v] s1 by simp_all
      have w: "a_tables s3 = t \<and> (\<exists>r. RestoreVoteStateBatch call x v (a_redis s) = (r, a_redis s3) \<and> isl r = isl y)"
        if "wrap_err msg (redisM (RestoreVoteStateBatch call x v)) s2 = (y, s3)" for y s3 msg
        using that s2 by (cases "RestoreVoteStateBatch call x v (a_redis s)") (auto simp: wrap_err_def redisM_def split: sum.splits)
      show thesis
      proof (rule thenO_liftE [OF k2])
        fix e assume e: "wrap_err ''write redis recovery batch'' (redisM (RestoreVoteStateBatch call x v)) s2 = (Inl e, s')" "res = Inl e"
        from w [OF e(1)] obtain e' where "RestoreVoteStateBatch call x v (a_redis s) = (Inl e', a_redis s')" "a_tables s' = t"
          by (auto simp: isl_def)
        with e(2) False show thesis by (intro lost) (simp_all add: xe ve)
      next
        fix u s3 assume u: "wrap_err ''write redis recovery batch'' (redisM (RestoreVoteStateBatch call x v)) s2 = (Inr u, s3)"
          and k3: "rebuild_batches call n sz (po_id (last ps))
            \<lparr>Posts = Posts report + int (length x), Votes = Votes report + int (length v)\<rparr> s3 = Some (res, s')"
        from w [OF u] obtain r where "RestoreVoteStateBatch call x v (a_redis s) = (r, a_redis s3)" "a_tables s3 = t" "\<not> isl r" by auto
        moreover have "r = Inr ()" using \<open>\<not> isl r\<close> by (cases r) auto
        ultimately show thesis using k3 False by (intro more) (simp_all add: xe ve vote_count_read)
      qed
    qed
  qed
qed

lemma rebuild_batches_outcome:
  assumes "rebuild_batches call n sz a report s = Some (res, s')" "0 < sz" "tables_valid (a_tables s)"
    and "restored (a_tables s) (indexed (a_tables s) a) (db (srv (a_redis s)))"
  shows "a_tables s' = a_tables s \<and> keeps (db (srv (a_redis s))) (db (srv (a_redis s'))) \<and>
    (\<forall>rep. res = Inr rep \<longrightarrow>
       restored (a_tables s) (indexed (a_tables s) a \<union> set (due (a_tables s) a)) (db (srv (a_redis s'))) \<and>
       Posts rep = Posts report + int (length (due (a_tables s) a)) \<and>
       Votes rep = Votes report + int (vote_count (a_tables s) (set (due (a_tables s) a))))"
  using assms
proof (induction n arbitrary: a report s)
  case (Suc n)
  define t where "t = a_tables s"
  define ps where "ps = batch t a (nat sz)"
  have valid: "tables_valid t" and old: "restored t (indexed t a) (db (srv (a_redis s)))"
    using Suc.prems(3,4) by (simp_all add: t_def)
  note turn = rebuild_turn [OF Suc.prems(1,2), folded t_def, folded ps_def]
  have rows: "keeps (db (srv (a_redis s))) (db (srv c'))"
      "\<not> isl r \<Longrightarrow> restored t (indexed t (po_id (last ps))) (db (srv c'))"
    if "RestoreVoteStateBatch call (map (post_snapshot t) ps) (recovery_votes (map po_id ps) t) (a_redis s) = (r, c')" "ps \<noteq> []"
    for r c'
  proof -
    note b = batch_split [OF valid, of a "nat sz", folded ps_def, OF that(2)]
    have "set ps \<subseteq> {p \<in> set (t_posts t). active p}" unfolding b(2) by (auto simp: due_def)
    moreover have "po_id ` set ps \<inter> po_id ` indexed t a = {}" unfolding b(2) by (auto simp: due_def indexed_def)
    ultimately show "keeps (db (srv (a_redis s))) (db (srv c'))"
      "\<not> isl r \<Longrightarrow> restored t (indexed t (po_id (last ps))) (db (srv c'))"
      unfolding b(5) using restore_rows [OF valid _ b(1) old _ that(1)] by blast+
  qed
  show ?case
    unfolding t_def [symmetric]
  proof (rule turn)
    assume "a_tables s' = t" "a_redis s' = a_redis s" "isl res"
    then show "a_tables s' = t \<and> keeps (db (srv (a_redis s))) (db (srv (a_redis s'))) \<and>
      (\<forall>rep. res = Inr rep \<longrightarrow> restored t (indexed t a \<union> set (due t a)) (db (srv (a_redis s'))) \<and>
         Posts rep = Posts report + int (length (due t a)) \<and> Votes rep = Votes report + int (vote_count t (set (due t a))))"
      by auto
  next
    assume e: "a_tables s' = t" "a_redis s' = a_redis s" "ps = []" "res = Inr report"
    then have "due t a = []" using Suc.prems(2) by (simp add: ps_def batch_empty)
    with e old show "a_tables s' = t \<and> keeps (db (srv (a_redis s))) (db (srv (a_redis s'))) \<and>
      (\<forall>rep. res = Inr rep \<longrightarrow> restored t (indexed t a \<union> set (due t a)) (db (srv (a_redis s'))) \<and>
         Posts rep = Posts report + int (length (due t a)) \<and> Votes rep = Votes report + int (vote_count t (set (due t a))))"
      by (simp add: vote_count_def)
  next
    fix e
    assume e: "a_tables s' = t" "ps \<noteq> []" "isl res"
      "RestoreVoteStateBatch call (map (post_snapshot t) ps) (recovery_votes (map po_id ps) t) (a_redis s) = (Inl e, a_redis s')"
    show "a_tables s' = t \<and> keeps (db (srv (a_redis s))) (db (srv (a_redis s'))) \<and>
      (\<forall>rep. res = Inr rep \<longrightarrow> restored t (indexed t a \<union> set (due t a)) (db (srv (a_redis s'))) \<and>
         Posts rep = Posts report + int (length (due t a)) \<and> Votes rep = Votes report + int (vote_count t (set (due t a))))"
      using rows(1) [OF e(4,2)] e(1,3) by auto
  next
    fix s1
    let ?b = "po_id (last ps)"
    assume e: "a_tables s1 = t" "ps \<noteq> []"
      "RestoreVoteStateBatch call (map (post_snapshot t) ps) (recovery_votes (map po_id ps) t) (a_redis s) = (Inr (), a_redis s1)"
      "rebuild_batches call n sz ?b
        \<lparr>Posts = Posts report + int (length ps), Votes = Votes report + int (vote_count t (set ps))\<rparr> s1 = Some (res, s')"
    note b = batch_split [OF valid, of a "nat sz", folded ps_def, OF e(2)]
    have "po_id ` set ps \<inter> po_id ` set (due t ?b) = {}" unfolding b(2) by (auto simp: due_def)
    then have vc: "vote_count t (set (due t a)) = vote_count t (set ps) + vote_count t (set (due t ?b))"
      unfolding b(6) by (rule vote_count_Un)
    have un: "indexed t ?b \<union> set (due t ?b) = indexed t a \<union> set (due t a)" using b(5,6) by blast
    have s1: "keeps (db (srv (a_redis s))) (db (srv (a_redis s1)))" "restored t (indexed t ?b) (db (srv (a_redis s1)))"
      using rows [OF e(3,2)] by simp_all
    have ih: "a_tables s' = t \<and> keeps (db (srv (a_redis s1))) (db (srv (a_redis s'))) \<and>
        (\<forall>rep. res = Inr rep \<longrightarrow> restored t (indexed t ?b \<union> set (due t ?b)) (db (srv (a_redis s'))) \<and>
           Posts rep = Posts report + int (length ps) + int (length (due t ?b)) \<and>
           Votes rep = Votes report + int (vote_count t (set ps)) + int (vote_count t (set (due t ?b))))"
      by (rule Suc.IH [OF e(4) Suc.prems(2), unfolded e(1) RedisRebuildReport.select_convs, OF valid s1(2)])
    show "a_tables s' = t \<and> keeps (db (srv (a_redis s))) (db (srv (a_redis s'))) \<and>
      (\<forall>rep. res = Inr rep \<longrightarrow> restored t (indexed t a \<union> set (due t a)) (db (srv (a_redis s'))) \<and>
         Posts rep = Posts report + int (length (due t a)) \<and> Votes rep = Votes report + int (vote_count t (set (due t a))))"
      unfolding vc b(4) of_nat_add un [symmetric] add.assoc [symmetric] using ih keeps_trans [OF s1(1)] by blast
  qed
qed simp

text \<open>Without faults the loop ends, one turn for each batch and a last one for the empty batch.\<close>

lemma rebuild_batches_returns:
  assumes "tables_valid (a_tables s)" "restored (a_tables s) (indexed (a_tables s) a) (db (srv (a_redis s)))"
    and "0 < sz" "fates (a_redis s) = []" "a_sql s = []" "length (due (a_tables s) a) < n"
  shows "\<exists>rep s'. rebuild_batches call n sz a report s = Some (Inr rep, s') \<and> fates (a_redis s') = [] \<and> a_sql s' = []"
  using assms
proof (induction n arbitrary: a report s)
  case (Suc n)
  define t where "t = a_tables s"
  define ps where "ps = batch t a (nat sz)"
  have valid: "tables_valid t" and old: "restored t (indexed t a) (db (srv (a_redis s)))"
    using Suc.prems(1,2) by (simp_all add: t_def)
  obtain x s1 where x: "wrap_err ''read post recovery batch'' (GetPostRecoveryBatch a sz) s = (x, s1)" by fastforce
  have s1: "a_tables s1 = t" "a_redis s1 = a_redis s" "a_sql s1 = []" "x = Inr (map (post_snapshot t) ps)"
    using read_posts [OF Suc.prems(3) x] Suc.prems(5) by (auto simp: t_def ps_def)
  show ?case
  proof (cases "ps = []")
    case True
    then have "rebuild_batches call (Suc n) sz a report s = Some (Inr report, s1)" using x s1(4) by (simp add: thenO_def liftO_def)
    with s1 Suc.prems(4) show ?thesis by simp
  next
    case False
    note b = batch_split [OF valid, of a "nat sz", folded ps_def, OF False]
    have ids: "map pPostID (map (post_snapshot t) ps) = map po_id ps" "pPostID (last (map (post_snapshot t) ps)) = po_id (last ps)"
      "map (post_snapshot t) ps \<noteq> []" "map po_id ps \<noteq> []"
      using False by (simp_all add: comp_def post_snapshot_def last_map)
    obtain v s2 where v: "wrap_err ''read vote recovery batch'' (GetVoteRecoverySnapshots (map po_id ps)) s1 = (v, s2)" by fastforce
    have s2: "a_tables s2 = t" "a_redis s2 = a_redis s" "a_sql s2 = []" "v = Inr (recovery_votes (map po_id ps) t)"
      using read_votes [OF ids(4) v] s1 by auto
    obtain y c where y: "RestoreVoteStateBatch call (map (post_snapshot t) ps) (recovery_votes (map po_id ps) t) (a_redis s) = (y, c)"
      by fastforce
    have "set ps \<subseteq> {p \<in> set (t_posts t). active p}" unfolding b(2) by (auto simp: due_def)
    moreover have "po_id ` set ps \<inter> po_id ` indexed t a = {}" unfolding b(2) by (auto simp: due_def indexed_def)
    ultimately have c: "y = Inr ()" "fates c = []" "restored t (indexed t (po_id (last ps))) (db (srv c))"
      unfolding b(5) using restore_rows(2,3) [OF valid _ b(1) old _ y] Suc.prems(4) by simp_all
    let ?s3 = "s2\<lparr>a_redis := c\<rparr>"
    have step: "rebuild_batches call (Suc n) sz a report s = rebuild_batches call n sz (po_id (last ps))
        \<lparr>Posts = Posts report + int (length ps), Votes = Votes report + int (length (recovery_votes (map po_id ps) t))\<rparr> ?s3"
      unfolding rebuild_batches.simps thenO_def [of "liftO _"] liftO_def x s1(4) option.case prod.case sum.case if_not_P [OF ids(3)] ids(1,2) v s2(4)
        length_map
      by (simp add: wrap_err_def redisM_def s2 y c(1))
    have "length ps \<noteq> 0" using False by simp
    then have "length (due t (po_id (last ps))) < n" using Suc.prems(6) b(4) unfolding t_def [symmetric] by linarith
    then show ?thesis
      unfolding step by (intro Suc.IH) (use s2 valid c Suc.prems(3) in simp_all)
  qed
qed simp

lemma CountIndexedPosts_db: "CountIndexedPosts call c = (res, c') \<Longrightarrow> db (srv c') = db (srv c)"
proof -
  have z: "db (srv c2) = db (srv c1)" if "exec (call (ZCARD k)) c1 = (r, c2)" for k c1 c2 r
    using exec_srv [OF that] by (auto simp: call_db on_zset_def split: option.splits)
  assume run: "CountIndexedPosts call c = (res, c')"
  show ?thesis
  proof (cases "exec (call (ZCARD time_key)) c")
    case (Pair r1 c1)
    obtain r2 c2 where 2: "exec (call (ZCARD score_key)) c1 = (r2, c2)" by fastforce
    show ?thesis using run z [OF Pair] z [OF 2] Pair 2 by (auto simp: CountIndexedPosts_def thenM_def split: sum.splits if_splits)
  qed
qed

lemma MarkVoteStateReady_db:
  assumes "MarkVoteStateReady call c = (res, c')"
  shows "db (srv c') = mark VoteStateReady (db (srv c)) \<or> isl res \<and> db (srv c') = db (srv c)"
proof -
  obtain r c1 where r: "exec (call (SET status_key VoteStateReady 0)) c = (r, c1)" by fastforce
  have "c' = c1" "isl res \<longleftrightarrow> isl r" using assms r by (auto simp: MarkVoteStateReady_def thenM_def split: sum.splits)
  with exec_srv [OF r] show ?thesis by (auto simp: call_db mark_def)
qed

lemma GetVoteStateStatus_marked:
  assumes "db (srv c) status_key = Some (VStr m)" "GetVoteStateStatus call c = (res, c')"
  shows "isl res \<or> res = Inr m"
proof -
  obtain r c1 where r: "exec (call (GET status_key)) c = (r, c1)" by fastforce
  have "isl r \<or> r = Inr (RBulk m)" using exec_srv [OF r] assms(1) by (auto simp: call_reply)
  with r assms(2) show ?thesis by (auto simp: GetVoteStateStatus_def thenM_def split: sum.splits)
qed

end

lemma mark_idem [simp]: "mark m (mark m' ks) = mark m ks"
  by (simp add: mark_def)

lemma keeps_mark: "keeps (mark m ks) ks' \<Longrightarrow> keeps (mark m' ks) (mark m' ks')"
  by (auto simp: keeps_def mark_def)

lemma restored_mark: "restored t P ks \<Longrightarrow> restored t P (mark m ks)"
  unfolding mark_def by (rule restored_status)

lemma first_batch:
  assumes "tables_valid t"
  shows "indexed t 0 = {}" "set (due t 0) = {p \<in> set (t_posts t). active p}" "due t 0 = filter active (t_posts t)"
proof -
  have pos: "0 < po_id p" if "p \<in> set (t_posts t)" "active p" for p using assms that by (auto simp: tables_valid_def)
  show "indexed t 0 = {}" unfolding indexed_def using pos by force
  show "due t 0 = filter active (t_posts t)" unfolding due_def by (rule filter_cong) (use pos in auto)
  then show "set (due t 0) = {p \<in> set (t_posts t). active p}" by simp
qed

context redis_scan
begin

lemma rebuild_outcome:
  assumes run: "RebuildRedisFromMySQL call scan n batchSize s = Some (res, s')" and valid: "tables_valid (a_tables s)"
  defines "t \<equiv> a_tables s" and "ks \<equiv> db (srv (a_redis s))" and "ks' \<equiv> db (srv (a_redis s'))"
  shows "a_tables s' = t \<and>
    (isl res \<and> (ks' = ks \<or> keeps (mark VoteStateRebuilding ks) ks') \<or>
     keeps (mark VoteStateReady ks) ks' \<and> restored t {p \<in> set (t_posts t). active p} ks' \<and>
     (\<forall>rep. res = Inr rep \<longrightarrow> Posts rep = int (length (filter active (t_posts t))) \<and>
        Votes rep = int (vote_count t {p \<in> set (t_posts t). active p})))"
proof -
  define sz where "sz = (if batchSize \<le> 0 then 500 else batchSize)"
  have sz: "0 < sz" by (simp add: sz_def)
  have valid': "tables_valid t" using valid by (simp add: t_def)
  have prep: "isl r \<and> db (srv c) = ks \<or> keeps (mark VoteStateRebuilding ks) (db (srv c)) \<and>
      (\<not> isl r \<longrightarrow> restored t {} (db (srv c)))"
    if "PrepareVoteStateRebuild call scan n n (a_redis s) = Some (r, c)" for r c
  proof -
    have st: "stream_at (db (srv c)) outbox_key = stream_at ks outbox_key" if "keeps (mark VoteStateRebuilding ks) (db (srv c))"
      using stream_at_keeps [OF that] by (simp add: mark_def stream_at_def)
    show ?thesis
      using Prepare_outcome [OF that, folded ks_def] st by (auto intro: restored_nothing)
  qed
  have batches: "a_tables s2 = t \<and> keeps (mark VoteStateRebuilding ks) (db (srv (a_redis s2))) \<and>
      (\<forall>rep. r = Inr rep \<longrightarrow> restored t {p \<in> set (t_posts t). active p} (db (srv (a_redis s2))) \<and>
         Posts rep = int (length (filter active (t_posts t))) \<and>
         Votes rep = int (vote_count t {p \<in> set (t_posts t). active p}))"
    if "rebuild_batches call n sz 0 \<lparr>Posts = 0, Votes = 0\<rparr> (s\<lparr>a_redis := c\<rparr>) = Some (r, s2)"
      "keeps (mark VoteStateRebuilding ks) (db (srv c))" "restored t {} (db (srv c))" for c r s2
    using rebuild_batches_outcome [OF that(1) sz] valid' that(2,3) keeps_trans [OF that(2)]
    by (simp add: t_def [symmetric] first_batch [OF valid'])
  have run': "thenO (wrapO ''prepare redis rebuild'' (redisO (PrepareVoteStateRebuild call scan n n))) (\<lambda>_.
      thenO (rebuild_batches call n sz 0 \<lparr>Posts = 0, Votes = 0\<rparr>) (\<lambda>report.
      thenO (liftO (wrap_err ''verify rebuilt redis indexes'' (redisM (CountIndexedPosts call)))) (\<lambda>indexedPosts.
      if indexedPosts \<noteq> Posts report then liftO (raise (ErrText ''verify rebuilt redis indexes''))
      else thenO (liftO (wrap_err ''complete redis rebuild'' (redisM (MarkVoteStateReady call)))) (\<lambda>_. liftO (ret report))))) s =
      Some (res, s')"
    using run by (simp add: RebuildRedisFromMySQL_def sz_def Let_def)
  let ?wrong = "isl res \<and> a_tables s' = t \<and> keeps (mark VoteStateRebuilding ks) ks'"
  show ?thesis
  proof (rule thenO_E [OF run'])
    fix e assume "wrapO ''prepare redis rebuild'' (redisO (PrepareVoteStateRebuild call scan n n)) s = Some (Inl e, s')" "res = Inl e"
    then obtain e' c where c: "PrepareVoteStateRebuild call scan n n (a_redis s) = Some (Inl e', c)" "s' = s\<lparr>a_redis := c\<rparr>" "isl res"
      by (auto simp: wrapO_Some redisO_Some)
    from prep [OF c(1)] c(2,3) show ?thesis by (simp add: t_def ks'_def)
  next
    fix u s1
    assume "wrapO ''prepare redis rebuild'' (redisO (PrepareVoteStateRebuild call scan n n)) s = Some (Inr u, s1)"
      and k: "thenO (rebuild_batches call n sz 0 \<lparr>Posts = 0, Votes = 0\<rparr>) (\<lambda>report.
        thenO (liftO (wrap_err ''verify rebuilt redis indexes'' (redisM (CountIndexedPosts call)))) (\<lambda>indexedPosts.
        if indexedPosts \<noteq> Posts report then liftO (raise (ErrText ''verify rebuilt redis indexes''))
        else thenO (liftO (wrap_err ''complete redis rebuild'' (redisM (MarkVoteStateReady call)))) (\<lambda>_. liftO (ret report)))) s1 =
        Some (res, s')"
    then obtain c where c: "PrepareVoteStateRebuild call scan n n (a_redis s) = Some (Inr u, c)" and s1: "s1 = s\<lparr>a_redis := c\<rparr>"
      by (auto simp: wrapO_Some redisO_Some)
    note c' = prep [OF c]
    show ?thesis
    proof (rule thenO_E [OF k [unfolded s1]])
      fix e assume e: "rebuild_batches call n sz 0 \<lparr>Posts = 0, Votes = 0\<rparr> (s\<lparr>a_redis := c\<rparr>) = Some (Inl e, s')" "res = Inl e"
      have ?wrong using batches [OF e(1)] c' e(2) by (simp add: ks'_def)
      then show ?thesis by blast
    next
      fix rep s2
      assume e: "rebuild_batches call n sz 0 \<lparr>Posts = 0, Votes = 0\<rparr> (s\<lparr>a_redis := c\<rparr>) = Some (Inr rep, s2)"
        and k2: "thenO (liftO (wrap_err ''verify rebuilt redis indexes'' (redisM (CountIndexedPosts call)))) (\<lambda>indexedPosts.
          if indexedPosts \<noteq> Posts rep then liftO (raise (ErrText ''verify rebuilt redis indexes''))
          else thenO (liftO (wrap_err ''complete redis rebuild'' (redisM (MarkVoteStateReady call)))) (\<lambda>_. liftO (ret rep))) s2 =
          Some (res, s')"
      have b: "a_tables s2 = t" "keeps (mark VoteStateRebuilding ks) (db (srv (a_redis s2)))"
        "restored t {p \<in> set (t_posts t). active p} (db (srv (a_redis s2)))"
        "Posts rep = int (length (filter active (t_posts t)))" "Votes rep = int (vote_count t {p \<in> set (t_posts t). active p})"
        using batches [OF e] c' by simp_all
      have count: "a_tables s3 = t \<and> db (srv (a_redis s3)) = db (srv (a_redis s2))"
        if "wrap_err ''verify rebuilt redis indexes'' (redisM (CountIndexedPosts call)) s2 = (r, s3)" for r s3
        by (rule wrap_redisM [OF that]) (use CountIndexedPosts_db b(1) in auto)
      show ?thesis
      proof (rule thenO_liftE [OF k2])
        fix e assume e: "wrap_err ''verify rebuilt redis indexes'' (redisM (CountIndexedPosts call)) s2 = (Inl e, s')" "res = Inl e"
        have ?wrong using count [OF e(1)] e(2) b(2) by (simp add: ks'_def)
        then show ?thesis by blast
      next
        fix x s3 assume x: "wrap_err ''verify rebuilt redis indexes'' (redisM (CountIndexedPosts call)) s2 = (Inr x, s3)"
          and k3: "(if x \<noteq> Posts rep then liftO (raise (ErrText ''verify rebuilt redis indexes''))
            else thenO (liftO (wrap_err ''complete redis rebuild'' (redisM (MarkVoteStateReady call)))) (\<lambda>_. liftO (ret rep))) s3 =
            Some (res, s')"
        show ?thesis
        proof (cases "x = Posts rep")
          case False
          then have ?wrong using count [OF x] k3 b(2) by (auto simp: ks'_def)
          then show ?thesis by blast
        next
          case True
          obtain w s4 where w: "wrap_err ''complete redis rebuild'' (redisM (MarkVoteStateReady call)) s3 = (w, s4)" by fastforce
          have s4: "s' = s4" "isl w \<longleftrightarrow> isl res" "\<And>r. res = Inr r \<Longrightarrow> r = rep"
            using k3 True w by (auto simp: thenO_def liftO_def split: sum.splits)
          obtain w' c4 where m: "MarkVoteStateReady call (a_redis s3) = (w', c4)" "s4 = s3\<lparr>a_redis := c4\<rparr>" "isl w' \<longleftrightarrow> isl w"
            using w by (rule wrap_redisM)
          from MarkVoteStateReady_db [OF m(1)] show ?thesis
          proof
            assume "db (srv c4) = mark VoteStateReady (db (srv (a_redis s3)))"
            then have "ks' = mark VoteStateReady (db (srv (a_redis s2)))" using s4(1) m(2) count [OF x] by (simp add: ks'_def)
            moreover have "keeps (mark VoteStateReady ks) (mark VoteStateReady (db (srv (a_redis s2))))"
              using keeps_mark [OF b(2), of VoteStateReady] by simp
            ultimately show ?thesis using restored_mark [OF b(3)] b(4,5) s4(1,3) m(2) count [OF x] by auto
          next
            assume "isl w' \<and> db (srv c4) = db (srv (a_redis s3))"
            then have ?wrong using s4 m(2,3) count [OF x] b(2) by (simp add: ks'_def)
            then show ?thesis by blast
          qed
        qed
      qed
    qed
  qed
qed

end

end
