(* ===== verification/Maintenance.thy ===== *)
theory Maintenance
  imports Rebuild
begin

text \<open>
  The theorems about the maintenance command: a rebuild that reports success has restored Redis from
  MySQL and nothing else, one that was cut off is never taken for a finished one, without faults it
  ends, and after the pipeline has drained it gives every user the vote they had.
\<close>

section \<open>Without faults the command ends\<close>

lemma zset_size:
  assumes "zset_at ks k = Some z" "zs_wf z" "\<forall>m. zscore ks k m \<noteq> None \<longleftrightarrow> m \<in> M" 
  shows "length z = card M"
proof -
  have d: "distinct (map fst z)" using assms(2) by (simp add: zs_wf_def)
  have "M = set (map fst z)" using assms(1,3) by (auto simp: zscore_def map_of_eq_None_iff)
  then show ?thesis using distinct_card [OF d] by simp
qed

lemma active_card:
  assumes "tables_valid t"
  shows "card (FormatInt ` po_id ` {p \<in> set (t_posts t). active p}) = length (filter active (t_posts t))"
proof -
  have "inj_on (FormatInt \<circ> po_id) {p \<in> set (t_posts t). active p}"
    using assms by (auto simp: tables_valid_def distinct_map inj_on_def)
  moreover have "distinct (filter active (t_posts t))" using assms by (auto simp: tables_valid_def distinct_map)
  ultimately show ?thesis unfolding image_comp by (simp only: card_image distinct_card [symmetric] set_filter)
qed

context redis_scan
begin

lemma Prepare_returns:
  assumes "fates c = []" "finite (dom (db (srv c)))" "stream_at (db (srv c)) outbox_key \<noteq> None" "outbox (db (srv c)) = []"
  shows "\<exists>N c'. (\<forall>n\<ge>N. PrepareVoteStateRebuild call scan n n c = Some (Inr (), c')) \<and> fates c' = []"
proof -
  from assms(3) obtain st where st: "stream_at (db (srv c)) outbox_key = Some st" by blast
  then have e: "entries st = []" using assms(4) by (simp add: outbox_def)
  let ?c1 = "c\<lparr>srv := snd (call (XLEN outbox_key) (srv c))\<rparr>"
  let ?c2 = "?c1\<lparr>srv := snd (call (SET status_key VoteStateRebuilding 0) (srv ?c1))\<rparr>"
  let ?c3 = "?c2\<lparr>srv := snd (call (DEL [time_key, score_key]) (srv ?c2))\<rparr>"
  have x: "exec (call (XLEN outbox_key)) c = (Inr (RInt 0), ?c1)"
    using assms(1) st e by (simp add: exec_no_fault call_reply on_stream_def)
  have s: "exec (call (SET status_key VoteStateRebuilding 0)) ?c1 = (Inr (RStatus ''OK''), ?c2)"
    using assms(1) by (simp add: exec_no_fault call_reply)
  obtain y where d: "exec (call (DEL [time_key, score_key])) ?c2 = (Inr y, ?c3)"
    using assms(1) by (simp add: exec_no_fault call_reply)
  have "db (srv ?c1) = db (srv c)" using st by (simp add: call_db on_stream_def)
  then have "dom (db (srv ?c3)) \<subseteq> insert status_key (dom (db (srv c)))"
    by (auto simp: del_db set_status_db mark_def split: if_splits)
  then have fin: "finite (dom (db (srv ?c3)))" using assms(2) by (meson finite_insert finite_subset)
  have pat: "\<forall>p\<in>set rebuild_patterns. \<forall>k. glob p k \<longrightarrow> derived k" by (auto simp: derived_def)
  have "fates ?c3 = []" using assms(1) by simp
  from delete_patterns_returns [OF this fin pat] obtain N c' where
    N: "\<forall>rounds\<ge>N. \<forall>n\<ge>N. delete_patterns call scan rounds n rebuild_patterns ?c3 = Some (Inr (), c')" "fates c' = []" by blast
  have "PrepareVoteStateRebuild call scan n n c = Some (Inr (), c')" if "N \<le> n" for n
    using N(1) that unfolding PrepareVoteStateRebuild_def thenO_def liftO_def x
    by (simp only: option.case prod.case sum.case int_reply_def reply.case less_irrefl if_False s d)
  with N(2) show ?thesis by blast
qed

lemma CountIndexedPosts_restored:
  assumes "restored t P (db (srv c))" "fates c = []"
  shows "\<exists>c'. CountIndexedPosts call c = (Inr (int (card (FormatInt ` po_id ` P))), c') \<and> fates c' = []"
proof -
  from assms(1) obtain z1 z2 where z: "zset_at (db (srv c)) time_key = Some z1" "zs_wf z1"
    "zset_at (db (srv c)) score_key = Some z2" "zs_wf z2" by (auto simp: restored_def typed_def vote_wf_def)
  have r: "zscore (db (srv c)) time_key m = Some x \<longleftrightarrow> (\<exists>p\<in>P. m = FormatInt (po_id p) \<and> x = po_created p)"
    "zscore (db (srv c)) score_key m = Some x \<longleftrightarrow> (\<exists>p\<in>P. m = FormatInt (po_id p) \<and> x = post_score t p)" for m x
    using assms(1) by (simp_all only: restored_def)
  have m: "\<forall>m. zscore (db (srv c)) time_key m \<noteq> None \<longleftrightarrow> m \<in> FormatInt ` po_id ` P"
    "\<forall>m. zscore (db (srv c)) score_key m \<noteq> None \<longleftrightarrow> m \<in> FormatInt ` po_id ` P"
    unfolding not_None_eq r by blast+
  have "length z1 = card (FormatInt ` po_id ` P)" "length z2 = card (FormatInt ` po_id ` P)"
    by (rule zset_size [OF z(1,2) m(1)], rule zset_size [OF z(3,4) m(2)])
  with z assms(2) show ?thesis
    by (simp add: CountIndexedPosts_def thenM_def exec_no_fault call_reply call_db on_zset_def int_reply_def)
qed

lemma rebuild_returns:
  assumes "tables_valid (a_tables s)" "fates (a_redis s) = []" "a_sql s = []" "finite (dom (db (srv (a_redis s))))"
    and "stream_at (db (srv (a_redis s))) outbox_key \<noteq> None" "outbox (db (srv (a_redis s))) = []"
  shows "\<exists>N. \<forall>n\<ge>N. \<exists>rep s'. RebuildRedisFromMySQL call scan n batchSize s = Some (Inr rep, s') \<and>
     fates (a_redis s') = [] \<and> a_sql s' = []"
proof -
  define sz where "sz = (if batchSize \<le> 0 then 500 else batchSize)"
  have sz: "0 < sz" by (simp add: sz_def)
  let ?t = "a_tables s" and ?A = "{p \<in> set (t_posts (a_tables s)). active p}"
  obtain N c where N: "\<forall>n\<ge>N. PrepareVoteStateRebuild call scan n n (a_redis s) = Some (Inr (), c)" "fates c = []"
    using Prepare_returns [OF assms(2,4-6)] by blast
  let ?s1 = "s\<lparr>a_redis := c\<rparr>"
  have keeps1: "keeps (mark VoteStateRebuilding (db (srv (a_redis s)))) (db (srv c))"
    and gone: "\<forall>k. derived k \<longrightarrow> db (srv c) k = None"
    using Prepare_outcome [of N N "a_redis s" "Inr ()" c] N(1) by auto
  have "stream_at (db (srv c)) outbox_key \<noteq> None"
    using stream_at_keeps [OF keeps1] assms(5) by (simp add: mark_def stream_at_def)
  then have empty: "restored ?t {} (db (srv c))" using gone by (intro restored_nothing) blast+
  have "\<exists>rep s'. RebuildRedisFromMySQL call scan n batchSize s = Some (Inr rep, s') \<and> fates (a_redis s') = [] \<and> a_sql s' = []"
    if n: "N + length (due ?t 0) + 1 \<le> n" for n
  proof -
    have "PrepareVoteStateRebuild call scan n n (a_redis s) = Some (Inr (), c)" using N(1) n by simp
    then have p: "wrapO ''prepare redis rebuild'' (redisO (PrepareVoteStateRebuild call scan n n)) s = Some (Inr (), ?s1)"
      by (simp add: wrapO_def redisO_def)
    have "restored ?t (indexed ?t 0) (db (srv c))" using empty first_batch(1) [OF assms(1)] by simp
    then obtain rep s2 where b: "rebuild_batches call n sz 0 \<lparr>Posts = 0, Votes = 0\<rparr> ?s1 = Some (Inr rep, s2)"
      "fates (a_redis s2) = []" "a_sql s2 = []"
      using rebuild_batches_returns [of ?s1 0 sz n "\<lparr>Posts = 0, Votes = 0\<rparr>"] assms(1,3) N(2) sz n by auto
    have r2: "restored ?t ?A (db (srv (a_redis s2)))" "Posts rep = int (length (filter active (t_posts ?t)))"
      using rebuild_batches_outcome [OF b(1) sz] assms(1) empty first_batch [OF assms(1)] by simp_all
    have "int (card (FormatInt ` po_id ` ?A)) = Posts rep" unfolding r2(2) active_card [OF assms(1)] ..
    then obtain c3 where c3: "CountIndexedPosts call (a_redis s2) = (Inr (Posts rep), c3)" "fates c3 = []"
      using CountIndexedPosts_restored [OF r2(1) b(2)] by auto
    let ?s3 = "s2\<lparr>a_redis := c3\<rparr>"
    have v: "wrap_err ''verify rebuilt redis indexes'' (redisM (CountIndexedPosts call)) s2 = (Inr (Posts rep), ?s3)"
      by (simp add: wrap_err_def redisM_def c3(1))
    obtain s4 where m: "wrap_err ''complete redis rebuild'' (redisM (MarkVoteStateReady call)) ?s3 = (Inr (), s4)"
      "fates (a_redis s4) = []" "a_sql s4 = []"
      using c3(2) b(3) by (simp add: wrap_err_def redisM_def MarkVoteStateReady_def thenM_def exec_no_fault call_reply)
    show ?thesis
      unfolding RebuildRedisFromMySQL_def Let_def sz_def [symmetric] thenO_def liftO_def p
      by (simp add: b(1) v m)
  qed
  then show ?thesis by blast
qed

end

section \<open>Before and after\<close>

lemma restored_version:
  assumes "restored t P ks" "rows_distinct (post_vote t)" "p \<in> P"
  shows "version_of ks (FormatInt (po_id p)) (FormatInt u) =
      (case vote_view t (u, po_id p) of None \<Rightarrow> 0 | Some (v, d) \<Rightarrow> v)"
    and "direction_of ks (FormatInt (po_id p)) (FormatInt u) =
      (case vote_view t (u, po_id p) of None \<Rightarrow> 0 | Some (v, d) \<Rightarrow> d)"
proof -
  let ?q = "FormatInt (po_id p)" and ?u = "FormatInt u"
  have h: "hget ks (version_key ?q) ?u = Some x \<longleftrightarrow> (\<exists>r. find_vote (post_vote t) u (po_id p) = Some r \<and> x = FormatInt (pv_version r))" for x
    using assms by (auto simp: restored_def find_vote_iff)
  have z: "zscore ks (voted_key ?q) ?u = Some x \<longleftrightarrow>
      (\<exists>r. find_vote (post_vote t) u (po_id p) = Some r \<and> x = pv_direction r \<and> x \<noteq> 0)" for x
    using assms by (auto simp: restored_def find_vote_iff)
  show "version_of ks ?q ?u = (case vote_view t (u, po_id p) of None \<Rightarrow> 0 | Some (v, d) \<Rightarrow> v)"
  proof (cases "find_vote (post_vote t) u (po_id p)")
    case None
    then have "hget ks (version_key ?q) ?u = None" using h by (metis not_None_eq option.distinct(1))
    with None show ?thesis by (simp add: version_of_def vote_view_def)
  next
    case (Some r)
    then have "hget ks (version_key ?q) ?u = Some (FormatInt (pv_version r))" using h by simp
    with Some show ?thesis by (simp add: version_of_def vote_view_def)
  qed
  show "direction_of ks ?q ?u = (case vote_view t (u, po_id p) of None \<Rightarrow> 0 | Some (v, d) \<Rightarrow> d)"
  proof (cases "find_vote (post_vote t) u (po_id p)")
    case None
    then have "zscore ks (voted_key ?q) ?u = None" using z by (metis not_None_eq option.distinct(1))
    with None show ?thesis by (simp add: direction_of_def vote_view_def)
  next
    case (Some r)
    then have "zscore ks (voted_key ?q) ?u = (if pv_direction r = 0 then None else Some (pv_direction r))"
      using z by (metis (full_types) not_None_eq option.inject)
    with Some show ?thesis by (simp add: direction_of_def vote_view_def)
  qed
qed

lemma log_ok_no_version:
  assumes "log_ok ks log" "version_of ks p u = 0"
  shows "direction_of ks p u = 0"
proof (rule ccontr)
  assume "direction_of ks p u \<noteq> 0"
  with assms(1) obtain e where e: "e \<in> set log" "Version e = version_of ks p u" unfolding log_ok_def by blast
  with assms(1) have "logged e" by (simp add: log_ok_def)
  with e(2) assms(2) show False by (auto simp: logged_def)
qed

section \<open>A forum to apply the theorems to\<close>

definition demo_post :: post_row where
  "demo_post = \<lparr>po_id = 7, po_author = 2, po_community = 1, po_status = 1, po_title = ''t'', po_content = ''c'',
     po_created = 1000, po_updated = 1000\<rparr>"

definition demo_forum :: forum_tables where
  "demo_forum = \<lparr>consumed = [(FormatInt 9, VoteChangedEventType)], post_vote = [demo_vote], t_posts = [demo_post],
     t_users = [], t_communities = []\<rparr>"

lemma demo_post_sel [simp]: "po_id demo_post = 7" "po_created demo_post = 1000" "po_community demo_post = 1" "active demo_post"
  by (simp_all add: demo_post_def active_def)

lemma demo_forum_sel [simp]: "t_posts demo_forum = [demo_post]" "post_vote demo_forum = [demo_vote]"
  "{p. p = demo_post \<and> active p} = {demo_post}"
  by (auto simp: demo_forum_def)

definition demo_app :: "keyspace \<Rightarrow> keyspace app" where
  "demo_app ks = \<lparr>a_redis = \<lparr>srv = ks, fates = []\<rparr>, a_tables = demo_forum, a_sql = []\<rparr>"

lemma demo_app_sel [simp]: "a_tables (demo_app ks) = demo_forum" "a_redis (demo_app ks) = \<lparr>srv = ks, fates = []\<rparr>" "a_sql (demo_app ks) = []"
  by (simp_all add: demo_app_def)

lemma demo_forum_valid: "tables_valid demo_forum"
  by (simp add: tables_valid_def rows_distinct_def demo_vote_def net_vote_def post_score_def
      scorePerVote_def int_range_def)

lemma demo_app_rebuilds:
  assumes "finite (dom ks)" "stream_at ks outbox_key \<noteq> None" "outbox ks = []"
  shows "\<exists>n rep s'. RebuildRedisFromMySQL ref_call ref_scan n 500 (demo_app ks) = Some (Inr rep, s')"
proof -
  have "\<exists>N. \<forall>n\<ge>N. \<exists>rep s'. RebuildRedisFromMySQL ref_call ref_scan n 500 (demo_app ks) = Some (Inr rep, s') \<and>
     fates (a_redis s') = [] \<and> a_sql s' = []"
    by (rule refscan.rebuild_returns) (simp_all add: demo_forum_valid assms del: not_None_eq)
  then show ?thesis by blast
qed

section \<open>The theorems\<close>

text \<open>
  C9: a rebuild that reports success has restored Redis from MySQL: times, scores, communities, directions
  and versions are those of the active posts and of nothing else, the marker says ready, the
  numbers reported are right, and sessions, caches, rate limits and the outbox are as they were.
\<close>

theorem rebuild_restores:
  assumes "redis_scan call db nid scan" "tables_valid (a_tables s)"
    and "RebuildRedisFromMySQL call scan n batchSize s = Some (Inr report, s')"
  defines "t \<equiv> a_tables s" and "ks \<equiv> db (srv (a_redis s))" and "ks' \<equiv> db (srv (a_redis s'))"
  shows "restored t {p \<in> set (t_posts t). active p} ks' \<and>
    ks' status_key = Some (VStr VoteStateReady) \<and>
    (\<forall>k. \<not> derived k \<and> k \<noteq> status_key \<longrightarrow> ks' k = ks k) \<and>
    Posts report = int (length (filter active (t_posts t))) \<and>
    Votes report = int (length (filter (\<lambda>v. pv_post v \<in> po_id ` {p \<in> set (t_posts t). active p}) (post_vote t))) \<and>
    a_tables s' = t"
proof -
  have k: "keeps (mark VoteStateReady ks) ks'" and r: "restored t {p \<in> set (t_posts t). active p} ks'"
    and n: "Posts report = int (length (filter active (t_posts t)))" "Votes report = int (vote_count t {p \<in> set (t_posts t). active p})"
    and t: "a_tables s' = t"
    using redis_scan.rebuild_outcome [OF assms(1,3,2)] sum.disc(2) [of report] unfolding t_def ks_def ks'_def by blast+
  show ?thesis
    by (intro conjI r n(1) n(2) [unfolded vote_count_def] t) (use k in \<open>simp_all add: keeps_def mark_def\<close>)
qed

theorem rebuild_restores_witness:
  "\<exists>n report s'. RebuildRedisFromMySQL ref_call ref_scan n 500 (demo_app demo_ks) = Some (Inr report, s') \<and>
     Posts report = 1 \<and> Votes report = 1 \<and> zscore (srv (a_redis s')) score_key (FormatInt 7) = Some 1432"
proof -
  have "finite (dom demo_ks)" "outbox demo_ks = []" by (simp_all add: demo_ks_def outbox_def stream_at_def empty_stream_def)
  then obtain n report s' where run: "RebuildRedisFromMySQL ref_call ref_scan n 500 (demo_app demo_ks) = Some (Inr report, s')"
    using demo_app_rebuilds [of demo_ks] by auto
  note r = rebuild_restores [OF refscan.redis_scan_axioms _ run, unfolded demo_app_sel, OF demo_forum_valid]
  have "Posts report = 1" "Votes report = 1" using r by (simp_all add: demo_vote_def)
  moreover have "zscore (srv (a_redis s')) score_key (FormatInt 7) = Some 1432"
    using r by (simp add: restored_def post_score_def net_vote_def scorePerVote_def demo_vote_def)
  ultimately show ?thesis using run by blast
qed

text \<open>
  C10: a rebuild that was cut off is never taken for a finished one. Whatever fails, and wherever, the
  tables and the keys the rebuild does not own are as they were, and Redis is either untouched, or
  marked so that no reader accepts it, or completely restored (only the reply to the last command was lost).
\<close>

theorem rebuild_interrupted:
  assumes "redis_scan call db nid scan" "tables_valid (a_tables s)"
    and "RebuildRedisFromMySQL call scan n batchSize s = Some (Inl e, s')"
  shows "a_tables s' = a_tables s \<and>
    (\<forall>k. \<not> derived k \<and> k \<noteq> status_key \<longrightarrow> db (srv (a_redis s')) k = db (srv (a_redis s)) k) \<and>
    (db (srv (a_redis s')) = db (srv (a_redis s)) \<or>
     (\<forall>c. db (srv c) = db (srv (a_redis s')) \<longrightarrow> isl (fst (EnsureVoteStateReadable call c))) \<or>
     restored (a_tables s) {p \<in> set (t_posts (a_tables s)). active p} (db (srv (a_redis s'))) \<and>
     db (srv (a_redis s')) status_key = Some (VStr VoteStateReady))"
proof -
  note server = redis_scan.axioms(1) [OF assms(1)]
  have refuse: "isl (fst (EnsureVoteStateReadable call c))" if "db (srv c) status_key = Some (VStr VoteStateRebuilding)" for c
  proof -
    obtain r c' where r: "GetVoteStateStatus call c = (r, c')" by fastforce
    from redis_server.GetVoteStateStatus_marked [OF server that r] r show ?thesis
      by (auto simp: EnsureVoteStateReadable_def thenM_def VoteStateRebuilding_def VoteStateReady_def split: sum.splits)
  qed
  let ?ks = "db (srv (a_redis s))" and ?ks' = "db (srv (a_redis s'))" and ?A = "{p \<in> set (t_posts (a_tables s)). active p}"
  have tab: "a_tables s' = a_tables s"
    and o: "?ks' = ?ks \<or> keeps (mark VoteStateRebuilding ?ks) ?ks' \<or>
      keeps (mark VoteStateReady ?ks) ?ks' \<and> restored (a_tables s) ?A ?ks'"
    using redis_scan.rebuild_outcome [OF assms(1,3,2)] by blast+
  have m: "?ks' status_key = Some (VStr m) \<and> (\<forall>k. \<not> derived k \<and> k \<noteq> status_key \<longrightarrow> ?ks' k = ?ks k)"
    if "keeps (mark m ?ks) ?ks'" for m using that by (simp add: keeps_def mark_def)
  from o show ?thesis
  proof (elim disjE conjE)
    assume "?ks' = ?ks"
    then show ?thesis using tab by simp
  next
    assume k: "keeps (mark VoteStateRebuilding ?ks) ?ks'"
    have "isl (fst (EnsureVoteStateReadable call c))" if "db (srv c) = ?ks'" for c
      by (rule refuse) (simp add: that m [OF k])
    with m [OF k] tab show ?thesis by blast
  next
    assume k: "keeps (mark VoteStateReady ?ks) ?ks'" and "restored (a_tables s) ?A ?ks'"
    with m [OF k] tab show ?thesis by blast
  qed
qed

theorem rebuild_interrupted_witness:
  "\<exists>n e s'. RebuildRedisFromMySQL ref_call ref_scan n 500 ((demo_app demo_ks)\<lparr>a_sql := [True]\<rparr>) = Some (Inl e, s') \<and>
     a_tables s' = demo_forum \<and> srv (a_redis s') (session_key ''5'') = None"
proof -
  let ?s = "(demo_app demo_ks)\<lparr>a_sql := [True]\<rparr>"
  have "finite (dom demo_ks)" "outbox demo_ks = []" "stream_at demo_ks outbox_key \<noteq> None"
    by (simp_all add: demo_ks_def outbox_def stream_at_def empty_stream_def)
  then obtain N c where c: "\<forall>n\<ge>N. PrepareVoteStateRebuild ref_call ref_scan n n (a_redis ?s) = Some (Inr (), c)"
    using refscan.Prepare_returns [of "a_redis ?s"] by auto
  have p: "wrapO ''prepare redis rebuild'' (redisO (PrepareVoteStateRebuild ref_call ref_scan (Suc N) (Suc N))) ?s =
      Some (Inr (), ?s\<lparr>a_redis := c\<rparr>)"
    using c by (simp add: wrapO_def redisO_def)
  have "\<exists>e s'. rebuild_batches ref_call (Suc N) 500 0 \<lparr>Posts = 0, Votes = 0\<rparr> (?s\<lparr>a_redis := c\<rparr>) = Some (Inl e, s')"
    by (simp add: thenO_def liftO_def wrap_err_def GetPostRecoveryBatch_def sql_query_def sqlM_def)
  then obtain e s' where run: "RebuildRedisFromMySQL ref_call ref_scan (Suc N) 500 ?s = Some (Inl e, s')"
    using p unfolding RebuildRedisFromMySQL_def Let_def thenO_def by auto
  have v: "tables_valid (a_tables ?s)" by (simp add: demo_forum_valid)
  have "demo_ks (session_key ''5'') = None" "session_key ''5'' \<noteq> status_key" by (simp_all add: demo_ks_def key_defs getRedisKey_inj)
  then have "a_tables s' = demo_forum" "srv (a_redis s') (session_key ''5'') = None"
    using rebuild_interrupted [OF refscan.redis_scan_axioms v run] by simp_all
  with run show ?thesis by blast
qed

text \<open>
  C11: the rebuild ends. With the outbox drained, finitely many keys and no faults, enough turns of
  its loops lead to a report, after which the server's readiness check accepts the state.
\<close>

theorem rebuild_completes:
  assumes "redis_scan call db nid scan" "tables_valid (a_tables s)"
    and "fates (a_redis s) = []" "a_sql s = []" "finite (dom (db (srv (a_redis s))))"
    and "stream_at (db (srv (a_redis s))) outbox_key \<noteq> None" "outbox (db (srv (a_redis s))) = []"
  shows "\<exists>N. \<forall>n\<ge>N. \<exists>report s'. RebuildRedisFromMySQL call scan n batchSize s = Some (Inr report, s') \<and>
    fst (EnsureRedisStateReady call s') = Inr ()"
proof -
  have ready: "fst (EnsureRedisStateReady call s') = Inr ()"
    if run: "RebuildRedisFromMySQL call scan n batchSize s = Some (Inr report, s')" and f: "fates (a_redis s') = []" "a_sql s' = []"
    for n report s'
  proof -
    note server = redis_scan.axioms(1) [OF assms(1)]
    let ?A = "{p \<in> set (t_posts (a_tables s)). active p}" and ?n = "int (length (filter active (t_posts (a_tables s))))"
    note o = redis_scan.rebuild_outcome [OF assms(1) run assms(2)]
    have r: "restored (a_tables s) ?A (db (srv (a_redis s')))" "keeps (mark VoteStateReady (db (srv (a_redis s)))) (db (srv (a_redis s')))"
      "a_tables s' = a_tables s"
      using o sum.disc(2) [of report] by blast+
    obtain c where c: "CountIndexedPosts call (a_redis s') = (Inr ?n, c)" "fates c = []"
      using redis_scan.CountIndexedPosts_restored [OF assms(1) r(1) f(1)] active_card [OF assms(2)] by auto
    have "db (srv c) status_key = Some (VStr VoteStateReady)"
      using redis_server.CountIndexedPosts_db [OF server c(1)] r(2) by (simp add: keeps_def mark_def)
    then have g: "fst (GetVoteStateStatus call c) = Inr VoteStateReady"
      using c(2) by (simp add: GetVoteStateStatus_def thenM_def exec_no_fault redis_server.call_reply [OF server])
    have w: "wrap_err m p x = (Inr y, z)" if "p x = (Inr y, z)" for m p x y z using that by (simp add: wrap_err_def)
    have a: "wrap_err ''count mysql posts'' CountActivePosts s' = (Inr ?n, s')"
      by (rule w) (use f(2) in \<open>simp add: CountActivePosts_def sql_query_def sqlM_def r(3)\<close>)
    have "wrap_err ''read redis state marker'' (redisM (GetVoteStateStatus call)) (s'\<lparr>a_redis := c\<rparr>) =
        (Inr VoteStateReady, s'\<lparr>a_redis := snd (GetVoteStateStatus call c)\<rparr>)"
      by (rule w) (use g in \<open>cases "GetVoteStateStatus call c", simp add: redisM_def\<close>)
    moreover have "wrap_err ''count redis posts'' (redisM (CountIndexedPosts call)) s' = (Inr ?n, s'\<lparr>a_redis := c\<rparr>)"
      by (rule w) (simp add: redisM_def c(1))
    ultimately show ?thesis
      by (simp add: EnsureRedisStateReady_def thenM_def a) (simp add: VoteStateReady_def)
  qed
  from redis_scan.rebuild_returns [OF assms] obtain N where
    N: "\<forall>n\<ge>N. \<exists>rep s'. RebuildRedisFromMySQL call scan n batchSize s = Some (Inr rep, s') \<and> fates (a_redis s') = [] \<and> a_sql s' = []"
    by blast
  show ?thesis using N ready by meson
qed

theorem rebuild_completes_witness:
  "\<exists>n report s'. RebuildRedisFromMySQL ref_call ref_scan n 0 (demo_app demo_ks) = Some (Inr report, s') \<and>
     fst (EnsureRedisStateReady ref_call s') = Inr ()"
proof -
  have "\<exists>N. \<forall>n\<ge>N. \<exists>report s'. RebuildRedisFromMySQL ref_call ref_scan n 0 (demo_app demo_ks) = Some (Inr report, s') \<and>
      fst (EnsureRedisStateReady ref_call s') = Inr ()"
    by (rule rebuild_completes [OF refscan.redis_scan_axioms])
       (simp_all add: demo_forum_valid demo_ks_def outbox_def stream_at_def empty_stream_def)
  then show ?thesis by blast
qed

text \<open>
  C3: maintenance loses no vote. After the pipeline has drained, a rebuild from the tables the
  consumers wrote gives back, for every active post and every user, the version and the direction
  Redis had before the rebuild.
\<close>

theorem rebuild_after_drain:
  assumes "pipeline sv db nid topo queue config" "pipe_start config db topo queue y0"
    and "(pipe_step sv config db topo queue)\<^sup>*\<^sup>* y0 y" "drained config db queue y"
    and "redis_scan (sv_redis sv) db nid' scan" "tables_valid (a_tables s)"
    and "srv (a_redis s) = y_redis y" "post_vote (a_tables s) = post_vote (y_tables y)"
    and "RebuildRedisFromMySQL (sv_redis sv) scan n batchSize s = Some (Inr report, s')"
    and "p \<in> set (t_posts (a_tables s))" "active p"
  shows "version_of (db (srv (a_redis s'))) (FormatInt (po_id p)) (FormatInt u) =
      version_of (db (y_redis y)) (FormatInt (po_id p)) (FormatInt u) \<and>
    direction_of (db (srv (a_redis s'))) (FormatInt (po_id p)) (FormatInt u) =
      direction_of (db (y_redis y)) (FormatInt (po_id p)) (FormatInt u)"
proof -
  let ?q = "FormatInt (po_id p)" and ?u = "FormatInt u"
  have inv: "pipe_inv sv config db topo queue y"
    by (rule pipeline.inv_steps [OF assms(1,3) pipeline.inv_start [OF assms(1,2)]])
  have zero: "version_of (db (y_redis y)) ?q ?u = 0 \<Longrightarrow> direction_of (db (y_redis y)) ?q ?u = 0"
    using inv by (auto simp: pipe_inv_def intro: log_ok_no_version)
  have "vote_view (a_tables s) (u, po_id p) = vote_view (y_tables y) (u, po_id p)" by (simp add: vote_view_def assms(8))
  also have "\<dots> = (if version_of (db (y_redis y)) ?q ?u = 0 then None
      else Some (version_of (db (y_redis y)) ?q ?u, direction_of (db (y_redis y)) ?q ?u))"
    by (rule pipeline.inv_drained [OF assms(1) inv assms(4)])
  finally have view: "vote_view (a_tables s) (u, po_id p) = \<dots>" .
  have "restored (a_tables s) {p \<in> set (t_posts (a_tables s)). active p} (db (srv (a_redis s')))"
    using redis_scan.rebuild_outcome [OF assms(5,9,6)] sum.disc(2) [of report] by blast
  from restored_version [OF this] show ?thesis
    using assms(6,10,11) zero by (simp add: view tables_valid_def)
qed

theorem rebuild_after_drain_witness:
  "\<exists>y n report s'. drained demo_config (\<lambda>ks. ks) rb_queue (y :: (keyspace, ref_broker) sys) \<and>
     RebuildRedisFromMySQL ref_call ref_scan n 500 (demo_app (y_redis y)) = Some (Inr report, s') \<and>
     version_of (srv (a_redis s')) (FormatInt 7) (FormatInt 5) = 1 \<and> direction_of (srv (a_redis s')) (FormatInt 7) (FormatInt 5) = 1"
proof -
  obtain y where y: "demo_steps demo_sys y" "drained demo_config (\<lambda>ks. ks) rb_queue y"
    "version_of (y_redis y) (FormatInt 7) (FormatInt 5) = 1" "direction_of (y_redis y) (FormatInt 7) (FormatInt 5) = 1"
    "post_vote (y_tables y) = [demo_vote]" "finite (dom (y_redis y))"
    using demo_run by blast
  have "vote_wf (y_redis y)"
    using demo.inv_steps [OF y(1) demo.inv_start [OF demo_start]] by (simp add: pipe_inv_def)
  then have "stream_at (y_redis y) outbox_key \<noteq> None" by (auto simp: vote_wf_def)
  moreover have "outbox (y_redis y) = []" using y(2) by (simp add: drained_def)
  ultimately obtain n report s' where run: "RebuildRedisFromMySQL ref_call ref_scan n 500 (demo_app (y_redis y)) = Some (Inr report, s')"
    using demo_app_rebuilds [OF y(6)] by blast
  have "version_of (srv (a_redis s')) (FormatInt (po_id demo_post)) (FormatInt 5) = version_of (y_redis y) (FormatInt (po_id demo_post)) (FormatInt 5) \<and>
      direction_of (srv (a_redis s')) (FormatInt (po_id demo_post)) (FormatInt 5) = direction_of (y_redis y) (FormatInt (po_id demo_post)) (FormatInt 5)"
    by (rule rebuild_after_drain [OF demo.pipeline_axioms demo_start y(1,2), where nid' = ref_nid and scan = ref_scan
          and s = "demo_app (y_redis y)" and n = n and batchSize = 500 and report = report])
       (simp_all add: refscan.redis_scan_axioms demo_forum_valid y(5) run)
  with y(2-4) run show ?thesis by auto
qed

end
