(* ===== verification/PostsCorrect.thy ===== *)
theory PostsCorrect
  imports Posts Maintenance "HOL-Library.Multiset"
begin

text \<open>
  The lists and the details of posts: a page of the list is the right part of the Redis index in the
  right order, each post with its own number of votes; an edited post is read back as edited.
\<close>

section \<open>Reading an index\<close>

lemma zs_slice_page: "0 < n \<Longrightarrow> zs_slice (int i) (int i + int n - 1) z = take n (drop i z)"
proof -
  assume n: "0 < n"
  show ?thesis
  proof (cases "i < length z")
    case True
    have "nat (min (int (length z) - 1) (int i + int n - 1) - int i + 1) = min (length z - i) n" using True n by linarith
    then show ?thesis using True n by (simp add: zs_slice_def Let_def min_def not_less)
  qed (simp add: zs_slice_def Let_def)
qed

definition up_votes :: "keyspace \<Rightarrow> string \<Rightarrow> int" where
  "up_votes ks q = int (card {u. direction_of ks q u = 1})"

lemma count_up:
  assumes "zset_at ks (voted_key q) = Some z" "zs_wf z"
  shows "int (length (filter (\<lambda>(_, s). 1 \<le> s \<and> s \<le> 1) z)) = up_votes ks q"
proof -
  have d: "distinct (map fst z)" using assms(2) by (simp add: zs_wf_def)
  have f: "filter (\<lambda>(_, s). 1 \<le> s \<and> s \<le> (1 :: int)) z = filter (\<lambda>x. snd x = 1) z"
    by (rule filter_cong) auto
  have "direction_of ks q u = 1 \<longleftrightarrow> map_of z u = Some 1" for u
    using assms(1) by (simp add: direction_of_def zscore_def split: option.splits)
  then have "{u. direction_of ks q u = 1} = fst ` {x \<in> set z. snd x = 1}"
    using map_of_eq_Some_iff [OF d] by (force simp: image_iff)
  also have "\<dots> = set (map fst (filter (\<lambda>x. snd x = 1) z))" by simp
  finally have "{u. direction_of ks q u = 1} = set (map fst (filter (\<lambda>x. snd x = 1) z))" .
  then show ?thesis unfolding f up_votes_def using distinct_card [OF distinct_map_filter [OF d]] by simp
qed

context redis_server
begin

lemma exec_read:
  assumes "fates c = []" "\<And>r. db (snd (call x r)) = db r" "fst (redis_doc (nid (srv c)) x (db (srv c))) = Inr y"
  shows "\<exists>c'. exec (call x) c = (Inr y, c') \<and> fates c' = [] \<and> db (srv c') = db (srv c)"
  using assms by (simp add: exec_no_fault call_reply)

lemma EnsureVoteStateReadable_ready:
  assumes "fates c = []" "db (srv c) status_key = Some (VStr VoteStateReady)"
  shows "\<exists>c'. EnsureVoteStateReadable call c = (Inr (), c') \<and> fates c' = [] \<and> db (srv c') = db (srv c)"
proof -
  have "db (snd (call (GET status_key) r)) = db r" for r by (auto simp: call_db split: option.splits rvalue.splits)
  from exec_read [OF assms(1) this, of "RBulk VoteStateReady"] assms(2) show ?thesis
    by (auto simp: EnsureVoteStateReadable_def GetVoteStateStatus_def thenM_def)
qed

lemma GetPostIDsInOrder_page:
  assumes "fates c = []" "db (srv c) status_key = Some (VStr VoteStateReady)" "zset_at (db (srv c)) (order_key (lpOrder p)) = Some z"
    and "1 \<le> lpPage p" "1 \<le> lpSize p" "int_range 64 (lpPage p * lpSize p)"
  shows "\<exists>c'. GetPostIDsInOrder call p c =
      (Inr (map fst (take (nat (lpSize p)) (drop (nat ((lpPage p - 1) * lpSize p)) (rev z)))), c') \<and>
    fates c' = [] \<and> db (srv c') = db (srv c)"
proof -
  obtain c1 where c1: "EnsureVoteStateReadable call c = (Inr (), c1)" "fates c1 = []" "db (srv c1) = db (srv c)"
    using EnsureVoteStateReadable_ready [OF assms(1,2)] by blast
  let ?i = "(lpPage p - 1) * lpSize p" and ?n = "lpSize p"
  have i0: "0 \<le> ?i" using assms(4,5) by simp
  have e: "?i + ?n = lpPage p * lpSize p" by (simp add: algebra_simps)
  have r: "int_range 64 ?i" "int_range 64 (?i + ?n - 1)" using assms(5,6) i0 e by (auto simp: int_range_def)
  have w: "wrap_int 64 ?i = ?i" "wrap_int 64 (?i + ?n - 1) = ?i + ?n - 1" using r by (simp_all add: wrap_int_in_range)
  have slice: "zs_slice ?i (?i + ?n - 1) (rev z) = take (nat ?n) (drop (nat ?i) (rev z))"
    using zs_slice_page [of "nat ?n" "nat ?i" "rev z"] i0 assms(5) by simp
  have db: "db (snd (call (ZREVRANGE k a b) r)) = db r" for k a b r
    by (simp add: call_db on_zset_def split: option.splits)
  have "fst (redis_doc (nid (srv c1)) (ZREVRANGE (order_key (lpOrder p)) ?i (?i + ?n - 1)) (db (srv c1))) =
      Inr (RArray (map (\<lambda>(m, _). RBulk m) (zs_slice ?i (?i + ?n - 1) (rev z))))"
    using assms(3) c1(3) by (simp add: on_zset_def)
  from exec_read [OF c1(2) db this] obtain c2 where
    c2: "exec (call (ZREVRANGE (order_key (lpOrder p)) ?i (?i + ?n - 1))) c1 =
      (Inr (RArray (map (\<lambda>(m, _). RBulk m) (zs_slice ?i (?i + ?n - 1) (rev z)))), c2)" "fates c2 = []" "db (srv c2) = db (srv c1)"
    by blast
  have m: "map (\<lambda>y. case y of RBulk s \<Rightarrow> s | _ \<Rightarrow> []) (map (\<lambda>(m, _). RBulk m) xs) = map fst xs" for xs :: zset
    by (induction xs) auto
  show ?thesis
    using c1 c2 by (simp add: GetPostIDsInOrder_def getIDsFormKey_def thenM_def Let_def w reply_members_def m slice del: map_map)
qed

lemma zcounts_run:
  assumes "vote_wf (db r)"
  shows "fst (run_all call (map (\<lambda>i. ZCOUNT (voted_key i) 1 1) pids) r) = map (\<lambda>i. Inr (RInt (up_votes (db r) i))) pids \<and>
    db (snd (run_all call (map (\<lambda>i. ZCOUNT (voted_key i) 1 1) pids) r)) = db r"
  using assms
proof (induction pids arbitrary: r)
  case (Cons i pids)
  obtain z where z: "zset_at (db r) (voted_key i) = Some z" "zs_wf z"
    using Cons.prems unfolding vote_wf_def voted_wf_def by metis
  have "db (snd (call (ZCOUNT (voted_key i) 1 1) r)) = db r" using z(1) by (simp add: call_db on_zset_def)
  moreover have "fst (call (ZCOUNT (voted_key i) 1 1) r) = Inr (RInt (up_votes (db r) i))"
    using z(1) count_up [OF z] by (simp add: call_reply on_zset_def)
  ultimately show ?case using Cons.IH [of "snd (call (ZCOUNT (voted_key i) 1 1) r)"] Cons.prems by simp
qed simp

lemma GetPostVoteData_run:
  assumes "fates c = []" "vote_wf (db (srv c))"
  shows "\<exists>c'. GetPostVoteData call pids c = (Inr (map (up_votes (db (srv c))) pids), c') \<and> fates c' = [] \<and> db (srv c') = db (srv c)"
proof -
  have fe: "first_error (map Inr xs) = Inr xs" for xs by (induction xs) auto
  note z = zcounts_run [OF assms(2), of pids]
  have "first_error (fst (run_all call (map (\<lambda>i. ZCOUNT (voted_key i) 1 1) pids) (srv c))) = Inr (map (\<lambda>i. RInt (up_votes (db (srv c)) i)) pids)"
    using z fe [of "map (\<lambda>i. RInt (up_votes (db (srv c)) i)) pids"] by (simp add: comp_def)
  then show ?thesis using z assms(1)
    by (simp add: GetPostVoteData_def thenM_def exec_tx_def exec_no_fault comp_def int_reply_def)
qed

end

section \<open>Reading the rows\<close>

lemma find_in_set_index:
  "distinct xs \<Longrightarrow> k < length xs \<Longrightarrow> find_in_set (xs ! k) xs = Suc k"
proof (induction xs arbitrary: k)
  case (Cons x xs)
  show ?case
  proof (cases k)
    case (Suc j)
    with Cons have "x \<noteq> xs ! j" by (metis Suc_less_eq distinct.simps(2) length_Cons nth_mem)
    with Suc Cons show ?thesis by simp
  qed simp
qed simp

lemma sort_key_select:
  assumes "distinct xs" "distinct ys" "set (filter P xs) = set ys" "inj_on f (set ys)" "sorted (map f ys)"
  shows "sort_key f (filter P xs) = ys"
proof (rule sort_key_inj_key_eq)
  show "mset (filter P xs) = mset ys" using assms(1-3) set_eq_iff_mset_eq_distinct [of "filter P xs" ys] by simp
qed (use assms in simp_all)

lemma positions_sorted:
  assumes "\<And>k. k < length ys \<Longrightarrow> f (ys ! k) = Suc k"
  shows "inj_on f (set ys)" "sorted (map f ys)"
proof -
  show "inj_on f (set ys)"
  proof (rule inj_onI)
    fix x y assume "x \<in> set ys" "y \<in> set ys" "f x = f y"
    then obtain i j where "i < length ys" "j < length ys" "x = ys ! i" "y = ys ! j" by (metis in_set_conv_nth)
    with assms [of i] assms [of j] \<open>f x = f y\<close> show "x = y" by simp
  qed
  have "map f ys = map Suc [0..<length ys]" using assms by (intro nth_equalityI) simp_all
  then show "sorted (map f ys)" by (simp only: sorted_map) (simp add: sorted_wrt_iff_nth_less)
qed

lemma posts_by_ids_rows:
  assumes "mysql_server M" "distinct (map po_id (t_posts t))" "distinct (map po_id ps)" "set ps \<subseteq> set (t_posts t)"
    and "\<forall>p\<in>set ps. int_range 64 (po_id p)"
  shows "posts_by_ids M (map (\<lambda>p. FormatInt (po_id p)) ps) t = ps"
proof -
  obtain ids where ids: "ids = map (\<lambda>p. FormatInt (po_id p)) ps" by simp
  have big: "sql_bigint M (FormatInt (po_id p)) = Some (po_id p)" if x: "p \<in> set ps" for p
    using assms(1,5) x by (intro mysql_server.bigint_parsed) (simp_all add: ParseInt_FormatInt)
  have sel: "list_ex (\<lambda>i. sql_bigint M i = Some (po_id q)) ids \<longleftrightarrow> q \<in> set ps" if x: "q \<in> set (t_posts t)" for q
  proof
    assume "list_ex (\<lambda>i. sql_bigint M i = Some (po_id q)) ids"
    then obtain p where p: "p \<in> set ps" "po_id q = po_id p" using big by (auto simp: list_ex_iff ids)
    have "p \<in> set (t_posts t)" using p(1) assms(4) by blast
    with p assms(2) x show "q \<in> set ps" by (metis distinct_map inj_onD)
  next
    assume "q \<in> set ps"
    with big show "list_ex (\<lambda>i. sql_bigint M i = Some (po_id q)) ids" by (auto simp: list_ex_iff ids)
  qed
  have dids: "distinct ids" using assms(3) by (simp add: ids distinct_map inj_on_def)
  have key: "find_in_set (FormatInt (po_id (ps ! k))) ids = Suc k" if x: "k < length ps" for k
    using find_in_set_index [OF dids, of k] x by (simp add: ids)
  have "sort_key (\<lambda>p. find_in_set (FormatInt (po_id p)) ids) (filter (\<lambda>p. list_ex (\<lambda>i. sql_bigint M i = Some (po_id p)) ids) (t_posts t)) = ps"
  proof (rule sort_key_select)
    show "distinct (t_posts t)" "distinct ps" using assms(2,3) distinct_map by blast+
    show "set (filter (\<lambda>q. list_ex (\<lambda>i. sql_bigint M i = Some (po_id q)) ids) (t_posts t)) = set ps"
      using sel assms(4) by (simp only: set_filter) blast
  qed (rule positions_sorted, simp add: key)+
  then show ?thesis by (simp only: posts_by_ids_def ids)
qed

lemma sql_query_ok: "a_sql s = [] \<Longrightarrow> sql_query f s = (Inr (f (a_tables s)), s)"
  by (cases s) (simp add: sql_query_def sqlM_def)

lemma user_batches_run:
  "a_sql s = [] \<Longrightarrow> user_batches bs s = (Inr (concat (map (\<lambda>b. filter (\<lambda>u. us_id u \<in> set b) (t_users (a_tables s))) bs)), s)"
  by (induction bs) (simp_all add: thenM_def sql_query_ok)

lemma set_remdups_fwd: "set (remdups_fwd seen xs) = set xs - set seen"
  by (induction xs arbitrary: seen) auto

lemma GetUsersByIDs_run:
  assumes "a_sql s = []"
  shows "\<exists>us. GetUsersByIDs pids s = (Inr us, s) \<and> set us = {u \<in> set (t_users (a_tables s)). us_id u \<in> set pids}"
proof -
  let ?ids = "remdups_fwd [] pids" and ?bs = "chunks (length (remdups_fwd [] pids)) 500 (remdups_fwd [] pids)"
  have "\<Union> (set ` set ?bs) = set pids"
    using concat_chunks [of 500 ?ids "length ?ids"] set_remdups_fwd [of "[]" pids] set_concat [of ?bs] by simp
  then have "set (concat (map (\<lambda>b. filter (\<lambda>u. us_id u \<in> set b) (t_users (a_tables s))) ?bs)) =
      {u \<in> set (t_users (a_tables s)). us_id u \<in> set pids}" by auto
  then show ?thesis using user_batches_run [OF assms, of ?bs] by (simp add: GetUsersByIDs_def Let_def)
qed

lemma GetCommunityDetailsByIDs_run:
  assumes "a_sql s = []"
  shows "\<exists>cs. GetCommunityDetailsByIDs pids s = (Inr cs, s) \<and> set cs = {c \<in> set (t_communities (a_tables s)). co_id c \<in> set pids}"
  using assms by (simp add: GetCommunityDetailsByIDs_def sql_query_ok)

lemma map_of_rows:
  assumes "distinct (map f rows)" "set xs \<subseteq> set rows" "r \<in> set xs"
  shows "map_of (map (\<lambda>r. (f r, g r)) (rev xs)) (f r) = Some (g r)"
proof (cases "map_of (map (\<lambda>r. (f r, g r)) (rev xs)) (f r)")
  case None
  with assms(3) show ?thesis by (auto simp: map_of_eq_None_iff image_image)
next
  case (Some y)
  then obtain q where q: "q \<in> set xs" "f q = f r" "y = g q" by (auto dest!: map_of_SomeD)
  then have "q = r" using assms by (meson distinct_map inj_onD subsetD)
  with q Some show ?thesis by simp
qed

lemma detail_rows_all:
  "\<forall>p\<in>set ps. um (po_author p) \<noteq> None \<and> cm (po_community p) \<noteq> None \<Longrightarrow> idx + length ps = length vd \<Longrightarrow>
    detail_rows um cm vd idx ps =
      map2 (\<lambda>p v. \<lparr>adAuthorName = the (um (po_author p)), adVoteNum = v, adPost = p, adCommunity = the (cm (po_community p))\<rparr>)
        ps (drop idx vd)"
proof (induction ps arbitrary: idx)
  case (Cons p ps)
  then have "drop idx vd = vd ! idx # drop (Suc idx) vd" by (simp add: Cons_nth_drop_Suc)
  with Cons show ?case by auto
qed simp

section \<open>A page of the list\<close>

text \<open>What a page shows of a post: the row itself, its own up-votes, its author and its community.\<close>

definition shown :: "forum_tables \<Rightarrow> keyspace \<Rightarrow> post_row \<Rightarrow> ApiPostDetail \<Rightarrow> bool" where
  "shown t ks p d \<longleftrightarrow> adPost d = p \<and> adVoteNum d = up_votes ks (FormatInt (po_id p)) \<and>
     (\<exists>u\<in>set (t_users t). us_id u = po_author p \<and> adAuthorName d = us_name u) \<and>
     adCommunity d \<in> set (t_communities t) \<and> co_id (adCommunity d) = po_community p"

definition listable :: "forum_tables \<Rightarrow> bool" where
  "listable t \<longleftrightarrow> distinct (map po_id (t_posts t)) \<and> distinct (map us_id (t_users t)) \<and> distinct (map co_id (t_communities t)) \<and>
     (\<forall>p\<in>set (t_posts t). int_range 64 (po_id p) \<and> po_author p \<in> us_id ` set (t_users t) \<and>
        po_community p \<in> co_id ` set (t_communities t))"

lemma detail_rows_shown:
  assumes "listable t" "set ps \<subseteq> set (t_posts t)" "vd = map (\<lambda>p. up_votes ks (FormatInt (po_id p))) ps"
    and "set us = {u \<in> set (t_users t). us_id u \<in> po_author ` set ps}"
    and "set cs = {c \<in> set (t_communities t). co_id c \<in> po_community ` set ps}"
  shows "list_all2 (shown t ks) ps (detail_rows (map_of (map (\<lambda>u. (us_id u, us_name u)) (rev us)))
      (map_of (map (\<lambda>c. (co_id c, c)) (rev cs))) vd 0 ps)"
proof -
  let ?um = "map_of (map (\<lambda>u. (us_id u, us_name u)) (rev us))" and ?cm = "map_of (map (\<lambda>c. (co_id c, c)) (rev cs))"
  have u: "\<exists>u\<in>set (t_users t). us_id u = po_author p \<and> ?um (po_author p) = Some (us_name u)" if x: "p \<in> set ps" for p
  proof -
    obtain u where u: "u \<in> set (t_users t)" "us_id u = po_author p" using assms(1,2) x by (force simp: listable_def)
    then have "u \<in> set us" using x by (auto simp: assms(4))
    moreover have "distinct (map us_id (t_users t))" "set us \<subseteq> set (t_users t)" using assms(1,4) by (auto simp: listable_def)
    ultimately have "?um (us_id u) = Some (us_name u)" by (intro map_of_rows)
    with u show ?thesis by metis
  qed
  have c: "\<exists>c\<in>set (t_communities t). co_id c = po_community p \<and> ?cm (po_community p) = Some c" if x: "p \<in> set ps" for p
  proof -
    obtain c where c: "c \<in> set (t_communities t)" "co_id c = po_community p" using assms(1,2) x by (force simp: listable_def)
    then have "c \<in> set cs" using x by (auto simp: assms(5))
    moreover have "distinct (map co_id (t_communities t))" "set cs \<subseteq> set (t_communities t)" using assms(1,5) by (auto simp: listable_def)
    ultimately have "?cm (co_id c) = Some c" by (intro map_of_rows)
    with c show ?thesis by metis
  qed
  have "\<forall>p\<in>set ps. ?um (po_author p) \<noteq> None \<and> ?cm (po_community p) \<noteq> None"
  proof
    fix p assume x: "p \<in> set ps"
    show "?um (po_author p) \<noteq> None \<and> ?cm (po_community p) \<noteq> None" using u [OF x] c [OF x] by (elim bexE conjE) simp
  qed
  from detail_rows_all [OF this, of 0 vd] have d: "detail_rows ?um ?cm vd 0 ps =
      map (\<lambda>p. \<lparr>adAuthorName = the (?um (po_author p)), adVoteNum = up_votes ks (FormatInt (po_id p)), adPost = p,
        adCommunity = the (?cm (po_community p))\<rparr>) ps"
    by (simp add: assms(3) zip_map2 zip_same_conv_map comp_def)
  have "shown t ks p \<lparr>adAuthorName = the (?um (po_author p)), adVoteNum = up_votes ks (FormatInt (po_id p)), adPost = p,
        adCommunity = the (?cm (po_community p))\<rparr>" if x: "p \<in> set ps" for p
    using u [OF x] c [OF x] by (auto simp: shown_def)
  then show ?thesis unfolding d by (simp add: list_all2_map2 list.rel_refl_strong)
qed

context redis_server
begin

lemma buildPostDetails_run:
  assumes "fates (a_redis s) = []" "a_sql s = []" "vote_wf (db (srv (a_redis s)))" "listable (a_tables s)"
    and "set ps \<subseteq> set (t_posts (a_tables s))"
  shows "\<exists>data s'. buildPostDetails call ps (map (\<lambda>p. FormatInt (po_id p)) ps) s = (Inr data, s') \<and>
    list_all2 (shown (a_tables s) (db (srv (a_redis s)))) ps data \<and>
    a_tables s' = a_tables s \<and> db (srv (a_redis s')) = db (srv (a_redis s))"
proof (cases "ps = []")
  case True
  then show ?thesis by (simp add: buildPostDetails_def)
next
  case False
  let ?ids = "map (\<lambda>p. FormatInt (po_id p)) ps" and ?ks = "db (srv (a_redis s))"
  obtain c where c: "GetPostVoteData call ?ids (a_redis s) = (Inr (map (up_votes ?ks) ?ids), c)" "fates c = []" "db (srv c) = ?ks"
    using GetPostVoteData_run [OF assms(1,3), of ?ids] by blast
  let ?s1 = "s\<lparr>a_redis := c\<rparr>"
  obtain us where us: "GetUsersByIDs (remdups_fwd [] (map po_author ps)) ?s1 = (Inr us, ?s1)"
    "set us = {u \<in> set (t_users (a_tables s)). us_id u \<in> po_author ` set ps}"
    using GetUsersByIDs_run [of ?s1 "remdups_fwd [] (map po_author ps)"] assms(2) by (auto simp: set_remdups_fwd)
  obtain cs where cs: "GetCommunityDetailsByIDs (remdups_fwd [] (map po_community ps)) ?s1 = (Inr cs, ?s1)"
    "set cs = {c \<in> set (t_communities (a_tables s)). co_id c \<in> po_community ` set ps}"
    using GetCommunityDetailsByIDs_run [of ?s1 "remdups_fwd [] (map po_community ps)"] assms(2) by (auto simp: set_remdups_fwd)
  have "redisM (GetPostVoteData call ?ids) s = (Inr (map (up_votes ?ks) ?ids), ?s1)" by (simp add: redisM_def c(1))
  then have "buildPostDetails call ps ?ids s =
      (Inr (detail_rows (map_of (map (\<lambda>u. (us_id u, us_name u)) (rev us))) (map_of (map (\<lambda>c. (co_id c, c)) (rev cs)))
        (map (up_votes ?ks) ?ids) 0 ps), ?s1)"
    using False us(1) cs(1) by (simp add: buildPostDetails_def thenM_def)
  with detail_rows_shown [OF assms(4,5) _ us(2) cs(2), of "map (up_votes ?ks) ?ids" ?ks] c(3) show ?thesis
    by (simp add: comp_def)
qed

end

lemma page_sorted:
  assumes "zs_wf z"
  shows "sorted_wrt (\<lambda>m m'. the (map_of z m') \<le> the (map_of z m)) (map fst (take n (drop i (rev z))))"
proof -
  have d: "distinct (map fst z)" using assms by (simp add: zs_wf_def)
  have "sorted_wrt (\<lambda>x y. zkey y \<le> zkey x) (rev z)" using assms by (simp add: zs_wf_def sorted_wrt_rev sorted_wrt_map)
  then have "sorted_wrt (\<lambda>x y. snd y \<le> snd x) (rev z)"
    by (rule sorted_wrt_mono_rel [rotated]) (auto simp: zkey_def less_eq_prod_def)
  then have "sorted_wrt (\<lambda>x y. snd y \<le> snd x) (take n (drop i (rev z)))" by (intro sorted_wrt_take sorted_wrt_drop)
  then have "sorted_wrt (\<lambda>x y. the (map_of z (fst y)) \<le> the (map_of z (fst x))) (take n (drop i (rev z)))"
  proof (rule sorted_wrt_mono_rel [rotated])
    fix x y assume "x \<in> set (take n (drop i (rev z)))" "y \<in> set (take n (drop i (rev z)))" and le: "snd y \<le> snd x"
    then have "x \<in> set z" "y \<in> set z" by (auto dest!: in_set_takeD in_set_dropD)
    with d le show "the (map_of z (fst y)) \<le> the (map_of z (fst x))" by (cases x, cases y) simp
  qed
  then show ?thesis by (simp add: sorted_wrt_map)
qed

lemma page_rows:
  assumes "\<forall>i\<in>set pids. \<exists>p\<in>set posts. i = FormatInt (po_id p)" "distinct pids"
  obtains ps where "pids = map (\<lambda>p. FormatInt (po_id p)) ps" "set ps \<subseteq> set posts" "distinct (map po_id ps)"
proof -
  obtain g where g: "\<forall>i\<in>set pids. g i \<in> set posts \<and> i = FormatInt (po_id (g i))" using assms(1) by metis
  have e: "pids = map (\<lambda>p. FormatInt (po_id p)) (map g pids)" using g by (simp add: map_idI)
  have "distinct (map FormatInt (map po_id (map g pids)))" using assms(2) e by (simp add: comp_def)
  then have "distinct (map po_id (map g pids))" using distinct_map by blast
  moreover have "set (map g pids) \<subseteq> set posts" using g by auto
  ultimately show thesis using that e by blast
qed

text \<open>Two posts, of which the older has an up-vote.\<close>

definition demo_post8 :: post_row where
  "demo_post8 = demo_post\<lparr>po_id := 8, po_author := 3, po_created := 2000\<rparr>"

definition demo_board_ks :: keyspace where
  "demo_board_ks = [status_key \<mapsto> VStr VoteStateReady, time_key \<mapsto> VZSet [(''7'', 1000), (''8'', 2000)],
     score_key \<mapsto> VZSet [(''7'', 1432), (''8'', 2000)], voted_key ''7'' \<mapsto> VZSet [(''5'', 1)]]"

definition demo_board :: "keyspace app" where
  "demo_board = \<lparr>a_redis = \<lparr>srv = demo_board_ks, fates = []\<rparr>,
     a_tables = \<lparr>consumed = [], post_vote = [], t_posts = [demo_post, demo_post8],
       t_users = [\<lparr>us_id = 2, us_name = ''bob'', us_password = []\<rparr>, \<lparr>us_id = 3, us_name = ''carol'', us_password = []\<rparr>],
       t_communities = [\<lparr>co_id = 1, co_name = ''go'', co_intro = [], co_created = 0\<rparr>]\<rparr>, a_sql = []\<rparr>"

lemma demo_board_at [simp]:
  "demo_board_ks status_key = Some (VStr VoteStateReady)"
  "zset_at demo_board_ks time_key = Some [(''7'', 1000), (''8'', 2000)]"
  "zset_at demo_board_ks score_key = Some [(''7'', 1432), (''8'', 2000)]"
  "zset_at demo_board_ks (voted_key p) = Some (if p = ''7'' then [(''5'', 1)] else [])"
  "hash_at demo_board_ks (version_key p) = Some Map.empty" "stream_at demo_board_ks outbox_key = Some empty_stream"
  by (simp_all add: demo_board_ks_def zset_at_def hash_at_def stream_at_def)

lemma demo_board_wf: "vote_wf demo_board_ks"
  by (simp add: vote_wf_def zs_wf_def voted_wf_def versions_wf_def zkey_def)

lemma demo_FormatInt: "FormatInt 7 = ''7''" "FormatInt 8 = ''8''"
  by (simp_all add: FormatInt_def nat_decimal.simps digit_char_def)

lemma demo_board_sel [simp]:
  "a_redis demo_board = \<lparr>srv = demo_board_ks, fates = []\<rparr>" "a_sql demo_board = []" "t_posts (a_tables demo_board) = [demo_post, demo_post8]"
  "t_users (a_tables demo_board) = [\<lparr>us_id = 2, us_name = ''bob'', us_password = []\<rparr>, \<lparr>us_id = 3, us_name = ''carol'', us_password = []\<rparr>]"
  "po_id demo_post8 = 8"
  by (simp_all add: demo_board_def demo_post8_def)

lemma demo_listable: "listable (a_tables demo_board)"
  by (simp add: listable_def demo_board_def demo_post8_def demo_post_def int_range_def)

lemma demo_up_votes: "up_votes demo_board_ks ''7'' = 1"
proof -
  have "{u. direction_of demo_board_ks ''7'' u = 1} = {''5''}" by (auto simp: direction_of_def zscore_def)
  then show ?thesis by (simp add: up_votes_def)
qed

section \<open>The theorems\<close>

text \<open>
  C14: a page of the post list is right. Without faults and with the marker saying ready, the
  request for page n of size k is answered with the k posts at positions (n-1)k to nk-1 of the
  index, newest or highest score first; each comes with the row MySQL holds, the number of up-votes
  Redis holds for this very post, its own author and its own community, and nothing is changed.
\<close>

theorem post_list_page:
  assumes "redis_server call db nid" "mysql_server M" "fates (a_redis s) = []" "a_sql s = []" "listable (a_tables s)"
    and "vote_wf (db (srv (a_redis s)))" "db (srv (a_redis s)) status_key = Some (VStr VoteStateReady)"
    and "zset_at (db (srv (a_redis s))) (order_key (lpOrder p)) = Some z"
    and "\<forall>i\<in>fst ` set z. \<exists>q\<in>set (t_posts (a_tables s)). i = FormatInt (po_id q)"
    and "bind_query \<lparr>lpCommunityID = 0, lpPage = 1, lpSize = 10, lpOrder = OrderTime\<rparr> = Some p" "lpCommunityID p = 0"
    and "1 \<le> lpPage p" "1 \<le> lpSize p" "int_range 64 (lpPage p * lpSize p)"
  defines "ks \<equiv> db (srv (a_redis s))"
  shows "\<exists>data s'. GetPostListTwoHandler call M bind_query s = (ResponseSuccess (Some data), s') \<and>
    map (\<lambda>d. FormatInt (po_id (adPost d))) data = map fst (take (nat (lpSize p)) (drop (nat ((lpPage p - 1) * lpSize p)) (rev z))) \<and>
    sorted_wrt (\<lambda>d d'. the (map_of z (FormatInt (po_id (adPost d')))) \<le> the (map_of z (FormatInt (po_id (adPost d))))) data \<and>
    (\<forall>d\<in>set data. adPost d \<in> set (t_posts (a_tables s)) \<and> shown (a_tables s) ks (adPost d) d) \<and>
    a_tables s' = a_tables s \<and> db (srv (a_redis s')) = ks"
proof -
  note server = assms(1)
  obtain pids where pids: "pids = map fst (take (nat (lpSize p)) (drop (nat ((lpPage p - 1) * lpSize p)) (rev z)))" by simp
  have z: "zs_wf z" using assms(6,8) by (auto simp: vote_wf_def order_key_def split: if_splits)
  have d: "distinct pids" using z by (simp add: pids zs_wf_def take_map [symmetric] drop_map [symmetric] rev_map [symmetric])
  have "set pids \<subseteq> fst ` set z" by (auto simp: pids dest!: in_set_takeD in_set_dropD)
  then have "\<forall>i\<in>set pids. \<exists>q\<in>set (t_posts (a_tables s)). i = FormatInt (po_id q)" using assms(9) by (meson subsetD)
  then obtain ps where ps: "pids = map (\<lambda>p. FormatInt (po_id p)) ps" "set ps \<subseteq> set (t_posts (a_tables s))" "distinct (map po_id ps)"
    by (rule page_rows [OF _ d])
  from redis_server.GetPostIDsInOrder_page [OF server assms(3,7,8,12-14)] obtain c where
    c: "GetPostIDsInOrder call p (a_redis s) = (Inr pids, c)" "fates c = []" "db (srv c) = ks"
    unfolding ks_def pids by (elim exE conjE)
  let ?s1 = "s\<lparr>a_redis := c\<rparr>"
  have list: "GetPostListNew call M p s = (if pids = [] then (Inr [], ?s1)
      else thenM (GetPostListByIds M pids) (\<lambda>posts. buildPostDetails call posts pids) ?s1)"
    by (simp only: GetPostListNew_def assms(11) simp_thms if_True GetPostListTwo_def) (simp add: thenM_def redisM_def c(1))
  have "\<exists>data s'. GetPostListNew call M p s = (Inr data, s') \<and> list_all2 (shown (a_tables s) ks) ps data \<and>
      a_tables s' = a_tables s \<and> db (srv (a_redis s')) = ks"
  proof (cases "pids = []")
    case True
    with list ps(1) c(3) show ?thesis by simp
  next
    case False
    have "posts_by_ids M pids (a_tables s) = ps"
      unfolding ps(1) using assms(2,5) ps(2,3) by (intro posts_by_ids_rows) (auto simp: listable_def)
    then have q: "GetPostListByIds M pids ?s1 = (Inr ps, ?s1)"
      using False assms(4) by (simp add: GetPostListByIds_def sql_query_ok)
    have "fates (a_redis ?s1) = []" "a_sql ?s1 = []" "vote_wf (db (srv (a_redis ?s1)))" "listable (a_tables ?s1)"
      "set ps \<subseteq> set (t_posts (a_tables ?s1))" "db (srv (a_redis ?s1)) = ks" "a_tables ?s1 = a_tables s"
      using assms(4-6) c(2,3) ps(2) by (simp_all add: ks_def)
    from redis_server.buildPostDetails_run [OF server this(1-5), folded ps(1), unfolded this(6,7)]
    obtain data s' where b: "buildPostDetails call ps pids ?s1 = (Inr data, s')" "list_all2 (shown (a_tables s) ks) ps data"
      "a_tables s' = a_tables s" "db (srv (a_redis s')) = ks" by (elim exE conjE)
    from list [unfolded if_not_P [OF False]] q b show ?thesis by (simp add: thenM_def)
  qed
  then obtain data s' where data: "GetPostListNew call M p s = (Inr data, s')" "list_all2 (shown (a_tables s) ks) ps data"
    "a_tables s' = a_tables s" "db (srv (a_redis s')) = ks" by (elim exE conjE)
  have posts: "map adPost data = ps" using data(2) by (induction rule: list_all2_induct) (simp_all add: shown_def)
  have order: "map (\<lambda>d. FormatInt (po_id (adPost d))) data = pids" unfolding ps(1) posts [symmetric] by simp
  have "sorted_wrt (\<lambda>m m'. the (map_of z m') \<le> the (map_of z m)) (map (\<lambda>d. FormatInt (po_id (adPost d))) data)"
    unfolding order pids by (rule page_sorted [OF z])
  then have sorted: "sorted_wrt (\<lambda>d d'. the (map_of z (FormatInt (po_id (adPost d')))) \<le> the (map_of z (FormatInt (po_id (adPost d))))) data"
    by (simp only: sorted_wrt_map)
  have each: "\<forall>d\<in>set data. adPost d \<in> set (t_posts (a_tables s)) \<and> shown (a_tables s) ks (adPost d) d"
  proof
    fix d assume "d \<in> set data"
    then obtain i where i: "i < length data" "data ! i = d" by (auto simp: in_set_conv_nth)
    then have "shown (a_tables s) ks (ps ! i) d" "ps ! i \<in> set ps"
      using data(2) list_all2_nthD2 [OF data(2) i(1)] by (simp_all add: list_all2_lengthD)
    with ps(2) show "adPost d \<in> set (t_posts (a_tables s)) \<and> shown (a_tables s) ks (adPost d) d" by (auto simp: shown_def)
  qed
  have "GetPostListTwoHandler call M bind_query s = (ResponseSuccess (Some data), s')"
    by (simp add: GetPostListTwoHandler_def assms(10) data(1))
  with order [unfolded pids] sorted each data(3,4) show ?thesis by (intro exI conjI)
qed

theorem post_list_page_witness:
  "\<exists>d s'. GetPostListTwoHandler ref_call ref_mysql (\<lambda>p. Some (p\<lparr>lpPage := 2, lpSize := 1\<rparr>)) demo_board =
      (ResponseSuccess (Some [d]), s') \<and> po_id (adPost d) = 7 \<and> adVoteNum d = 1 \<and> adAuthorName d = ''bob''"
proof -
  let ?p = "\<lparr>lpCommunityID = 0, lpPage = 2, lpSize = 1, lpOrder = OrderTime\<rparr>"
  have "\<exists>data s'. GetPostListTwoHandler ref_call ref_mysql (\<lambda>p. Some (p\<lparr>lpPage := 2, lpSize := 1\<rparr>)) demo_board =
      (ResponseSuccess (Some data), s') \<and> map (\<lambda>d. FormatInt (po_id (adPost d))) data = [''7''] \<and>
      (\<forall>d\<in>set data. adPost d \<in> {demo_post, demo_post8} \<and> shown (a_tables demo_board) demo_board_ks (adPost d) d)"
    using post_list_page [OF ref.redis_server_axioms refsql.mysql_server_axioms, of demo_board ?p "[(''7'', 1000), (''8'', 2000)]"
        "\<lambda>p. Some (p\<lparr>lpPage := 2, lpSize := 1\<rparr>)"]
    by (simp add: demo_listable demo_board_wf order_key_def OrderTime_def OrderScore_def int_range_def demo_FormatInt) (elim exE conjE, intro exI conjI, assumption+)
  then obtain data s' where data: "GetPostListTwoHandler ref_call ref_mysql (\<lambda>p. Some (p\<lparr>lpPage := 2, lpSize := 1\<rparr>)) demo_board =
      (ResponseSuccess (Some data), s')" "map (\<lambda>d. FormatInt (po_id (adPost d))) data = [''7'']"
      "\<forall>d\<in>set data. adPost d \<in> {demo_post, demo_post8} \<and> shown (a_tables demo_board) demo_board_ks (adPost d) d" by (elim exE conjE)
  then obtain d where d: "data = [d]" "FormatInt (po_id (adPost d)) = ''7''" by auto
  have "adPost d = demo_post" using data(3) d demo_FormatInt by auto
  moreover from this have "adVoteNum d = 1" "adAuthorName d = ''bob''" "po_id (adPost d) = 7"
    using data(3) d demo_up_votes demo_FormatInt by (auto simp: shown_def demo_post_def)
  ultimately show ?thesis using data(1) d(1) by blast
qed

end
