(* ===== verification/AuthCorrect.thy ===== *)
theory AuthCorrect
  imports Auth
begin

text \<open>
  What the session check guarantees: a request reaches a handler only with a valid token whose session
  is the one its user has now, a login opens that session and its token works while the session is
  there, and a logout closes it.
\<close>

section \<open>The middleware and a login\<close>

lemma ctx_set_get [simp]:
  "getCurrentUserID (ctx_set CtxtSessionIDKey v (ctx_set CtxtUserIDKey (CtxInt64 u) c)) = Inr u"
  "getCurrentSessionID (ctx_set CtxtSessionIDKey (CtxString s) c) = (if s = [] then Inl ErrorUserNotLogin else Inr s)"
  by (simp_all add: getCurrentUserID_def getCurrentSessionID_def ctx_set_def CtxtSessionIDKey_def CtxtUserIDKey_def)

lemma ParseToken_Inr:
  assumes "jwt_library J" "ParseToken J conf now tok = Inr mc"
  shows "clIssuer mc = ''convo''" "\<forall>x. clExpiresAt mc = Some x \<longrightarrow> now < x * second_ns"
proof -
  obtain alg where "jwt_parse J (JwtSecret conf) [''HS256''] ''convo'' now tok = Some (alg, mc)"
    using assms(2) by (auto simp: ParseToken_def split: option.splits if_splits)
  from jwt_library.jwt_options [OF assms(1) this] show "clIssuer mc = ''convo''" "\<forall>x. clExpiresAt mc = Some x \<longrightarrow> now < x * second_ns"
    by blast+
qed

lemma GenToken_parses:
  assumes "jwt_library J" "GenToken J conf now u name sid = Inr (tok, x)" "plain_text sid" "now' < expires_at conf now * second_ns"
  shows "\<exists>mc. ParseToken J conf now' tok = Inr mc \<and> clSubject mc = FormatInt u \<and> clSessionID mc = sid"
proof -
  let ?c = "\<lparr>clUsername = name, clSessionID = sid, clSubject = FormatInt u, clIssuer = ''convo'',
      clIssuedAt = Some (now div second_ns), clExpiresAt = Some (expires_at conf now)\<rparr>"
  have "jwt_sign J (JwtSecret conf) ?c = Inr tok"
    using assms(2) by (auto simp: GenToken_def Let_def split: sum.splits)
  from jwt_library.jwt_signed [OF assms(1) this, of "[''HS256'']" "''convo''" "expires_at conf now" now']
  show ?thesis using assms(3,4) FormatInt_plain [of u] by (auto simp: ParseToken_def)
qed

lemma Login_cases:
  assumes "Login call M B J conf now later rand p s = (Inr user, s')"
  obtains r bytes x c where "r \<in> set (t_users (a_tables s))" "named M (plUsername p) r" "ComparePassword B (us_password r) (plPassword p)"
    "uUserID user = us_id r" "uUsername user = us_name r" "rand = Some bytes"
    "GenToken J conf now (us_id r) (us_name r) (RawURLEncoding bytes) = Inr (uToken user, x)"
    "SetSession call (us_id r) (RawURLEncoding bytes) (Until later (x * second_ns)) (a_redis s) = (Inr (), c)"
    "a_redis s' = c" "a_tables s' = a_tables s"
proof -
  let ?u0 = "\<lparr>uUserID = 0, uUsername = plUsername p, uPassword = plPassword p, uToken = []\<rparr>"
  obtain u1 s1 where u1: "MysqlLogin M B ?u0 s = (Inr u1, s1)"
    and k: "(case rand of None \<Rightarrow> raise (ErrText ''rand'')
     | Some sessionBytes \<Rightarrow>
         let sessionID = RawURLEncoding sessionBytes in
         thenM (liftE (GenToken J conf now (uUserID u1) (uUsername u1) sessionID)) (\<lambda>(token, expiresAt).
         thenM (redisM (SetSession call (uUserID u1) sessionID (Until later (expiresAt * second_ns)))) (\<lambda>_.
         ret (u1\<lparr>uToken := token\<rparr>)))) s1 = (Inr user, s')"
    using assms unfolding Login_def thenM_def [of "MysqlLogin _ _ _"] by (auto split: prod.splits sum.splits)
  obtain r where r: "find (named M (plUsername p)) (t_users (a_tables s)) = Some r"
    "ComparePassword B (us_password r) (plPassword p)"
    "u1 = ?u0\<lparr>uUserID := us_id r, uUsername := us_name r, uPassword := us_password r\<rparr>"
    "a_tables s1 = a_tables s" "a_redis s1 = a_redis s"
    using u1 by (auto simp: MysqlLogin_def thenM_def sql_query_def sqlM_def split: list.splits bool.splits option.splits if_splits)
  obtain bytes where b: "rand = Some bytes" using k by (cases rand) auto
  obtain tok x where t: "GenToken J conf now (us_id r) (us_name r) (RawURLEncoding bytes) = Inr (tok, x)"
    using k b r(3) by (cases "GenToken J conf now (us_id r) (us_name r) (RawURLEncoding bytes)") (auto simp: liftE_def)
  obtain res c where c: "SetSession call (us_id r) (RawURLEncoding bytes) (Until later (x * second_ns)) (a_redis s) = (res, c)" by fastforce
  have "res = Inr ()" "user = u1\<lparr>uToken := tok\<rparr>" "s' = s1\<lparr>a_redis := c\<rparr>"
    using k b r(3,5) t c by (auto simp: liftE_def thenM_def redisM_def split: sum.splits)
  moreover have "r \<in> set (t_users (a_tables s))" "named M (plUsername p) r" using r(1) by (auto simp: find_Some_iff)
  ultimately show thesis using that [of r bytes x c] r b t c by simp
qed

section \<open>Signing up\<close>

lemma find_skip: "\<forall>x\<in>set xs. \<not> P x \<Longrightarrow> find P (xs @ ys) = find P ys"
  by (induction xs) auto

context bcrypt_library
begin

text \<open>Who has signed up is found, with the password given, by the next login.\<close>

lemma SignUp_MysqlLogin:
  assumes "SignUp M B u salt p s = (Inr (), s')" "a_sql s' = []"
  shows "\<exists>user. fst (MysqlLogin M B \<lparr>uUserID = 0, uUsername = psUsername p, uPassword = psPassword p, uToken = []\<rparr> s') = Inr user \<and>
    uUserID user = u \<and> uUsername user = psUsername p"
proof -
  obtain s1 where c: "CheckUserExit M (psUsername p) s = (Inr (), s1)"
    and k: "thenM (liftE (EncryptPassword B salt (psPassword p)))
      (\<lambda>hash. InsertUser M \<lparr>uUserID = u, uUsername = psUsername p, uPassword = hash, uToken = []\<rparr>) s1 = (Inr (), s')"
    using assms(1) unfolding SignUp_def thenM_def [of "CheckUserExit _ _"] by (auto split: prod.splits sum.splits)
  have none: "filter (named M (psUsername p)) (t_users (a_tables s1)) = []"
    using c by (auto simp: CheckUserExit_def thenM_def sql_query_def sqlM_def split: list.splits bool.splits if_splits)
  obtain hash where h: "EncryptPassword B salt (psPassword p) = Inr hash"
    and ins: "InsertUser M \<lparr>uUserID = u, uUsername = psUsername p, uPassword = hash, uToken = []\<rparr> s1 = (Inr (), s')"
    using k by (auto simp: liftE_def thenM_def split: sum.splits)
  have cmp: "ComparePassword B hash (psPassword p)"
    using h bc_accepts by (auto simp: EncryptPassword_def ComparePassword_def split: if_splits option.splits)
  have rows: "t_users (a_tables s') = t_users (a_tables s1) @ [\<lparr>us_id = u, us_name = psUsername p, us_password = hash\<rparr>]"
    using ins by (auto simp: InsertUser_def sqlM_def split: list.splits bool.splits if_splits)
  have "find (named M (psUsername p)) (t_users (a_tables s')) = Some \<lparr>us_id = u, us_name = psUsername p, us_password = hash\<rparr>"
    using none unfolding rows by (subst find_skip) (auto simp: named_def filter_empty_conv)
  then show ?thesis using assms(2) cmp by (simp add: MysqlLogin_def thenM_def sql_query_def sqlM_def)
qed

end

section \<open>Libraries to apply the theorems to\<close>

definition enc_field :: "string \<Rightarrow> string" where
  "enc_field s = replicate (length s) CHR ''1'' @ CHR '':'' # s"

fun dec_fields :: "nat \<Rightarrow> string \<Rightarrow> string list option" where
  "dec_fields 0 s = Some []"
| "dec_fields (Suc n) s =
     (case SplitN2 CHR '':'' s of
        [l, r] \<Rightarrow> map_option ((#) (take (length l) r)) (dec_fields n (drop (length l) r))
      | _ \<Rightarrow> None)"

lemma dec_enc [simp]: "dec_fields (Suc n) (enc_field s @ r) = map_option ((#) s) (dec_fields n r)"
  using SplitN2_append [of "CHR '':''" "replicate (length s) CHR ''1''" "s @ r"] by (simp add: enc_field_def)

definition ref_sign :: "string \<Rightarrow> MyClaims \<Rightarrow> string" where
  "ref_sign key c = enc_field key @ enc_field (clUsername c) @ enc_field (clSessionID c) @ enc_field (clSubject c) @
     enc_field (clIssuer c) @ enc_field (case clExpiresAt c of None \<Rightarrow> [] | Some x \<Rightarrow> FormatInt x)"

definition ref_parse :: "string \<Rightarrow> string list \<Rightarrow> string \<Rightarrow> int \<Rightarrow> string \<Rightarrow> (string \<times> MyClaims) option" where
  "ref_parse key ms iss now tok =
     (case dec_fields 6 tok of
        Some [k, name, sid, sub, i, ex] \<Rightarrow>
          if k = key \<and> i = iss \<and> ''HS256'' \<in> set ms \<and> (case tonumber ex of None \<Rightarrow> True | Some x \<Rightarrow> now < x * second_ns)
          then Some (''HS256'', \<lparr>clUsername = name, clSessionID = sid, clSubject = sub, clIssuer = i,
                                 clIssuedAt = None, clExpiresAt = tonumber ex\<rparr>)
          else None
      | _ \<Rightarrow> None)"

definition ref_jwt :: jwt_lib where
  "ref_jwt = \<lparr>jwt_sign = \<lambda>key c. Inr (ref_sign key c), jwt_parse = ref_parse\<rparr>"

definition ref_bcrypt :: bcrypt_lib where
  "ref_bcrypt = \<lparr>bc_hash = \<lambda>salt pw. Some pw, bc_compare = (=)\<rparr>"

lemma ref_parse_sign:
  "dec_fields 6 (ref_sign key c) = Some [key, clUsername c, clSessionID c, clSubject c, clIssuer c,
     case clExpiresAt c of None \<Rightarrow> [] | Some x \<Rightarrow> FormatInt x]"
proof -
  have "ref_sign key c = enc_field key @ enc_field (clUsername c) @ enc_field (clSessionID c) @ enc_field (clSubject c) @
     enc_field (clIssuer c) @ enc_field (case clExpiresAt c of None \<Rightarrow> [] | Some x \<Rightarrow> FormatInt x) @ []" by (simp add: ref_sign_def)
  moreover have "(6::nat) = Suc (Suc (Suc (Suc (Suc (Suc 0)))))" by simp
  ultimately show ?thesis by (simp only: dec_enc dec_fields.simps(1) option.map)
qed

interpretation refjwt: jwt_library ref_jwt
proof
  fix key ms iss now tok alg c
  assume "jwt_parse ref_jwt key ms iss now tok = Some (alg, c)"
  then show "alg \<in> set ms \<and> clIssuer c = iss \<and> (\<forall>x. clExpiresAt c = Some x \<longrightarrow> now < x * second_ns)"
    by (auto simp: ref_jwt_def ref_parse_def split: option.splits list.splits if_splits)
next
  fix key c tok ms iss x now
  assume "jwt_sign ref_jwt key c = Inr tok" "''HS256'' \<in> set ms" "clIssuer c = iss" "clExpiresAt c = Some x" "now < x * second_ns"
  then show "\<exists>c'. jwt_parse ref_jwt key ms iss now tok = Some (''HS256'', c') \<and> clSubject c' = clSubject c \<and> clSessionID c' = clSessionID c"
    using ref_parse_sign [of key c] by (auto simp: ref_jwt_def ref_parse_def)
qed

interpretation refbcrypt: bcrypt_library ref_bcrypt
  by unfold_locales (auto simp: ref_bcrypt_def)

text \<open>A user, a configuration, a login and a request with its token.\<close>

definition demo_auth :: AuthConfig where
  "demo_auth = \<lparr>JwtExpire = 1, JwtSecret = ''secret''\<rparr>"

definition demo_users :: "keyspace app" where
  "demo_users = \<lparr>a_redis = \<lparr>srv = Map.empty, fates = []\<rparr>,
     a_tables = \<lparr>consumed = [], post_vote = [], t_posts = [], t_users = [\<lparr>us_id = 5, us_name = ''alice'', us_password = ''pw''\<rparr>],
       t_communities = []\<rparr>, a_sql = []\<rparr>"

definition demo_login :: "(err + User) \<times> keyspace app" where
  "demo_login = Login ref_call ref_mysql ref_bcrypt ref_jwt demo_auth 0 0 (Some [7, 2, 3])
     \<lparr>plUsername = ''alice'', plPassword = ''pw''\<rparr> demo_users"

definition demo_token :: string where
  "demo_token = ref_sign ''secret'' \<lparr>clUsername = ''alice'', clSessionID = ''BwID'', clSubject = FormatInt 5, clIssuer = ''convo'',
     clIssuedAt = Some 0, clExpiresAt = Some 3600\<rparr>"

lemma demo_session: "RawURLEncoding [7, 2, 3] = ''BwID''"
  by (simp add: base64url_char_def)

lemma demo_login_run:
  "fst demo_login = Inr \<lparr>uUserID = 5, uUsername = ''alice'', uPassword = ''pw'', uToken = demo_token\<rparr>"
  "session_of (srv (a_redis (snd demo_login))) 5 = Some ''BwID''"
  "fates (a_redis (snd demo_login)) = []"
  by (simp_all add: demo_login_def Login_def MysqlLogin_def thenM_def sql_query_def sqlM_def demo_users_def named_def ref_mysql_def
      ComparePassword_def ref_bcrypt_def demo_session Let_def liftE_def GenToken_def ref_jwt_def demo_auth_def demo_token_def
      expires_at_def ExpireDuration_def Hour_def second_ns_def wrap_int_def redisM_def SetSession_def exec_no_fault ref_call_def
      lift_reply_def session_of_def del: RawURLEncoding.simps)

definition demo_request :: gin_ctx where
  "demo_request = \<lparr>ctx_keys = Map.empty, ctx_header = \<lambda>_. ''Bearer '' @ demo_token, ctx_param = \<lambda>_. [], ctx_query = \<lambda>_. []\<rparr>"

lemma demo_header: "ctx_header demo_request k = ''Bearer '' @ demo_token"
  by (simp add: demo_request_def)

lemma demo_token_parses:
  "ParseToken ref_jwt demo_auth 1000 demo_token = Inr \<lparr>clUsername = ''alice'', clSessionID = ''BwID'', clSubject = FormatInt 5,
     clIssuer = ''convo'', clIssuedAt = None, clExpiresAt = Some 3600\<rparr>"
  by (simp add: ParseToken_def ref_jwt_def ref_parse_def demo_token_def demo_auth_def ref_parse_sign second_ns_def)

lemma demo_request_passes:
  "\<exists>c. fst (JWTAuthMiddleware ref_call ref_jwt demo_auth 1000 demo_request (a_redis (snd demo_login))) = (Next c :: unit middleware)"
proof -
  obtain res s' where v: "ValidateSession ref_call 5 ''BwID'' (a_redis (snd demo_login)) = (res, s')" by fastforce
  have "res = Inr True" using ref.ValidateSession_run(3) [OF v] demo_login_run(2,3) by simp
  then show ?thesis
    using v SplitN2_append [of "CHR '' ''" "''Bearer''" demo_token]
    by (simp add: JWTAuthMiddleware_def demo_request_def demo_token_parses ParseInt_FormatInt int_range_def)
qed

section \<open>What the middleware lets through\<close>

lemma JWTAuthMiddleware_outcome:
  assumes "redis_server call db nid" "jwt_library J" "JWTAuthMiddleware call J conf now c s = (r :: 'd middleware, s')"
  shows "db (srv s') = db (srv s) \<and>
    (case r of
       Next c' \<Rightarrow> (\<exists>token mc u.
         ctx_header c ''Authorization'' = ''Bearer '' @ token \<and> ParseToken J conf now token = Inr mc \<and>
         clIssuer mc = ''convo'' \<and> (\<forall>x. clExpiresAt mc = Some x \<longrightarrow> now < x * second_ns) \<and>
         ParseInt 64 (clSubject mc) = Inr u \<and> session_of (db (srv s)) u = Some (clSessionID mc) \<and>
         getCurrentUserID c' = Inr u \<and> getCurrentSessionID c' = Inr (clSessionID mc) \<and> ctx_header c' = ctx_header c)
     | Abort hs rsp \<Rightarrow> hs = [] \<and> Data rsp = None \<and> Code rsp \<in> {CodeNeedLogin, CodeValidToken, CodeAuthUnavailable})"
proof -
  let ?h = "ctx_header c ''Authorization''"
  define K :: "string \<Rightarrow> 'd middleware \<times> _" where "K token = (case ParseToken J conf now token of
      Inl _ \<Rightarrow> (Abort [] (ResponseError CodeValidToken), s)
    | Inr mc \<Rightarrow>
        (case ParseInt 64 (clSubject mc) of
          Inl _ \<Rightarrow> (Abort [] (ResponseError CodeValidToken), s)
        | Inr userID \<Rightarrow>
            if clSessionID mc = [] then (Abort [] (ResponseError CodeValidToken), s)
            else (case ValidateSession call userID (clSessionID mc) s of
              (Inl _, s') \<Rightarrow> (Abort [] (ResponseError CodeAuthUnavailable), s')
            | (Inr valid, s') \<Rightarrow>
                if \<not> valid then (Abort [] (ResponseError CodeValidToken), s')
                else (Next (ctx_set CtxtSessionIDKey (CtxString (clSessionID mc))
                             (ctx_set CtxtUserIDKey (CtxInt64 userID) c)), s'))))" for token
  have run: "(if ?h = [] then (Abort [] (ResponseError CodeNeedLogin), s)
      else case SplitN2 CHR '' '' ?h of
        [kind, token] \<Rightarrow> if kind \<noteq> ''Bearer'' then (Abort [] (ResponseError CodeValidToken), s) else K token
      | _ \<Rightarrow> (Abort [] (ResponseError CodeValidToken), s)) = (r, s')"
    using assms(3) by (simp only: JWTAuthMiddleware_def Let_def K_def)
  consider (refused) rsp where "r = Abort [] rsp" "s' = s" "Data rsp = None" "Code rsp \<in> {CodeNeedLogin, CodeValidToken}"
    | (bearer) token where "SplitN2 CHR '' '' ?h = [''Bearer'', token]" "K token = (r, s')"
    using run by (auto split: if_splits list.splits)
  then consider (refused) rsp where "r = Abort [] rsp" "s' = s" "Data rsp = None" "Code rsp \<in> {CodeNeedLogin, CodeValidToken}"
    | (checked) token mc u res where "SplitN2 CHR '' '' ?h = [''Bearer'', token]" "ParseToken J conf now token = Inr mc"
        "ParseInt 64 (clSubject mc) = Inr u" "clSessionID mc \<noteq> []" "ValidateSession call u (clSessionID mc) s = (res, s')"
        "r = (case res of Inl _ \<Rightarrow> Abort [] (ResponseError CodeAuthUnavailable)
          | Inr valid \<Rightarrow> if \<not> valid then Abort [] (ResponseError CodeValidToken)
              else Next (ctx_set CtxtSessionIDKey (CtxString (clSessionID mc)) (ctx_set CtxtUserIDKey (CtxInt64 u) c)))"
  proof cases
    case bearer
    show ?thesis
    proof (cases "ParseToken J conf now token")
      case (Inr mc)
      show ?thesis
      proof (cases "ParseInt 64 (clSubject mc)")
        case (Inr u)
        obtain res s2 where v: "ValidateSession call u (clSessionID mc) s = (res, s2)" by fastforce
        have k: "K token = (if clSessionID mc = [] then (Abort [] (ResponseError CodeValidToken), s)
            else (case res of Inl _ \<Rightarrow> Abort [] (ResponseError CodeAuthUnavailable)
              | Inr valid \<Rightarrow> if \<not> valid then Abort [] (ResponseError CodeValidToken)
                  else Next (ctx_set CtxtSessionIDKey (CtxString (clSessionID mc)) (ctx_set CtxtUserIDKey (CtxInt64 u) c)), s2))"
          using \<open>ParseToken J conf now token = Inr mc\<close> Inr v by (cases res) (simp_all add: K_def)
        show ?thesis
        proof (cases "clSessionID mc = []")
          case True
          with k bearer(2) show ?thesis by (intro that(1)) auto
        next
          case False
          from k [unfolded if_not_P [OF False]] bearer(2) v show ?thesis
            by (intro that(2) [OF bearer(1) \<open>ParseToken J conf now token = Inr mc\<close> Inr False]) simp_all
        qed
      qed (use bearer Inr that(1) in \<open>auto simp: K_def\<close>)
    qed (use bearer that(1) in \<open>auto simp: K_def\<close>)
  qed (rule that(1))
  then show ?thesis
  proof cases
    case refused
    then show ?thesis by auto
  next
    case checked
    note v = redis_server.ValidateSession_run [OF assms(1) checked(5)]
    show ?thesis
    proof (cases "res = Inr True")
      case True
      have "ctx_header (ctx_set k v (ctx_set k' v' c)) = ctx_header c" for k v k' v' by (simp add: ctx_set_def)
      with True checked(4,6) v SplitN2_Cons [OF checked(1)] checked(2,3) ParseToken_Inr [OF assms(2) checked(2)]
      show ?thesis by simp
    next
      case False
      then have "\<exists>code\<in>{CodeValidToken, CodeAuthUnavailable}. r = Abort [] (ResponseError code)"
        using checked(6) by (cases res) auto
      with v(1) show ?thesis by auto
    qed
  qed
qed

section \<open>The theorems\<close>

text \<open>
  C7: no request gets in without a live session. The middleware hands a request on only if it brings
  a token that the library accepts, issued by convo and not expired, whose session is at that
  moment the session of its user in Redis; the handler then sees this user and this session. In
  every other case, a failure of Redis included, the request is answered with an error and no data.
\<close>

theorem request_needs_live_session:
  assumes "redis_server call db nid" "jwt_library J" "JWTAuthMiddleware call J conf now c s = (r :: 'd middleware, s')"
  shows "db (srv s') = db (srv s) \<and>
    (case r of
       Next c' \<Rightarrow> (\<exists>token mc u.
         ctx_header c ''Authorization'' = ''Bearer '' @ token \<and> ParseToken J conf now token = Inr mc \<and>
         clIssuer mc = ''convo'' \<and> (\<forall>x. clExpiresAt mc = Some x \<longrightarrow> now < x * second_ns) \<and>
         ParseInt 64 (clSubject mc) = Inr u \<and> session_of (db (srv s)) u = Some (clSessionID mc) \<and>
         getCurrentUserID c' = Inr u \<and> getCurrentSessionID c' = Inr (clSessionID mc) \<and> ctx_header c' = ctx_header c)
     | Abort hs rsp \<Rightarrow> hs = [] \<and> Data rsp = None \<and> Code rsp \<in> {CodeNeedLogin, CodeValidToken, CodeAuthUnavailable})"
  by (rule JWTAuthMiddleware_outcome [OF assms])

theorem request_needs_live_session_witness:
  "\<exists>c s'. JWTAuthMiddleware ref_call ref_jwt demo_auth 1000 demo_request (a_redis (snd demo_login)) = (Next c :: unit middleware, s') \<and>
     srv s' = srv (a_redis (snd demo_login)) \<and> getCurrentUserID c = Inr 5"
proof -
  let ?s = "a_redis (snd demo_login)"
  let ?r = "JWTAuthMiddleware ref_call ref_jwt demo_auth 1000 demo_request ?s :: unit middleware \<times> keyspace conn"
  obtain c where c: "fst ?r = Next c" using demo_request_passes by blast
  have run: "JWTAuthMiddleware ref_call ref_jwt demo_auth 1000 demo_request ?s = (Next c :: unit middleware, snd ?r)"
    using c by (metis prod.collapse)
  from request_needs_live_session [OF ref.redis_server_axioms refjwt.jwt_library_axioms run]
  obtain token mc u where m: "srv (snd ?r) = srv ?s" "ctx_header demo_request ''Authorization'' = ''Bearer '' @ token"
    "ParseToken ref_jwt demo_auth 1000 token = Inr mc" "ParseInt 64 (clSubject mc) = Inr u" "getCurrentUserID c = Inr u"
    by auto
  have "token = demo_token" using m(2) by (simp add: demo_request_def)
  then have "mc = \<lparr>clUsername = ''alice'', clSessionID = ''BwID'', clSubject = FormatInt 5,
     clIssuer = ''convo'', clIssuedAt = None, clExpiresAt = Some 3600\<rparr>"
    using m(3) demo_token_parses by (metis sum.inject(2))
  then have "clSubject mc = FormatInt 5" by simp
  then have "u = 5" using m(4) by (simp add: ParseInt_FormatInt int_range_def)
  with run m(1,5) show ?thesis by blast
qed

text \<open>
  C18: the life of a session. A successful login has checked the password of the named user, makes
  the new session the only one of that user and touches no other user's. Its token is accepted for
  this user until it expires as long as that session is in Redis, and refused as soon as another
  login has replaced it or it was deleted; and a logout with this session, once answered with
  success, has deleted it, while one that comes after another login changes nothing.
\<close>

theorem login_session_lifecycle:
  assumes "redis_server call db nid" "jwt_library J"
    and "Login call M B J conf now later (Some bytes) p s = (Inr user, s1)"
    and "bytes \<noteq> []" "\<forall>b\<in>set bytes. b < 256" "int_range 64 (uUserID user)"
  defines "sid \<equiv> RawURLEncoding bytes" and "u \<equiv> uUserID user"
  shows "(\<exists>r\<in>set (t_users (a_tables s)). us_id r = u \<and> named M (plUsername p) r \<and> ComparePassword B (us_password r) (plPassword p)) \<and>
    a_tables s1 = a_tables s \<and> session_of (db (srv (a_redis s1))) u = Some sid \<and>
    (\<forall>v. v \<noteq> u \<longrightarrow> session_of (db (srv (a_redis s1))) v = session_of (db (srv (a_redis s))) v) \<and>
    (\<forall>now' c s2. now' < expires_at conf now * second_ns \<and> ctx_header c ''Authorization'' = ''Bearer '' @ uToken user \<longrightarrow>
       (if session_of (db (srv s2)) u = Some sid
        then fates s2 = [] \<longrightarrow> (\<exists>c'. fst (JWTAuthMiddleware call J conf now' c s2) = (Next c' :: 'd middleware) \<and>
               getCurrentUserID c' = Inr u \<and> getCurrentSessionID c' = Inr sid)
        else \<exists>rsp. fst (JWTAuthMiddleware call J conf now' c s2) = Abort [] (rsp :: 'd ResponseData))) \<and>
    (\<forall>c s2 s3 rsp. getCurrentUserID c = Inr u \<and> getCurrentSessionID c = Inr sid \<and>
       LogoutHandler call c s2 = (rsp :: 'd ResponseData, s3) \<longrightarrow>
       (Code rsp = CodeSuccess \<longrightarrow> session_of (db (srv s3)) u \<noteq> Some sid) \<and>
       (session_of (db (srv s2)) u \<noteq> Some sid \<longrightarrow> db (srv s3) = db (srv s2)))"
proof -
  have sid: "sid \<noteq> []" "plain_text sid"
    unfolding sid_def by (rule RawURLEncoding_ne [OF assms(4)], rule RawURLEncoding_plain [OF assms(5)])
  obtain r x c1 where r: "r \<in> set (t_users (a_tables s))" "named M (plUsername p) r" "ComparePassword B (us_password r) (plPassword p)"
    "u = us_id r" and tok: "GenToken J conf now u (us_name r) sid = Inr (uToken user, x)"
    and set: "SetSession call u sid (Until later (x * second_ns)) (a_redis s) = (Inr (), c1)"
    and s1: "a_redis s1 = c1" "a_tables s1 = a_tables s"
    using assms(3) by (rule Login_cases) (auto simp: u_def sid_def)
  have ks: "db (srv (a_redis s1)) = (db (srv (a_redis s)))(session_key (FormatInt u) \<mapsto> VStr sid)"
    using redis_server.SetSession_run [OF assms(1) set] s1(1) by simp
  have request: "if session_of (db (srv s2)) u = Some sid
        then fates s2 = [] \<longrightarrow> (\<exists>c'. fst (JWTAuthMiddleware call J conf now' c s2) = (Next c' :: 'd middleware) \<and>
               getCurrentUserID c' = Inr u \<and> getCurrentSessionID c' = Inr sid)
        else \<exists>rsp. fst (JWTAuthMiddleware call J conf now' c s2) = Abort [] (rsp :: 'd ResponseData)"
    if n: "now' < expires_at conf now * second_ns" and h: "ctx_header c ''Authorization'' = ''Bearer '' @ uToken user" for now' c s2
  proof -
    obtain mc where mc: "ParseToken J conf now' (uToken user) = Inr mc" "clSubject mc = FormatInt u" "clSessionID mc = sid"
      using GenToken_parses [OF assms(2) tok sid(2) n] by blast
    obtain res s3 where v: "ValidateSession call u sid s2 = (res, s3)" by fastforce
    have "SplitN2 CHR '' '' (''Bearer'' @ CHR '' '' # uToken user) = [''Bearer'', uToken user]"
      using SplitN2_append [of "CHR '' ''" "''Bearer''" "uToken user"] by simp
    then have m: "fst (JWTAuthMiddleware call J conf now' c s2) =
        (case res of Inl _ \<Rightarrow> (Abort [] (ResponseError CodeAuthUnavailable) :: 'd middleware)
          | Inr valid \<Rightarrow> if \<not> valid then Abort [] (ResponseError CodeValidToken)
              else Next (ctx_set CtxtSessionIDKey (CtxString sid) (ctx_set CtxtUserIDKey (CtxInt64 u) c)))"
      using h mc v sid(1) assms(6)
      by (simp add: JWTAuthMiddleware_def u_def ParseInt_FormatInt split: sum.splits)
    note run = redis_server.ValidateSession_run [OF assms(1) v]
    show ?thesis using m run(2) [of True] run(2) [of False] run(3) sid(1) by (cases res) auto
  qed
  have logout: "(Code rsp = CodeSuccess \<longrightarrow> session_of (db (srv s3)) u \<noteq> Some sid) \<and>
      (session_of (db (srv s2)) u \<noteq> Some sid \<longrightarrow> db (srv s3) = db (srv s2))"
    if l: "getCurrentUserID c = Inr u" "getCurrentSessionID c = Inr sid" "LogoutHandler call c s2 = (rsp :: 'd ResponseData, s3)"
    for c s2 s3 rsp
  proof -
    obtain res s4 where d: "DeleteSession call u sid s2 = (res, s4)" by fastforce
    have "s3 = s4" "Code rsp = CodeSuccess \<Longrightarrow> \<not> isl res"
      using l d by (auto simp: LogoutHandler_def Logout_def code_defs isl_def split: sum.splits)
    with redis_server.DeleteSession_run [OF assms(1) d] show ?thesis by (auto simp: session_of_def split: if_splits)
  qed
  show ?thesis
    by (intro conjI allI impI) (use r s1(2) ks request logout in \<open>auto simp del: if_split\<close>)
qed

theorem login_session_lifecycle_witness:
  "\<exists>c' :: gin_ctx. fst (JWTAuthMiddleware ref_call ref_jwt demo_auth 1000
      demo_request (a_redis (snd demo_login))) = (Next c' :: unit middleware) \<and> getCurrentUserID c' = Inr 5"
proof -
  let ?c = demo_request
  have run: "Login ref_call ref_mysql ref_bcrypt ref_jwt demo_auth 0 0 (Some [7, 2, 3]) \<lparr>plUsername = ''alice'', plPassword = ''pw''\<rparr> demo_users =
      (Inr \<lparr>uUserID = 5, uUsername = ''alice'', uPassword = ''pw'', uToken = demo_token\<rparr>, snd demo_login)"
    using demo_login_run(1) unfolding demo_login_def by (metis prod.collapse)
  have now: "(1000 :: int) < expires_at demo_auth 0 * second_ns"
    by (simp add: expires_at_def ExpireDuration_def demo_auth_def Hour_def second_ns_def wrap_int_def)
  have h: "([7, 2, 3] :: nat list) \<noteq> []" "\<forall>b\<in>set [7, 2, 3]. b < (256 :: nat)"
    "int_range 64 (uUserID \<lparr>uUserID = 5, uUsername = ''alice'', uPassword = ''pw'', uToken = demo_token\<rparr>)"
    by (simp_all add: int_range_def)
  note l = login_session_lifecycle [OF ref.redis_server_axioms refjwt.jwt_library_axioms run h, where ?'d = unit]
  have "if session_of (srv (a_redis (snd demo_login))) 5 = Some ''BwID''
        then fates (a_redis (snd demo_login)) = [] \<longrightarrow>
          (\<exists>c'. fst (JWTAuthMiddleware ref_call ref_jwt demo_auth 1000 ?c (a_redis (snd demo_login))) = (Next c' :: unit middleware) \<and>
             getCurrentUserID c' = Inr 5 \<and> getCurrentSessionID c' = Inr ''BwID'')
        else \<exists>rsp. fst (JWTAuthMiddleware ref_call ref_jwt demo_auth 1000 ?c (a_redis (snd demo_login))) = Abort [] (rsp :: unit ResponseData)"
    using conjunct1 [OF conjunct2 [OF conjunct2 [OF conjunct2 [OF conjunct2 [OF l]]]], rule_format, of 1000 ?c "a_redis (snd demo_login)"] now
    unfolding demo_session by (simp add: demo_header cong: if_cong)
  with demo_login_run(2,3) show ?thesis by auto
qed

end
