(* ===== verification/PostCache.thy ===== *)
theory PostCache
  imports PostsCorrect AuthCorrect
begin

text \<open>
  The cache of post pages in front of MySQL (\<open>logic/post.go\<close>, \<open>dao/redis/post_cache.go\<close>). The first half says what
  one run of the code reads and writes; the second half puts the readers, the editors and the deletions of the
  cache side by side, as steps that may come in any order, fail, and be cut off. The cache may show an old row
  (a reader that has fetched it stores it after the deletions, or the deletions fail); it never shows a row that
  MySQL has not held.
\<close>

section \<open>What is cached\<close>

text \<open>
  What is cached of a post, if it can be read at all, is what MySQL answers with one of the tables \<open>H pid\<close>;
  with only the tables of now, the cache is right.
\<close>

definition cached_from :: "cache_codec \<Rightarrow> (int \<Rightarrow> forum_tables set) \<Rightarrow> keyspace \<Rightarrow> bool" where
  "cached_from J H ks \<longleftrightarrow>
     (\<forall>pid s d. ks (postCacheKey pid) = Some (VStr s) \<longrightarrow> json_unmarshal J s = Some d \<longrightarrow>
        (\<exists>t\<in>H pid. map_option cached_detail (post_detail t pid) = Some d))"

definition cache_ok :: "cache_codec \<Rightarrow> forum_tables \<Rightarrow> keyspace \<Rightarrow> bool" where
  "cache_ok J t ks \<longleftrightarrow>
     (\<forall>pid s d. ks (postCacheKey pid) = Some (VStr s) \<longrightarrow> json_unmarshal J s = Some d \<longrightarrow>
        map_option cached_detail (post_detail t pid) = Some d)"

lemma cache_ok_cached_from: "cache_ok J t = cached_from J (\<lambda>_. {t})"
  by (simp add: fun_eq_iff cache_ok_def cached_from_def)

lemma postCacheKey_inj [simp]: "postCacheKey p = postCacheKey q \<longleftrightarrow> p = q"
  by (simp add: postCacheKey_def getRedisKey_inj)

text \<open>Entries may go at any time, and more tables may be allowed.\<close>

lemma cached_from_mono:
  assumes "cached_from J H ks" "\<And>pid. ks' (postCacheKey pid) = ks (postCacheKey pid) \<or> ks' (postCacheKey pid) = None"
    and "\<And>pid t d. t \<in> H pid \<Longrightarrow> post_detail t pid = Some d \<Longrightarrow> \<exists>t'\<in>H' pid. post_detail t' pid = Some d"
  shows "cached_from J H' ks'"
  unfolding cached_from_def
proof (intro allI impI)
  fix pid s d
  assume 1: "ks' (postCacheKey pid) = Some (VStr s)" "json_unmarshal J s = Some d"
  with assms(2) [of pid] have "ks (postCacheKey pid) = Some (VStr s)" by auto
  with assms(1) 1(2) obtain t x where "t \<in> H pid" "post_detail t pid = Some x" "cached_detail x = d"
    by (fastforce simp: cached_from_def)
  with assms(3) show "\<exists>t\<in>H' pid. map_option cached_detail (post_detail t pid) = Some d" by fastforce
qed

context json_cache
begin

lemma cached_from_set:
  assumes "cached_from J H ks" "t \<in> H pid" "post_detail t pid = Some d"
  shows "cached_from J H (ks(postCacheKey pid \<mapsto> VStr (json_marshal J (cached_detail d))))"
  using assms marshal_unmarshal by (force simp: cached_from_def)

end

lemma post_detail_votes: "post_detail t pid = Some d \<Longrightarrow> adVoteNum d = 0"
  by (auto simp: post_detail_def split: option.splits)

definition whole_detail :: "CachedPostDetail \<Rightarrow> ApiPostDetail" where
  "whole_detail d = \<lparr>adAuthorName = cdAuthorName d, adVoteNum = 0, adPost = cdPost d, adCommunity = cdCommunity d\<rparr>"

lemma whole_cached_detail: "post_detail t pid = Some x \<Longrightarrow> whole_detail (cached_detail x) = x"
  using post_detail_votes [of t pid x] by (simp add: whole_detail_def cached_detail_def)

lemma sql_query_outcome:
  assumes "sql_query f s = (res, s')"
  shows "a_tables s' = a_tables s \<and> a_redis s' = a_redis s \<and> (res = Inl SqlErr \<or> res = Inr (f (a_tables s)))"
  using assms by (auto simp: sql_query_run split: if_splits)

lemma read_detail:
  assumes "not_found (GetPostDetailByID pid) s = (res, s')"
  shows "a_tables s' = a_tables s \<and> a_redis s' = a_redis s \<and>
    (case res of Inr d \<Rightarrow> post_detail (a_tables s) pid = Some d | Inl e \<Rightarrow> errors_is e ErrPostNotFound \<longrightarrow> post_detail (a_tables s) pid = None)"
proof -
  obtain r s1 where r: "sql_query (\<lambda>t. post_detail t pid) s = (r, s1)" by fastforce
  from sql_query_outcome [OF r] r assms show ?thesis
    by (auto simp: not_found_def GetPostDetailByID_def thenM_def split: option.splits sum.splits if_splits)
qed

context redis_server
begin

lemma exec_pure:
  assumes "exec (call x) c = (res, c')" "db (snd (call x (srv c))) = db (srv c)"
  shows "db (srv c') = db (srv c)" "isl res \<or> res = lift_reply (fst (redis_doc (nid (srv c)) x (db (srv c))))"
  using exec_srv [OF assms(1)] assms(2) by (auto simp: call_reply)

lemma get_pure: "db (snd (call (GET k) r)) = db r"
  by (auto simp: call_db split: option.splits rvalue.splits)

lemma GetPostDetailCache_run:
  assumes "GetPostDetailCache call J pid c = (res, c')"
  shows "db (srv c') = db (srv c) \<and>
    (\<forall>d. res = Inr d \<longrightarrow> (\<exists>s. db (srv c) (postCacheKey pid) = Some (VStr s) \<and> json_unmarshal J s = Some d))"
proof -
  obtain r c1 where r: "exec (call (GET (postCacheKey pid))) c = (r, c1)" by fastforce
  note p = exec_pure [OF r get_pure]
  show ?thesis using assms r p
    by (auto simp: GetPostDetailCache_def thenM_def split: sum.splits reply.splits option.splits rvalue.splits)
qed

lemma SetPostDetailCache_run:
  assumes "SetPostDetailCache call J pid d ttl c = (res, c')"
  shows "db (srv c') = db (srv c) \<or> db (srv c') = (db (srv c))(postCacheKey pid \<mapsto> VStr (json_marshal J d))"
proof -
  obtain r c1 where r: "exec (call (SET (postCacheKey pid) (json_marshal J d) (set_ttl ttl))) c = (r, c1)" by fastforce
  have "c' = c1" using assms r by (auto simp: SetPostDetailCache_def thenM_def split: sum.splits)
  with exec_srv [OF r] show ?thesis by (auto simp: call_db)
qed

lemma EnsureVoteStateReadable_db:
  assumes "EnsureVoteStateReadable call c = (res, c')"
  shows "db (srv c') = db (srv c)"
proof -
  obtain r c1 where r: "exec (call (GET status_key)) c = (r, c1)" by fastforce
  have "c' = c1" using assms r
    by (auto simp: EnsureVoteStateReadable_def GetVoteStateStatus_def thenM_def split: sum.splits reply.splits if_splits)
  with exec_pure(1) [OF r get_pure] show ?thesis by simp
qed

lemma GetPostVoteCount_db:
  assumes "GetPostVoteCount call pid c = (res, c')"
  shows "db (srv c') = db (srv c)"
proof -
  have pure: "db (snd (call (ZSCORE k m) r)) = db r" "db (snd (call (ZCOUNT k a b) r)) = db r" for k m a b r
    by (simp_all add: call_db on_zset_def split: option.splits)
  obtain r1 c1 where 1: "EnsureVoteStateReadable call c = (r1, c1)" by fastforce
  obtain r2 c2 where 2: "exec (call (ZSCORE time_key (FormatInt pid))) c1 = (r2, c2)" by fastforce
  obtain r3 c3 where 3: "exec (call (ZCOUNT (voted_key (FormatInt pid)) 1 1)) c2 = (r3, c3)" by fastforce
  have "c' \<in> {c1, c2, c3}" using assms 1 2 3
    by (auto simp: GetPostVoteCount_def thenM_def Let_def split: sum.splits if_splits)
  with EnsureVoteStateReadable_db [OF 1] exec_pure(1) [OF 2 pure(1)] exec_pure(1) [OF 3 pure(2)] show ?thesis by auto
qed

text \<open>When MySQL answers, a post that exists is found, whatever Redis does.\<close>

lemma LogicGetPostById_returns:
  assumes "a_sql s = []" "post_detail (a_tables s) pid = Some d"
  shows "\<exists>x s'. LogicGetPostById call J conf pid s = (Inr x, s')"
proof -
  have mysql: "not_found (GetPostDetailByID pid) (s\<lparr>a_redis := c\<rparr>) = (Inr d, s\<lparr>a_redis := c\<rparr>)" for c
    using assms by (simp add: not_found_def GetPostDetailByID_def thenM_def sql_query_ok)
  obtain r c where r: "GetPostDetailCache call J pid (a_redis s) = (r, c)" by fastforce
  let ?ttl = "wrap_int 64 (PostDetailTTLSeconds conf * second_ns)"
  obtain w c2 where w: "SetPostDetailCache call J pid (cached_detail d) ?ttl c = (w, c2)" by fastforce
  have "\<exists>x c'. post_base call J conf pid s = (Inr x, s\<lparr>a_redis := c'\<rparr>)"
    using r w mysql [of c] by (cases r; cases w) (auto simp: post_base_def catchM_def redisM_def thenM_def)
  then obtain x c' where b: "post_base call J conf pid s = (Inr x, s\<lparr>a_redis := c'\<rparr>)" by blast
  obtain n c3 where n: "GetPostVoteCount call pid c' = (n, c3)" by fastforce
  show ?thesis using b n assms(1)
    by (cases n) (simp_all add: LogicGetPostById_def thenM_def catchM_def redisM_def sql_query_ok)
qed

end

section \<open>What an edit does\<close>

abbreviation edited :: "forum_tables \<Rightarrow> int \<Rightarrow> int \<Rightarrow> int \<Rightarrow> string \<Rightarrow> string \<Rightarrow> forum_tables" where
  "edited t now pid u title content \<equiv> t\<lparr>t_posts := map (edit_post now pid u title content) (t_posts t)\<rparr>"

lemma edit_post_sel [simp]:
  "po_id (edit_post now pid u title content p) = po_id p" "po_author (edit_post now pid u title content p) = po_author p"
  "po_community (edit_post now pid u title content p) = po_community p" "active (edit_post now pid u title content p) = active p"
  by (simp_all add: edit_post_def active_def)

lemma edit_post_own:
  assumes "po_id p = pid" "po_author p = u" "active p"
  shows "po_title (edit_post now pid u title content p) = title" "po_content (edit_post now pid u title content p) = content"
  using assms by (auto simp: edit_post_def)

lemma find_map_inv: "(\<And>x. P (f x) = P x) \<Longrightarrow> find P (map f xs) = map_option f (find P xs)"
  by (induction xs) auto

lemma find_edited:
  "find (\<lambda>p. po_id p = q \<and> active p) (t_posts (edited t now pid u title content)) =
     map_option (edit_post now pid u title content) (find (\<lambda>p. po_id p = q \<and> active p) (t_posts t))"
  by (simp add: find_map_inv)

lemma post_detail_edited:
  "post_detail (edited t now pid u title content) q =
     map_option (\<lambda>d. d\<lparr>adPost := edit_post now pid u title content (adPost d)\<rparr>) (post_detail t q)"
  unfolding post_detail_def find_edited by (simp split: option.splits)

lemma post_detail_edited_other: "q \<noteq> pid \<Longrightarrow> post_detail (edited t now pid u title content) q = post_detail t q"
proof -
  assume q: "q \<noteq> pid"
  have "edit_post now pid u title content (adPost d) = adPost d" if d: "post_detail t q = Some d" for d
  proof -
    have "po_id (adPost d) = q" using d by (auto simp: post_detail_def find_Some_iff split: option.splits)
    with q show ?thesis by (simp add: edit_post_def)
  qed
  then show ?thesis unfolding post_detail_edited by (cases "post_detail t q") simp_all
qed

lemma MysqlUpdatePost_cases:
  assumes "MysqlUpdatePost now pid u title content s = (res, s')"
  obtains (failed) "res = Inl SqlErr" "a_tables s' = a_tables s" "a_redis s' = a_redis s"
  | (updated) "res = Inr True" "a_redis s' = a_redis s" "a_tables s' = edited (a_tables s) now pid u title content"
      "\<exists>p\<in>set (t_posts (a_tables s)). po_id p = pid \<and> po_author p = u \<and> active p"
  | (same) "res = Inr False" "a_redis s' = a_redis s" "a_tables s' = edited (a_tables s) now pid u title content"
      "a_tables s' = a_tables s"
proof -
  consider (err) "res = Inl SqlErr" "a_tables s' = a_tables s" "a_redis s' = a_redis s"
    | (run) "res = Inr (\<exists>p\<in>set (t_posts (a_tables s)). po_id p = pid \<and> po_author p = u \<and> active p \<and>
          (po_title p \<noteq> title \<or> po_content p \<noteq> content))" "a_redis s' = a_redis s"
        "a_tables s' = edited (a_tables s) now pid u title content"
    using assms by (auto simp: MysqlUpdatePost_def sqlM_def split: list.splits bool.splits)
  then show thesis
  proof cases
    case run
    show thesis
    proof (cases "res = Inr False")
      case True
      then have "map (edit_post now pid u title content) (t_posts (a_tables s)) = t_posts (a_tables s)"
        using run(1) by (intro map_idI) (auto simp: edit_post_def)
      with True run show thesis by (intro same) simp_all
    next
      case False
      with run show thesis by (intro updated) auto
    qed
  qed (rule failed)
qed

lemma GetPostAuthorID_run:
  assumes "not_found (GetPostAuthorID pid) s = (res, s')"
  shows "a_tables s' = a_tables s \<and> a_redis s' = a_redis s \<and>
    (\<forall>u. res = Inr u \<longrightarrow> (\<exists>p\<in>set (t_posts (a_tables s)). po_id p = pid \<and> po_author p = u \<and> active p))"
proof -
  obtain r s1 where r: "sql_query (\<lambda>t. find (\<lambda>p. po_id p = pid \<and> active p) (t_posts t)) s = (r, s1)" by fastforce
  from sql_query_outcome [OF r] r assms show ?thesis
    by (auto simp: not_found_def GetPostAuthorID_def thenM_def find_Some_iff split: option.splits sum.splits if_splits)
qed

context redis_server
begin

lemma DeletePostDetailCache_run:
  assumes "DeletePostDetailCache call pid c = (res, c')"
  shows "db (srv c') = (db (srv c))(postCacheKey pid := None) \<or> isl res \<and> fates c \<noteq> [] \<and> db (srv c') = db (srv c)"
proof (cases "fates c = []")
  case True
  then have "db (srv c') = (db (srv c))(postCacheKey pid := None)"
    using assms by (auto simp: DeletePostDetailCache_def thenM_def exec_no_fault del_db fun_eq_iff split: sum.splits)
  then show ?thesis ..
next
  case False
  obtain r c1 where r: "exec (call (DEL [postCacheKey pid])) c = (r, c1)" by fastforce
  have "c' = c1" "isl res = isl r" using assms r by (auto simp: DeletePostDetailCache_def thenM_def split: sum.splits)
  with exec_srv [OF r] False show ?thesis by (auto simp: del_db)
qed

lemma LogicUpdatePost_run:
  assumes "LogicUpdatePost call now pid u title content s = (res, s')"
  shows "(isl res \<longrightarrow> a_tables s' = a_tables s \<and> a_redis s' = a_redis s) \<and>
    (\<not> isl res \<longrightarrow> a_tables s' = edited (a_tables s) now pid u title content \<and>
      (\<exists>p\<in>set (t_posts (a_tables s)). po_id p = pid \<and> po_author p = u \<and> active p) \<and>
      (a_tables s' = a_tables s \<and> a_redis s' = a_redis s \<or>
       db (srv (a_redis s')) = (db (srv (a_redis s)))(postCacheKey pid := None) \<or>
       fates (a_redis s) \<noteq> [] \<and> db (srv (a_redis s')) = db (srv (a_redis s))))"
proof -
  obtain r s1 where r: "MysqlUpdatePost now pid u title content s = (r, s1)" by fastforce
  from r show ?thesis
  proof (cases rule: MysqlUpdatePost_cases)
    case failed
    with assms r show ?thesis by (auto simp: LogicUpdatePost_def thenM_def)
  next
    case updated
    obtain w c where w: "DeletePostDetailCache call pid (a_redis s1) = (w, c)" by fastforce
    have "s' = s1\<lparr>a_redis := c\<rparr>" "res = Inr True"
      using assms r updated(1) w by (cases w; simp add: LogicUpdatePost_def thenM_def catchM_def redisM_def)+
    with updated DeletePostDetailCache_run [OF w] show ?thesis by auto
  next
    case same
    obtain w s2 where w: "not_found (GetPostAuthorID pid) s1 = (w, s2)" by fastforce
    note o = GetPostAuthorID_run [OF w]
    have "s' = s2" "\<not> isl res \<Longrightarrow> w = Inr u"
      using assms r same(1) w by (cases w; auto simp: LogicUpdatePost_def thenM_def split: if_splits)+
    with same o show ?thesis by auto
  qed
qed

end

section \<open>Readers, editors and deletions side by side\<close>

text \<open>
  A reader (logic.GetPostById) has looked into the cache and missed (and will store the row only if there was no
  entry), or holds the row that it will store, or has what it will show.
\<close>

datatype reader = Away | Missed int bool | Holds int ApiPostDetail | Shows int ApiPostDetail

text \<open>
  \<open>pg_past\<close> are all tables MySQL has had so far, those of now included; \<open>pg_due\<close> are the deletions that the
  editors (logic.UpdatePost) have still to send, the first and the delayed one of each edit.
\<close>

record 'r pages =
  pg_redis :: 'r
  pg_tables :: forum_tables
  pg_past :: "forum_tables set"
  pg_reader :: "string \<Rightarrow> reader"
  pg_due :: "int list"

text \<open>Each step is a call of the code, with any faults on its connections. What else Redis and MySQL do leaves the
  copies alone or drops them (expiry, eviction) and keeps the posts there are; any goroutine may end early.\<close>

inductive page_step :: "'r redis_call \<Rightarrow> cache_codec \<Rightarrow> ('r \<Rightarrow> keyspace) \<Rightarrow> 'r pages \<Rightarrow> 'r pages \<Rightarrow> bool"
  for call :: "'r redis_call" and J :: cache_codec and db :: "'r \<Rightarrow> keyspace" where
  look: "pg_reader s n = Away \<Longrightarrow> GetPostDetailCache call J pid \<lparr>srv = pg_redis s, fates = fl\<rparr> = (res, c) \<Longrightarrow>
    page_step call J db s (s\<lparr>pg_redis := srv c, pg_reader := (pg_reader s)(n :=
      (case res of Inr d \<Rightarrow> Shows pid (whole_detail d) | Inl e \<Rightarrow> Missed pid (e = RedisNil)))\<rparr>)"
| query: "pg_reader s n = Missed pid fill \<Longrightarrow> not_found (GetPostDetailByID pid) (a :: 'r app) = (Inr d, a') \<Longrightarrow> a_tables a = pg_tables s \<Longrightarrow>
    page_step call J db s (s\<lparr>pg_reader := (pg_reader s)(n := if fill then Holds pid d else Shows pid d)\<rparr>)"
| store: "pg_reader s n = Holds pid d \<Longrightarrow>
    SetPostDetailCache call J pid (cached_detail d) ttl \<lparr>srv = pg_redis s, fates = fl\<rparr> = (res, c) \<Longrightarrow>
    page_step call J db s (s\<lparr>pg_redis := srv c, pg_reader := (pg_reader s)(n := Shows pid d)\<rparr>)"
| leave: "page_step call J db s (s\<lparr>pg_reader := (pg_reader s)(n := Away)\<rparr>)"
| edit: "MysqlUpdatePost now pid u title content (a :: 'r app) = (Inr True, a') \<Longrightarrow> a_tables a = pg_tables s \<Longrightarrow>
    page_step call J db s (s\<lparr>pg_tables := a_tables a', pg_past := insert (a_tables a') (pg_past s), pg_due := pid # pid # pg_due s\<rparr>)"
| edit_unseen: "MysqlUpdatePost now pid u title content (a :: 'r app) = (res, a') \<Longrightarrow> a_tables a = pg_tables s \<Longrightarrow>
    page_step call J db s (s\<lparr>pg_tables := a_tables a', pg_past := insert (a_tables a') (pg_past s)\<rparr>)"
| delete: "pg_due s = xs @ pid # ys \<Longrightarrow> DeletePostDetailCache call pid \<lparr>srv = pg_redis s, fates = fl\<rparr> = (res, c) \<Longrightarrow>
    page_step call J db s (s\<lparr>pg_redis := srv c, pg_due := xs @ ys\<rparr>)"
| lost: "pg_due s = xs @ pid # ys \<Longrightarrow> page_step call J db s (s\<lparr>pg_due := xs @ ys\<rparr>)"
| others: "(\<And>q. db r (postCacheKey q) = db (pg_redis s) (postCacheKey q) \<or> db r (postCacheKey q) = None) \<Longrightarrow>
    (\<And>q d. post_detail (pg_tables s) q = Some d \<Longrightarrow> post_detail t q = Some d) \<Longrightarrow>
    page_step call J db s (s\<lparr>pg_redis := r, pg_tables := t, pg_past := insert t (pg_past s)\<rparr>)"

definition pages_start :: "cache_codec \<Rightarrow> ('r \<Rightarrow> keyspace) \<Rightarrow> 'r pages \<Rightarrow> bool" where
  "pages_start J db s \<longleftrightarrow> pg_past s = {pg_tables s} \<and> cache_ok J (pg_tables s) (db (pg_redis s)) \<and> pg_reader s = (\<lambda>_. Away)"

text \<open>A request begins: it sees the Redis and the tables of the moment, on connections of its own.\<close>

definition request_at :: "'r app \<Rightarrow> 'r pages \<Rightarrow> bool" where
  "request_at a s \<longleftrightarrow> srv (a_redis a) = pg_redis s \<and> a_tables a = pg_tables s"

text \<open>A step after which MySQL answers the same for a post.\<close>

definition step_beside :: "'r redis_call \<Rightarrow> cache_codec \<Rightarrow> ('r \<Rightarrow> keyspace) \<Rightarrow> int \<Rightarrow> 'r pages \<Rightarrow> 'r pages \<Rightarrow> bool" where
  "step_beside call J db pid s s' \<longleftrightarrow> page_step call J db s s' \<and> post_detail (pg_tables s') pid = post_detail (pg_tables s) pid"

text \<open>No reader is about to store a row of the post that is not the row of now.\<close>

definition no_old_row :: "int \<Rightarrow> 'r pages \<Rightarrow> bool" where
  "no_old_row pid s \<longleftrightarrow> (\<forall>n d. pg_reader s n = Holds pid d \<longrightarrow> post_detail (pg_tables s) pid = Some d)"

definition up_to_date :: "cache_codec \<Rightarrow> ('r \<Rightarrow> keyspace) \<Rightarrow> int \<Rightarrow> 'r pages \<Rightarrow> bool" where
  "up_to_date J db pid s \<longleftrightarrow> no_old_row pid s \<and>
     (\<forall>txt d. db (pg_redis s) (postCacheKey pid) = Some (VStr txt) \<longrightarrow> json_unmarshal J txt = Some d \<longrightarrow>
        map_option cached_detail (post_detail (pg_tables s) pid) = Some d)"

definition pages_inv :: "cache_codec \<Rightarrow> ('r \<Rightarrow> keyspace) \<Rightarrow> 'r pages \<Rightarrow> bool" where
  "pages_inv J db s \<longleftrightarrow> pg_tables s \<in> pg_past s \<and> cached_from J (\<lambda>_. pg_past s) (db (pg_redis s)) \<and>
     (\<forall>n pid d. pg_reader s n = Holds pid d \<or> pg_reader s n = Shows pid d \<longrightarrow> (\<exists>t\<in>pg_past s. post_detail t pid = Some d))"

lemma pages_inv_start: "pages_start J db s \<Longrightarrow> pages_inv J db s"
  by (simp add: pages_inv_def pages_start_def cache_ok_cached_from)

text \<open>How a step of one reader, or a step of the tables, keeps the invariant.\<close>

lemma pages_inv_reader:
  assumes "pages_inv J db s" "cached_from J (\<lambda>_. pg_past s) (db r)"
    and "\<And>pid d. pc = Holds pid d \<or> pc = Shows pid d \<Longrightarrow> \<exists>t\<in>pg_past s. post_detail t pid = Some d"
  shows "pages_inv J db (s\<lparr>pg_redis := r, pg_reader := (pg_reader s)(n := pc)\<rparr>)"
  using assms by (simp add: pages_inv_def)

lemma pages_inv_tables:
  assumes "pages_inv J db s" "cached_from J (\<lambda>_. pg_past s) (db r)"
  shows "pages_inv J db (s\<lparr>pg_redis := r, pg_tables := t, pg_past := insert t (pg_past s), pg_due := ds\<rparr>)"
proof -
  have "cached_from J (\<lambda>_. insert t (pg_past s)) (db r)" by (rule cached_from_mono [OF assms(2)]) auto
  then show ?thesis using assms(1) by (auto simp: pages_inv_def)
qed

locale page_cache = redis_server call db nid + json_cache J
  for call :: "'r redis_call" and db :: "'r \<Rightarrow> keyspace" and nid :: "'r \<Rightarrow> string \<Rightarrow> stream_id" and J :: cache_codec
begin

abbreviation step :: "'r pages \<Rightarrow> 'r pages \<Rightarrow> bool" where
  "step \<equiv> page_step call J db"

abbreviation beside :: "int \<Rightarrow> 'r pages \<Rightarrow> 'r pages \<Rightarrow> bool" where
  "beside \<equiv> step_beside call J db"

text \<open>What a read of the cache, and the store after it, do to the copies.\<close>

lemma set_cached_from:
  assumes "cached_from J H (db (srv c))" "t \<in> H pid" "post_detail t pid = Some d"
    and "SetPostDetailCache call J pid (cached_detail d) ttl c = (res, c')"
  shows "cached_from J H (db (srv c'))"
  using SetPostDetailCache_run [OF assms(4)] assms(1) cached_from_set [OF assms(1-3)] by auto

lemma del_cached_from:
  assumes "cached_from J H (db (srv c))" "DeletePostDetailCache call pid c = (res, c')"
  shows "cached_from J H (db (srv c'))"
  by (rule cached_from_mono [OF assms(1)]) (use DeletePostDetailCache_run [OF assms(2)] in \<open>auto split: if_splits\<close>)

lemma get_cached_from:
  assumes "cached_from J H (db (srv c))" "GetPostDetailCache call J pid c = (Inr d, c')"
  shows "\<exists>t\<in>H pid. post_detail t pid = Some (whole_detail d)"
proof -
  obtain t x where "t \<in> H pid" "post_detail t pid = Some x" "cached_detail x = d"
    using GetPostDetailCache_run [OF assms(2)] assms(1) by (fastforce simp: cached_from_def)
  then show ?thesis using whole_cached_detail [of t pid x] by auto
qed

lemma pages_inv_step:
  assumes "step s s'" "pages_inv J db s"
  shows "pages_inv J db s'"
  using assms(1)
proof cases
  case (look n pid fl res c)
  note get = GetPostDetailCache_run [OF look(3)]
  have copies: "cached_from J (\<lambda>_. pg_past s) (db (pg_redis s))" using assms(2) by (simp add: pages_inv_def)
  then have hit: "\<exists>t\<in>pg_past s. post_detail t pid = Some (whole_detail d)" if "res = Inr d" for d
    using get_cached_from [of "\<lambda>_. pg_past s" "\<lparr>srv = pg_redis s, fates = fl\<rparr>" pid d c] copies look(3) that by simp
  show ?thesis unfolding look(1)
    by (rule pages_inv_reader [OF assms(2)]) (use get copies hit in \<open>auto split: sum.splits\<close>)
next
  case (query n pid fill a d a')
  have "post_detail (pg_tables s) pid = Some d" using read_detail [OF query(3)] query(4) by simp
  moreover have "pg_tables s \<in> pg_past s" "cached_from J (\<lambda>_. pg_past s) (db (pg_redis s))" using assms(2) by (simp_all add: pages_inv_def)
  ultimately show ?thesis
    using pages_inv_reader [OF assms(2), of "pg_redis s" "if fill then Holds pid d else Shows pid d" n] query(1)
    by (auto split: if_splits)
next
  case (store n pid d ttl fl res c)
  obtain t where t: "t \<in> pg_past s" "post_detail t pid = Some d" using assms(2) store(2) by (fastforce simp: pages_inv_def)
  have "cached_from J (\<lambda>_. pg_past s) (db (srv \<lparr>srv = pg_redis s, fates = fl\<rparr>))" using assms(2) by (simp add: pages_inv_def)
  note set_cached_from [OF this t store(3)]
  then show ?thesis unfolding store(1) by (rule pages_inv_reader [OF assms(2)]) (use t in auto)
next
  case (leave n)
  then show ?thesis
    using pages_inv_reader [OF assms(2), of "pg_redis s" Away n] assms(2) by (simp add: pages_inv_def)
next
  case (edit now pid u title content a a')
  then show ?thesis
    using pages_inv_tables [OF assms(2), where r = "pg_redis s"] assms(2) by (simp add: pages_inv_def)
next
  case (edit_unseen now pid u title content a res a')
  then show ?thesis
    using pages_inv_tables [OF assms(2), where r = "pg_redis s" and ds = "pg_due s"] assms(2) by (simp add: pages_inv_def)
next
  case (delete xs pid ys fl res c)
  have "cached_from J (\<lambda>_. pg_past s) (db (srv \<lparr>srv = pg_redis s, fates = fl\<rparr>))" using assms(2) by (simp add: pages_inv_def)
  from del_cached_from [OF this delete(3)] show ?thesis using assms(2) delete(1) by (simp add: pages_inv_def)
next
  case (lost xs pid ys)
  with assms(2) show ?thesis by (simp add: pages_inv_def)
next
  case (others r t)
  have "cached_from J (\<lambda>_. pg_past s) (db (pg_redis s))" using assms(2) by (simp add: pages_inv_def)
  then have "cached_from J (\<lambda>_. pg_past s) (db r)" by (rule cached_from_mono) (use others(2) in auto)
  from pages_inv_tables [OF assms(2) this, where t = t and ds = "pg_due s"] show ?thesis by (simp add: others(1))
qed

lemma pages_inv_steps:
  assumes "step\<^sup>*\<^sup>* s s'" "pages_inv J db s"
  shows "pages_inv J db s'"
  using assms by (induction rule: rtranclp_induct) (auto intro: pages_inv_step)

text \<open>Once a post is up to date it stays so, until MySQL answers something else.\<close>

lemma up_to_date_step:
  assumes "beside pid s s'" "up_to_date J db pid s"
  shows "up_to_date J db pid s'"
proof -
  have same: "post_detail (pg_tables s') pid = post_detail (pg_tables s) pid" and "step s s'"
    using assms(1) by (simp_all add: step_beside_def)
  then have step: "step s s'" by simp
  note now = assms(2) [unfolded up_to_date_def no_old_row_def]
  from step show ?thesis
  proof cases
    case (look n q fl res c)
    with GetPostDetailCache_run [OF look(3)] now show ?thesis
      by (auto simp: up_to_date_def no_old_row_def split: sum.splits)
  next
    case (query n q fill a d a')
    have "post_detail (pg_tables s) q = Some d" using read_detail [OF query(3)] query(4) by simp
    with query now show ?thesis by (auto simp: up_to_date_def no_old_row_def)
  next
    case (store n q d ttl fl res c)
    have d: "q = pid \<Longrightarrow> post_detail (pg_tables s) pid = Some d" using store(2) now by blast
    from SetPostDetailCache_run [OF store(3)] consider "db (srv c) = db (pg_redis s)"
      | "db (srv c) = (db (pg_redis s))(postCacheKey q \<mapsto> VStr (json_marshal J (cached_detail d)))" by auto
    then show ?thesis unfolding store(1) up_to_date_def no_old_row_def
      using now d marshal_unmarshal [of "cached_detail d"] by cases auto
  next
    case (delete xs q ys fl res c)
    with DeletePostDetailCache_run [OF delete(3)] now show ?thesis
      by (auto simp: up_to_date_def no_old_row_def split: if_splits)
  next
    case (others r t)
    have "db r (postCacheKey pid) = db (pg_redis s) (postCacheKey pid) \<or> db r (postCacheKey pid) = None" by (rule others(2))
    with same others(1) now show ?thesis by (auto simp: up_to_date_def no_old_row_def)
  qed (use now same in \<open>auto simp: up_to_date_def no_old_row_def\<close>)
qed

lemma up_to_date_steps:
  assumes "(beside pid)\<^sup>*\<^sup>* s s'" "up_to_date J db pid s"
  shows "up_to_date J db pid s' \<and> post_detail (pg_tables s') pid = post_detail (pg_tables s) pid"
  using assms
proof (induction rule: rtranclp_induct)
  case (step y z)
  with up_to_date_step [OF step.hyps(2)] show ?case by (simp add: step_beside_def)
qed simp

lemma beside_steps: "(beside pid)\<^sup>*\<^sup>* s s' \<Longrightarrow> step\<^sup>*\<^sup>* s s' \<and> post_detail (pg_tables s') pid = post_detail (pg_tables s) pid"
  by (induction rule: rtranclp_induct) (auto simp: step_beside_def)

lemma empty_up_to_date: "db (pg_redis s) (postCacheKey pid) = None \<Longrightarrow> no_old_row pid s \<Longrightarrow> up_to_date J db pid s"
  by (simp add: up_to_date_def)

text \<open>The requests of the code take these steps. A command that only reads changes nothing but the connection.\<close>

lemma same_copies_step: "db r = db (pg_redis s) \<Longrightarrow> pg_tables s \<in> pg_past s \<Longrightarrow> step s (s\<lparr>pg_redis := r\<rparr>)"
  using page_step.others [of db r s "pg_tables s" call J] by (simp add: insert_absorb)

lemma post_base_steps:
  assumes "pages_inv J db s" "request_at a s" "pg_reader s n = Away" "post_base call J conf pid a = (res, a')"
  shows "\<exists>s'. step\<^sup>*\<^sup>* s s' \<and> request_at a' s' \<and> pg_tables s' = pg_tables s \<and> pg_past s' = pg_past s \<and>
    (case res of Inr d \<Rightarrow> pg_reader s' n = Shows pid d | Inl e \<Rightarrow> errors_is e ErrPostNotFound \<longrightarrow> post_detail (pg_tables s) pid = None)"
proof -
  obtain r c where r: "GetPostDetailCache call J pid (a_redis a) = (r, c)" by fastforce
  have a: "a_redis a = \<lparr>srv = pg_redis s, fates = fates (a_redis a)\<rparr>" "a_tables a = pg_tables s"
    using assms(2) by (simp_all add: request_at_def)
  let ?pc = "case r of Inr d \<Rightarrow> Shows pid (whole_detail d) | Inl e \<Rightarrow> Missed pid (e = RedisNil)"
  let ?s1 = "s\<lparr>pg_redis := srv c, pg_reader := (pg_reader s)(n := ?pc)\<rparr>"
  have 1: "step s ?s1" by (rule page_step.look [where fl = "fates (a_redis a)", OF assms(3)]) (simp only: a(1) [symmetric] r)
  let ?a1 = "a\<lparr>a_redis := c\<rparr>"
  obtain m a2 where m: "not_found (GetPostDetailByID pid) ?a1 = (m, a2)" by fastforce
  have mysql: "a_tables a2 = pg_tables s" "a_redis a2 = c"
    "case m of Inr d \<Rightarrow> True | Inl e \<Rightarrow> errors_is e ErrPostNotFound \<longrightarrow> post_detail (pg_tables s) pid = None"
    using read_detail [OF m] a(2) by (auto split: sum.splits)
  show ?thesis
  proof (cases r)
    case (Inr d)
    then have "res = Inr (whole_detail d)" "a' = ?a1"
      using assms(4) r by (simp_all add: post_base_def catchM_def redisM_def whole_detail_def)
    with 1 Inr a(2) show ?thesis by (intro exI [of _ ?s1]) (simp add: request_at_def)
  next
    case (Inl e)
    show ?thesis
    proof (cases m)
      case (Inl e')
      then have "res = Inl e'" "a' = a2"
        using assms(4) r m \<open>r = Inl e\<close> by (auto simp: post_base_def catchM_def redisM_def thenM_def split: if_splits)
      with 1 mysql Inl show ?thesis by (intro exI [of _ ?s1]) (simp add: request_at_def)
    next
      case (Inr d)
      let ?s2 = "?s1\<lparr>pg_reader := (pg_reader ?s1)(n := if e = RedisNil then Holds pid d else Shows pid d)\<rparr>"
      have 2: "step ?s1 ?s2" by (rule page_step.query [where a = ?a1 and a' = a2]) (use \<open>r = Inl e\<close> m Inr a(2) in simp_all)
      have 12: "step\<^sup>*\<^sup>* s ?s2" using 1 2 by (meson r_into_rtranclp rtranclp.rtrancl_into_rtrancl)
      show ?thesis
      proof (cases "e = RedisNil")
        case True
        let ?ttl = "wrap_int 64 (PostDetailTTLSeconds conf * second_ns)"
        obtain w c2 where w: "SetPostDetailCache call J pid (cached_detail d) ?ttl c = (w, c2)" by fastforce
        let ?s3 = "?s2\<lparr>pg_redis := srv c2, pg_reader := (pg_reader ?s2)(n := Shows pid d)\<rparr>"
        have c: "c = \<lparr>srv = pg_redis ?s2, fates = fates c\<rparr>" by simp
        have 3: "step ?s2 ?s3"
          by (rule page_step.store [where fl = "fates c" and ttl = ?ttl and res = w], simp add: True) (simp only: c [symmetric] w)
        have "res = Inr d" "a' = a2\<lparr>a_redis := c2\<rparr>"
          using assms(4) r m \<open>r = Inl e\<close> True Inr w mysql(2)
          by (cases w; simp add: post_base_def catchM_def redisM_def thenM_def)+
        with 12 3 mysql show ?thesis
          by (intro exI [of _ ?s3]) (simp add: request_at_def rtranclp.rtrancl_into_rtrancl)
      next
        case False
        then have "res = Inr d" "a' = a2"
          using assms(4) r m \<open>r = Inl e\<close> Inr by (simp_all add: post_base_def catchM_def redisM_def)
        with 12 mysql False show ?thesis by (intro exI [of _ ?s2]) (simp add: request_at_def)
      qed
    qed
  qed
qed

lemma LogicGetPostById_steps:
  assumes "pages_inv J db s" "request_at a s" "pg_reader s n = Away" "LogicGetPostById call J conf pid a = (res, a')"
  shows "\<exists>s'. step\<^sup>*\<^sup>* s s' \<and> request_at a' s' \<and> pg_tables s' = pg_tables s \<and> pg_past s' = pg_past s \<and>
    (case res of Inr d \<Rightarrow> pg_reader s' n = Shows pid (d\<lparr>adVoteNum := 0\<rparr>)
     | Inl e \<Rightarrow> errors_is e ErrPostNotFound \<longrightarrow> post_detail (pg_tables s) pid = None)"
proof -
  obtain r a1 where r: "post_base call J conf pid a = (r, a1)" by fastforce
  obtain s1 where s1: "step\<^sup>*\<^sup>* s s1" "request_at a1 s1" "pg_tables s1 = pg_tables s" "pg_past s1 = pg_past s"
    "case r of Inr d \<Rightarrow> pg_reader s1 n = Shows pid d | Inl e \<Rightarrow> errors_is e ErrPostNotFound \<longrightarrow> post_detail (pg_tables s) pid = None"
    using post_base_steps [OF assms(1-3) r] by blast
  show ?thesis
  proof (cases r)
    case (Inl e)
    with assms(4) r have "res = Inl e" "a' = a1" by (auto simp: LogicGetPostById_def thenM_def)
    with s1 Inl show ?thesis by (intro exI [of _ s1]) simp
  next
    case (Inr d)
    have inv: "pages_inv J db s1" by (rule pages_inv_steps [OF s1(1) assms(1)])
    moreover have "pg_reader s1 n = Shows pid d" using s1(5) Inr by simp
    ultimately obtain t where "post_detail t pid = Some d" unfolding pages_inv_def by blast
    from post_detail_votes [OF this] have votes: "d\<lparr>adVoteNum := 0\<rparr> = d" by simp
    obtain n' c where n: "GetPostVoteCount call pid (a_redis a1) = (n', c)" by fastforce
    obtain k a2 where k: "sql_query (CountPostUpVotes pid) (a1\<lparr>a_redis := c\<rparr>) = (k, a2)" by fastforce
    have last: "a_redis a' = c" "a_tables a' = a_tables a1" "(\<exists>v. res = Inr (d\<lparr>adVoteNum := v\<rparr>)) \<or> res = Inl SqlErr"
      using assms(4) r Inr n k sql_query_outcome [OF k]
      by (cases n'; cases k; auto simp: LogicGetPostById_def thenM_def catchM_def redisM_def)+
    let ?s2 = "s1\<lparr>pg_redis := srv c\<rparr>"
    have "step s1 ?s2"
      by (rule same_copies_step) (use GetPostVoteCount_db [OF n] s1(2) inv in \<open>simp_all add: request_at_def pages_inv_def\<close>)
    then have "step\<^sup>*\<^sup>* s ?s2" using s1(1) by (rule rtranclp.rtrancl_into_rtrancl [rotated])
    moreover have "case res of Inr d \<Rightarrow> pg_reader ?s2 n = Shows pid (d\<lparr>adVoteNum := 0\<rparr>)
     | Inl e \<Rightarrow> errors_is e ErrPostNotFound \<longrightarrow> post_detail (pg_tables s) pid = None"
      using last(3) s1(5) Inr votes by auto
    ultimately show ?thesis using s1 last(1,2) by (intro exI [of _ ?s2]) (simp add: request_at_def)
  qed
qed

lemma LogicUpdatePost_steps:
  assumes "pages_inv J db s" "request_at a s" "LogicUpdatePost call now pid u title content a = (res, a')"
  shows "\<exists>s'. step\<^sup>*\<^sup>* s s' \<and> request_at a' s' \<and> pg_reader s' = pg_reader s \<and>
    (a_tables a' \<noteq> a_tables a \<longrightarrow> pid \<in> set (pg_due s') \<and>
       (fates (a_redis a) = [] \<longrightarrow> db (pg_redis s') (postCacheKey pid) = None))"
proof -
  have a: "srv (a_redis a) = pg_redis s" "a_tables a = pg_tables s" using assms(2) by (simp_all add: request_at_def)
  obtain r a1 where r: "MysqlUpdatePost now pid u title content a = (r, a1)" by fastforce
  from r show ?thesis
  proof (cases rule: MysqlUpdatePost_cases)
    case failed
    with assms(3) r have "a' = a1" by (auto simp: LogicUpdatePost_def thenM_def)
    with failed a show ?thesis by (intro exI [of _ s]) (simp add: request_at_def)
  next
    case updated
    obtain w c where w: "DeletePostDetailCache call pid (a_redis a1) = (w, c)" by fastforce
    have a': "a' = a1\<lparr>a_redis := c\<rparr>"
      using assms(3) r updated(1) w by (cases w; simp add: LogicUpdatePost_def thenM_def catchM_def redisM_def)
    let ?s1 = "s\<lparr>pg_tables := a_tables a1, pg_past := insert (a_tables a1) (pg_past s), pg_due := pid # pid # pg_due s\<rparr>"
    let ?s2 = "?s1\<lparr>pg_redis := srv c, pg_due := [] @ (pid # pg_due s)\<rparr>"
    have 1: "step s ?s1" by (rule page_step.edit [OF _ a(2)]) (use r updated(1) in simp)
    have c: "\<lparr>srv = pg_redis ?s1, fates = fates (a_redis a)\<rparr> = a_redis a1" using updated(2) a(1) by simp
    have 2: "step ?s1 ?s2"
      by (rule page_step.delete [where pid = pid and fl = "fates (a_redis a)"]) (use w c in simp_all)
    have "step\<^sup>*\<^sup>* s ?s2" using 1 2 by (meson r_into_rtranclp rtranclp.rtrancl_into_rtrancl)
    moreover have "fates (a_redis a) = [] \<longrightarrow> db (srv c) (postCacheKey pid) = None"
      using DeletePostDetailCache_run [OF w] updated(2) by auto
    ultimately show ?thesis using a' by (intro exI [of _ ?s2]) (simp add: request_at_def)
  next
    case same
    obtain w a2 where w: "not_found (GetPostAuthorID pid) a1 = (w, a2)" by fastforce
    have "a' = a2" using assms(3) r same(1) w by (cases w; auto simp: LogicUpdatePost_def thenM_def split: if_splits)
    with same GetPostAuthorID_run [OF w] a show ?thesis by (intro exI [of _ s]) (simp add: request_at_def)
  qed
qed

text \<open>A page that begins when the post is up to date shows the row of now.\<close>

lemma LogicGetPostById_current:
  assumes "up_to_date J db pid s" "request_at a s" "LogicGetPostById call J conf pid a = (Inr d, a')"
  shows "post_detail (pg_tables s) pid = Some (d\<lparr>adVoteNum := 0\<rparr>)"
proof -
  obtain r c where r: "GetPostDetailCache call J pid (a_redis a) = (r, c)" by fastforce
  have a: "srv (a_redis a) = pg_redis s" "a_tables a = pg_tables s" using assms(2) by (simp_all add: request_at_def)
  obtain m a2 where m: "not_found (GetPostDetailByID pid) (a\<lparr>a_redis := c\<rparr>) = (m, a2)" by fastforce
  have mysql: "m = Inr x \<Longrightarrow> post_detail (pg_tables s) pid = Some x" for x using read_detail [OF m] a(2) by simp
  obtain b a3 where b: "post_base call J conf pid a = (Inr b, a3)" and v: "\<exists>v. d = b\<lparr>adVoteNum := v\<rparr>"
    using assms(3) by (cases "post_base call J conf pid a") (auto simp: LogicGetPostById_def thenM_def ret_def split: sum.splits prod.splits)
  have "post_detail (pg_tables s) pid = Some b"
  proof (cases r)
    case (Inl e)
    then have "m = Inr b"
      using b r m by (auto simp: post_base_def catchM_def redisM_def thenM_def split: if_splits sum.splits prod.splits)
    then show ?thesis by (rule mysql)
  next
    case (Inr x)
    then have "b = whole_detail x" using b r by (simp add: post_base_def catchM_def redisM_def whole_detail_def)
    moreover obtain y where "post_detail (pg_tables s) pid = Some y" "cached_detail y = x"
      using GetPostDetailCache_run [OF r] Inr a(1) assms(1) by (fastforce simp: up_to_date_def)
    ultimately show ?thesis using whole_cached_detail [of "pg_tables s" pid y] by auto
  qed
  with v post_detail_votes [OF this] show ?thesis by auto
qed

end

end
