(* ===== verification/PostEdit.thy ===== *)
theory PostEdit
  imports PostCache
begin

text \<open>
  Reading and editing one post: a page always shows a row that MySQL has held, whatever fails and whoever reads
  and edits beside it; only the author changes a post; and when the cache holds no copy and no reader an old row,
  the readers get the new text from then on.
\<close>

section \<open>A codec and a forum to apply the theorems to\<close>

lemma dec_fields_concat: "dec_fields (length fs) (concat (map enc_field fs)) = Some fs"
  by (induction fs) (simp_all del: dec_fields.simps(2))

definition ref_codec :: cache_codec where
  "ref_codec = \<lparr>
     json_marshal = \<lambda>d. concat (map enc_field (cdAuthorName d #
       [po_title (cdPost d), po_content (cdPost d), co_name (cdCommunity d), co_intro (cdCommunity d)] @
       map FormatInt [po_id (cdPost d), po_author (cdPost d), po_community (cdPost d), po_status (cdPost d),
         po_created (cdPost d), po_updated (cdPost d), co_id (cdCommunity d), co_created (cdCommunity d)])),
     json_unmarshal = \<lambda>s. map_option (\<lambda>fs. let n = \<lambda>i. the (tonumber (fs ! i)) in
       \<lparr>cdAuthorName = fs ! 0,
        cdPost = \<lparr>po_id = n 5, po_author = n 6, po_community = n 7, po_status = n 8, po_title = fs ! 1, po_content = fs ! 2,
          po_created = n 9, po_updated = n 10\<rparr>,
        cdCommunity = \<lparr>co_id = n 11, co_name = fs ! 3, co_intro = fs ! 4, co_created = n 12\<rparr>\<rparr>)
       (dec_fields 13 s)\<rparr>"

lemma dec_fields_concat13: "length fs = 13 \<Longrightarrow> dec_fields 13 (concat (map enc_field fs)) = Some fs"
  using dec_fields_concat [of fs] by simp

interpretation refcodec: json_cache ref_codec
proof
  fix d
  show "json_unmarshal ref_codec (json_marshal ref_codec d) = Some d"
    unfolding ref_codec_def cache_codec.select_convs by (subst dec_fields_concat13) (simp_all add: Let_def)
qed

lemma cache_ok_empty: "(\<And>pid. ks (postCacheKey pid) = None) \<Longrightarrow> cache_ok J t ks"
  by (simp add: cache_ok_def)

lemma demo_cache_ok: "cache_ok J t demo_board_ks"
  by (rule cache_ok_empty) (simp add: demo_board_ks_def postCacheKey_def key_defs getRedisKey_inj)

definition demo_ctx :: "int \<Rightarrow> gin_ctx" where
  "demo_ctx u = \<lparr>ctx_keys = [CtxtUserIDKey \<mapsto> CtxInt64 u], ctx_header = \<lambda>_. [], ctx_param = \<lambda>_. ''7'', ctx_query = \<lambda>_. []\<rparr>"

lemma demo_ctx_sel [simp]: "getCurrentUserID (demo_ctx u) = Inr u" "ctx_param (demo_ctx u) k = ''7''" "ParseInt 64 ''7'' = Inr 7"
proof -
  show "getCurrentUserID (demo_ctx u) = Inr u" "ctx_param (demo_ctx u) k = ''7''"
    by (simp_all add: demo_ctx_def getCurrentUserID_def)
  have "ParseInt 64 (FormatInt 7) = Inr 7" by (rule ParseInt_FormatInt) (simp_all add: int_range_def)
  then show "ParseInt 64 ''7'' = Inr 7" by (simp add: demo_FormatInt)
qed

lemma demo_authors [simp]: "po_author demo_post = 2" "po_author demo_post8 = 3"
  by (simp_all add: demo_post_def demo_post8_def)

text \<open>The author of post 7 edits it, and the page is read again.\<close>

definition demo_cache_config :: CacheConfig where
  "demo_cache_config = \<lparr>PostDetailTTLSeconds = 60, DelayedDeleteMilliseconds = 500\<rparr>"



lemma demo_detail: "post_detail (a_tables demo_board) 7 = Some \<lparr>adAuthorName = ''bob'', adVoteNum = 0, adPost = demo_post,
    adCommunity = \<lparr>co_id = 1, co_name = ''go'', co_intro = [], co_created = 0\<rparr>\<rparr>"
  by (simp add: post_detail_def demo_board_def)


text \<open>A copy of post 7 is in the cache when its author edits it; nothing has been deleted yet.\<close>

definition demo_copy :: keyspace where
  "demo_copy = demo_board_ks(postCacheKey 7 \<mapsto> VStr (json_marshal ref_codec (cached_detail (the (post_detail (a_tables demo_board) 7)))))"

definition demo_pages :: "keyspace \<Rightarrow> keyspace pages" where
  "demo_pages ks = \<lparr>pg_redis = ks, pg_tables = a_tables demo_board, pg_past = {a_tables demo_board}, pg_reader = (\<lambda>_. Away), pg_due = []\<rparr>"

definition demo_pages_edited :: "keyspace pages" where
  "demo_pages_edited = (let t = edited (a_tables demo_board) 5000 7 2 ''new'' ''text'' in
     (demo_pages demo_copy)\<lparr>pg_tables := t, pg_past := insert t (pg_past (demo_pages demo_copy)), pg_due := [7, 7]\<rparr>)"

definition demo_stale :: "keyspace app" where
  "demo_stale = demo_board\<lparr>a_redis := \<lparr>srv = demo_copy, fates = []\<rparr>, a_tables := edited (a_tables demo_board) 5000 7 2 ''new'' ''text''\<rparr>"

lemma demo_pages_start: "pages_start ref_codec (\<lambda>ks. ks) (demo_pages demo_copy)" "pages_start ref_codec (\<lambda>ks. ks) (demo_pages demo_board_ks)"
proof -
  have "cache_ok ref_codec (a_tables demo_board) demo_copy"
    unfolding demo_copy_def cache_ok_cached_from
    by (rule refcodec.cached_from_set [OF demo_cache_ok [unfolded cache_ok_cached_from], where t = "a_tables demo_board"])
       (simp_all add: demo_detail)
  then show "pages_start ref_codec (\<lambda>ks. ks) (demo_pages demo_copy)" by (simp add: pages_start_def demo_pages_def)
  show "pages_start ref_codec (\<lambda>ks. ks) (demo_pages demo_board_ks)" by (simp add: pages_start_def demo_pages_def demo_cache_ok)
qed

lemma demo_pages_step: "(page_step ref_call ref_codec (\<lambda>ks. ks))\<^sup>*\<^sup>* (demo_pages demo_copy) demo_pages_edited"
proof -
  have "MysqlUpdatePost 5000 7 2 ''new'' ''text'' demo_board =
      (Inr True, demo_board\<lparr>a_tables := edited (a_tables demo_board) 5000 7 2 ''new'' ''text'', a_sql := []\<rparr>)"
    by (simp add: MysqlUpdatePost_def sqlM_def) (simp add: demo_post_def active_def)
  from page_step.edit [OF this, of "demo_pages demo_copy" ref_call ref_codec "\<lambda>ks. ks"]
  have "page_step ref_call ref_codec (\<lambda>ks. ks) (demo_pages demo_copy) demo_pages_edited"
    by (simp add: demo_pages_edited_def demo_pages_def Let_def)
  then show ?thesis by (rule r_into_rtranclp)
qed

text \<open>This reader gets the old text after the edit: the cache is not strictly consistent, as the README says.\<close>

lemma stale_page:
  "\<exists>d a'. LogicGetPostById ref_call ref_codec demo_cache_config 7 demo_stale = (Inr d, a') \<and> po_title (adPost d) = po_title demo_post"
proof -
  let ?d = "the (post_detail (a_tables demo_board) 7)"
  have get: "GetPostDetailCache ref_call ref_codec 7 (a_redis demo_stale) = (Inr (cached_detail ?d), a_redis demo_stale)"
    by (simp add: GetPostDetailCache_def thenM_def exec_no_fault demo_stale_def ref_call_def demo_copy_def refcodec.marshal_unmarshal)
  have base: "post_base ref_call ref_codec demo_cache_config 7 demo_stale = (Inr (whole_detail (cached_detail ?d)), demo_stale)"
    using get by (simp add: post_base_def catchM_def redisM_def whole_detail_def)
  obtain n c where n: "GetPostVoteCount ref_call 7 (a_redis demo_stale) = (n, c)" by fastforce
  have "a_sql demo_stale = []" by (simp add: demo_stale_def)
  with base n have "\<exists>v a'. LogicGetPostById ref_call ref_codec demo_cache_config 7 demo_stale =
      (Inr (whole_detail (cached_detail ?d)\<lparr>adVoteNum := v\<rparr>), a')"
    by (cases n) (auto simp: LogicGetPostById_def thenM_def catchM_def redisM_def sql_query_ok)
  then show ?thesis by (auto simp: demo_detail whole_detail_def cached_detail_def)
qed

text \<open>
  \<open>buildPostDetails\<close> takes the votes of the i-th row from the i-th identifier. When MySQL has no row for an identifier of the
  page, the rows after it show the votes of other posts: here post 7, which has one up-vote, shows those of post 8.
\<close>

definition demo_orphan :: "keyspace app" where
  "demo_orphan = demo_board\<lparr>a_tables := (a_tables demo_board)\<lparr>t_posts := [demo_post]\<rparr>\<rparr>"

lemma missing_row_shifts_votes:
  "\<exists>d s'. buildPostDetails ref_call [demo_post] [''8'', ''7''] demo_orphan = (Inr [d], s') \<and>
     posts_by_ids ref_mysql [''8'', ''7''] (a_tables demo_orphan) = [demo_post] \<and>
     adPost d = demo_post \<and> adVoteNum d = up_votes demo_board_ks ''8'' \<and> adVoteNum d \<noteq> up_votes demo_board_ks ''7''"
proof -
  have none: "up_votes demo_board_ks ''8'' = 0" by (simp add: up_votes_def direction_of_def zscore_def)
  obtain c where c: "GetPostVoteData ref_call [''8'', ''7''] (a_redis demo_orphan) =
      (Inr (map (up_votes demo_board_ks) [''8'', ''7'']), c)"
    using ref.GetPostVoteData_run [of "a_redis demo_orphan" "[''8'', ''7'']"] demo_board_wf by (auto simp: demo_orphan_def)
  let ?s1 = "demo_orphan\<lparr>a_redis := c\<rparr>"
  have sql: "a_sql ?s1 = []" "a_tables ?s1 = (a_tables demo_board)\<lparr>t_posts := [demo_post]\<rparr>" by (simp_all add: demo_orphan_def)
  have "GetUsersByIDs [2] ?s1 = (Inr [\<lparr>us_id = 2, us_name = ''bob'', us_password = []\<rparr>], ?s1)"
    using sql by (simp add: GetUsersByIDs_def Let_def thenM_def sql_query_ok)
  moreover have "GetCommunityDetailsByIDs [1] ?s1 = (Inr [\<lparr>co_id = 1, co_name = ''go'', co_intro = [], co_created = 0\<rparr>], ?s1)"
    using sql by (simp add: GetCommunityDetailsByIDs_def sql_query_ok) (simp add: demo_board_def)
  ultimately have "\<exists>d s'. buildPostDetails ref_call [demo_post] [''8'', ''7''] demo_orphan = (Inr [d], s') \<and> adPost d = demo_post \<and>
      adVoteNum d = up_votes demo_board_ks ''8''"
    using c by (simp add: buildPostDetails_def thenM_def redisM_def)
  moreover have "posts_by_ids ref_mysql [''8'', ''7''] (a_tables demo_orphan) = [demo_post]"
    using demo_ctx_sel(3) by (simp add: posts_by_ids_def demo_orphan_def ref_mysql_def)
  ultimately show ?thesis using none demo_up_votes by (auto split: sum.splits)
qed

section \<open>The theorems\<close>

text \<open>
  C16: a detail page never shows anything but a row that MySQL has held. Readers, edits, deletions and other
  requests take their steps in any order, with any faults, and may end early; in any state they reach, what a reader
  is about to show is MySQL's answer for the post, from the tables of one moment since the start. So is the
  answer of a request for the page that begins there (the number of votes aside): its post, author and community, and
  those of now if the copies are up to date; an answer that there is no such post is true; and when MySQL answers, a
  post that exists is shown, whatever Redis does. The request takes only such steps, and changes no row.
\<close>

theorem post_detail_read:
  assumes "redis_server call db nid" "json_cache J" "pages_start J db s0" "(page_step call J db)\<^sup>*\<^sup>* s0 s"
    and "pg_reader s n = Away" "request_at a s" "GetPostDetailHandler call J conf c a = (rsp, a')"
  shows "(\<forall>k pid d. pg_reader s k = Shows pid d \<longrightarrow> (\<exists>t\<in>pg_past s. post_detail t pid = Some d)) \<and>
    (case Data rsp of
       Some d \<Rightarrow> \<exists>pid. ParseInt 64 (ctx_param c ''id'') = Inr pid \<and> (\<exists>t\<in>pg_past s. post_detail t pid = Some (d\<lparr>adVoteNum := 0\<rparr>)) \<and>
         (up_to_date J db pid s \<longrightarrow> post_detail (pg_tables s) pid = Some (d\<lparr>adVoteNum := 0\<rparr>))
     | None \<Rightarrow> Code rsp = CodePostNotFound \<longrightarrow>
         (\<exists>pid. ParseInt 64 (ctx_param c ''id'') = Inr pid \<and> post_detail (pg_tables s) pid = None)) \<and>
    (\<forall>pid. ParseInt 64 (ctx_param c ''id'') = Inr pid \<and> 0 < pid \<and> a_sql a = [] \<and> post_detail (pg_tables s) pid \<noteq> None \<longrightarrow> Data rsp \<noteq> None) \<and>
    a_tables a' = pg_tables s \<and> (\<exists>s'. (page_step call J db)\<^sup>*\<^sup>* s s' \<and> request_at a' s')"
proof -
  have pc: "page_cache call db nid J" by (intro page_cache.intro assms(1,2))
  have inv: "pages_inv J db s" by (rule page_cache.pages_inv_steps [OF pc assms(4) pages_inv_start [OF assms(3)]])
  then have shows_past: "\<forall>k pid d. pg_reader s k = Shows pid d \<longrightarrow> (\<exists>t\<in>pg_past s. post_detail t pid = Some d)"
    unfolding pages_inv_def by blast
  have at: "a_tables a = pg_tables s" using assms(6) by (simp add: request_at_def)
  consider (refused) "rsp = ResponseError CodeInvalidParam" "a' = a" "\<forall>pid. ParseInt 64 (ctx_param c ''id'') = Inr pid \<longrightarrow> pid \<le> 0"
    | (read) pid res where "ParseInt 64 (ctx_param c ''id'') = Inr pid" "LogicGetPostById call J conf pid a = (res, a')"
        "rsp = (case res of Inl err \<Rightarrow> if errors_is err ErrPostNotFound then ResponseError CodePostNotFound else ResponseError CodeServerBusy
          | Inr data \<Rightarrow> ResponseSuccess (Some data))"
    using assms(7) by (auto simp: GetPostDetailHandler_def split: sum.splits if_splits prod.splits)
  then show ?thesis
  proof cases
    case refused
    with at assms(6) shows_past show ?thesis by (auto simp: code_defs)
  next
    case read
    obtain s' where s': "(page_step call J db)\<^sup>*\<^sup>* s s'" "request_at a' s'" "pg_tables s' = pg_tables s" "pg_past s' = pg_past s"
      "case res of Inr d \<Rightarrow> pg_reader s' n = Shows pid (d\<lparr>adVoteNum := 0\<rparr>)
       | Inl e \<Rightarrow> errors_is e ErrPostNotFound \<longrightarrow> post_detail (pg_tables s) pid = None"
      using page_cache.LogicGetPostById_steps [OF pc inv assms(6,5) read(2)] by blast
    have "pages_inv J db s'" by (rule page_cache.pages_inv_steps [OF pc s'(1) inv])
    then have shown: "\<exists>t\<in>pg_past s. post_detail t pid = Some (d\<lparr>adVoteNum := 0\<rparr>)" if "res = Inr d" for d
      using s'(4,5) that unfolding pages_inv_def by fastforce
    have now: "post_detail (pg_tables s) pid = Some (d\<lparr>adVoteNum := 0\<rparr>)" if "res = Inr d" "up_to_date J db pid s" for d
      using page_cache.LogicGetPostById_current [OF pc that(2) assms(6)] read(2) that(1) by simp
    have found: "\<not> isl res" if "a_sql a = []" "post_detail (pg_tables s) pid \<noteq> None"
    proof -
      from that(2) obtain y where "post_detail (a_tables a) pid = Some y" using at by auto
      from redis_server.LogicGetPostById_returns [OF assms(1) that(1) this, of J conf] read(2) show ?thesis by auto
    qed
    have same: "a_tables a' = pg_tables s" "\<exists>s'. (page_step call J db)\<^sup>*\<^sup>* s s' \<and> request_at a' s'"
      using s' by (auto simp: request_at_def)
    show ?thesis
    proof (cases res)
      case (Inl e)
      with read(1,3) s'(5) found same shows_past show ?thesis
        by (cases "post_detail (pg_tables s) pid") (auto simp: code_defs)
    next
      case (Inr d)
      with read(1,3) shown [OF Inr] now [OF Inr] same shows_past show ?thesis by (simp add: code_defs)
    qed
  qed
qed

text \<open>A copy of post 7 is in the cache, its author has edited it, and the page is asked for.\<close>

theorem post_detail_read_witness:
  "\<exists>rsp a'. GetPostDetailHandler ref_call ref_codec demo_cache_config (demo_ctx 2) demo_stale = (rsp, a') \<and>
     (\<exists>d. Data rsp = Some d \<and> po_title (adPost d) \<in> {po_title demo_post, ''new''})"
proof -
  obtain rsp a' where run: "GetPostDetailHandler ref_call ref_codec demo_cache_config (demo_ctx 2) demo_stale = (rsp, a')" by fastforce
  have "request_at demo_stale demo_pages_edited" "pg_reader demo_pages_edited ''r'' = Away"
    by (simp_all add: request_at_def demo_stale_def demo_pages_edited_def demo_pages_def Let_def)
  note t = post_detail_read [OF ref.redis_server_axioms refcodec.json_cache_axioms demo_pages_start(1) demo_pages_step this(2,1) run]
  have "pg_tables demo_pages_edited = edited (a_tables demo_board) 5000 7 2 ''new'' ''text''" "a_sql demo_stale = []"
    by (simp_all add: demo_pages_edited_def demo_pages_def demo_stale_def Let_def)
  moreover from this(1) have "post_detail (pg_tables demo_pages_edited) 7 \<noteq> None" by (simp only: post_detail_edited demo_detail option.map) simp
  ultimately have "post_detail (pg_tables demo_pages_edited) 7 \<noteq> None" "a_sql demo_stale = []" by simp_all
  with t obtain d x where d: "Data rsp = Some d" "x \<in> pg_past demo_pages_edited" "post_detail x 7 = Some (d\<lparr>adVoteNum := 0\<rparr>)"
    by (auto split: option.splits)
  from d(2) consider "x = a_tables demo_board" | "x = edited (a_tables demo_board) 5000 7 2 ''new'' ''text''"
    by (auto simp: demo_pages_edited_def demo_pages_def Let_def)
  then have "po_title (adPost d) \<in> {po_title demo_post, ''new''}"
  proof cases
    case 1
    with d(3) demo_detail show ?thesis by (auto dest: arg_cong [of _ _ "\<lambda>z. po_title (adPost z)"])
  next
    case 2
    from d(3) have "adPost d = edit_post 5000 7 2 ''new'' ''text'' demo_post"
      unfolding 2 post_detail_edited demo_detail by (auto dest: arg_cong [of _ _ adPost])
    moreover have "po_title (edit_post 5000 7 2 ''new'' ''text'' demo_post) = ''new''"
      by (rule edit_post_own) (simp_all add: demo_post_def active_def)
    ultimately show ?thesis by simp
  qed
  with run d(1) show ?thesis by blast
qed

text \<open>
  C17: only the author changes a post. Whatever fails, a request to edit leaves all tables as they are,
  or has rewritten title and content of the one active post its path names, which belongs to the user of the
  request; it is answered with success only if that post exists, and then the row holds the new text.
\<close>

theorem only_author_edits:
  assumes "redis_server call db nid" "UpdatePostHandler call now c body s = (rsp :: 'd ResponseData, s')"
  shows "(Code rsp \<noteq> CodeSuccess \<longrightarrow> a_tables s' = a_tables s) \<and>
    (Code rsp = CodeSuccess \<longrightarrow>
      (\<exists>pid u params. ParseInt 64 (ctx_param c ''id'') = Inr pid \<and> getCurrentUserID c = Inr u \<and> body = BindOk params \<and>
        a_tables s' = (a_tables s)\<lparr>t_posts := map (edit_post now pid u (upTitle params) (upContent params)) (t_posts (a_tables s))\<rparr> \<and>
        (\<forall>p\<in>set (t_posts (a_tables s)). po_author p \<noteq> u \<or> po_id p \<noteq> pid \<longrightarrow> p \<in> set (t_posts (a_tables s'))) \<and>
        (\<exists>p\<in>set (t_posts (a_tables s')). po_id p = pid \<and> po_author p = u \<and> active p \<and>
           po_title p = upTitle params \<and> po_content p = upContent params)))"
proof -
  note server = assms(1)
  consider (refused) "Code rsp \<noteq> CodeSuccess" "s' = s"
    | (edit) pid u params res where "ParseInt 64 (ctx_param c ''id'') = Inr pid" "getCurrentUserID c = Inr u" "body = BindOk params"
        "LogicUpdatePost call now pid u (upTitle params) (upContent params) s = (res, s')" "Code rsp = CodeSuccess \<longleftrightarrow> \<not> isl res"
    using assms(2)
    by (auto simp: UpdatePostHandler_def code_defs split: sum.splits if_splits prod.splits bind.splits)
  then show ?thesis
  proof cases
    case refused
    then show ?thesis by simp
  next
    case edit
    let ?f = "edit_post now pid u (upTitle params) (upContent params)"
    note run = redis_server.LogicUpdatePost_run [OF server edit(4)]
    show ?thesis
    proof (cases "isl res")
      case True
      with run edit(5) show ?thesis by simp
    next
      case False
      then have t: "a_tables s' = (a_tables s)\<lparr>t_posts := map ?f (t_posts (a_tables s))\<rparr>" using run by blast
      obtain p where p: "p \<in> set (t_posts (a_tables s))" "po_id p = pid" "po_author p = u" "active p" using run False by blast
      have own: "\<exists>p\<in>set (t_posts (a_tables s')). po_id p = pid \<and> po_author p = u \<and> active p \<and>
          po_title p = upTitle params \<and> po_content p = upContent params"
        using p edit_post_own [OF p(2-4)] by (intro bexI [of _ "?f p"]) (simp_all add: t)
      have others: "\<forall>q\<in>set (t_posts (a_tables s)). po_author q \<noteq> u \<or> po_id q \<noteq> pid \<longrightarrow> q \<in> set (t_posts (a_tables s'))"
      proof (intro ballI impI)
        fix q assume q: "q \<in> set (t_posts (a_tables s))" "po_author q \<noteq> u \<or> po_id q \<noteq> pid"
        then have "?f q = q" by (auto simp: edit_post_def)
        with q(1) show "q \<in> set (t_posts (a_tables s'))" by (simp add: t image_iff) (metis)
      qed
      have "Code rsp = CodeSuccess" using edit(5) False by simp
      with edit(1-3) t others own show ?thesis by blast
    qed
  qed
qed

theorem only_author_edits_witness:
  "\<exists>rsp s'. UpdatePostHandler ref_call 5000 (demo_ctx 3) (BindOk \<lparr>upTitle = ''new'', upContent = ''text''\<rparr>) demo_board =
     (rsp :: unit ResponseData, s') \<and> Code rsp \<noteq> CodeSuccess \<and> a_tables s' = a_tables demo_board"
proof -
  obtain rsp s' where run: "UpdatePostHandler ref_call 5000 (demo_ctx 3) (BindOk \<lparr>upTitle = ''new'', upContent = ''text''\<rparr>) demo_board =
      (rsp :: unit ResponseData, s')" by fastforce
  note t = only_author_edits [OF ref.redis_server_axioms run]
  have "Code rsp \<noteq> CodeSuccess"
  proof
    assume "Code rsp = CodeSuccess"
    with t have "\<exists>p\<in>set (map (edit_post 5000 7 3 ''new'' ''text'') [demo_post, demo_post8]). po_id p = 7 \<and> po_author p = 3" by auto
    then show False by simp
  qed
  with t run show ?thesis by blast
qed



end
