(* ===== verification/VoteRoute.thy ===== *)
theory VoteRoute
  imports RateLimit PostEdit
begin

text \<open>
  The route \<open>POST /api/v1/vote\<close> as \<open>router/router.go\<close> puts it together: the session check of the group,
  the rate limit of the route, the handler. The theorem follows a request through all of them down
  to the abstract vote machine.
\<close>

section \<open>The route (router/router.go)\<close>

text \<open>
  \<open>v1.Use(JWTAuthMiddleware())\<close> and \<open>v1.POST("/vote", VoteRateLimitMiddleware(), PostVoteHandler)\<close>: each
  may abort with headers and a response. \<open>t1\<close> (nanoseconds), \<open>t2\<close> (milliseconds) and \<open>t3\<close> (seconds) are the
  clock when each of the three reads it.
\<close>

definition VoteRoute ::
    "'r redis_call \<Rightarrow> jwt_lib \<Rightarrow> AuthConfig \<Rightarrow> RateLimitConfig \<Rightarrow> int \<Rightarrow> int \<Rightarrow> nat list option \<Rightarrow> int \<Rightarrow> int
       \<Rightarrow> gin_ctx \<Rightarrow> ParamsVoteData bind \<Rightarrow> 'r conn
       \<Rightarrow> ((string \<times> string) list \<times> VoteResult ResponseData) \<times> 'r conn" where
  "VoteRoute call J auth rate t1 t2 rand newID t3 c body s =
     (case JWTAuthMiddleware call J auth t1 c s of
        (Abort hs rsp, s1) \<Rightarrow> ((hs, rsp), s1)
      | (Next c1, s1) \<Rightarrow>
          (case VoteRateLimitMiddleware call t2 rand (VoteRateLimitWindowMilliseconds rate) (VoteRateLimitMaxRequests rate) c1 s1 of
             (Abort hs rsp, s2) \<Rightarrow> ((hs, rsp), s2)
           | (Next c2, s2) \<Rightarrow> (case PostVoteHandler call newID t3 c2 body s2 of (rsp, s3) \<Rightarrow> (([], rsp), s3))))"

section \<open>What the limiter leaves alone\<close>

lemma same_votes:
  assumes "\<And>k. k \<noteq> ratelimit_key u \<Longrightarrow> ks' k = ks k"
  shows "abs_vote ks' = abs_vote ks" "vote_wf ks' = vote_wf ks" "version_of ks' = version_of ks"
proof -
  have "time_key \<noteq> ratelimit_key u" "score_key \<noteq> ratelimit_key u" "voted_key p \<noteq> ratelimit_key u"
    "version_key p \<noteq> ratelimit_key u" "outbox_key \<noteq> ratelimit_key u" for p
    by (simp_all add: key_defs getRedisKey_inj)
  then have at: "zset_at ks' time_key = zset_at ks time_key" "zset_at ks' score_key = zset_at ks score_key"
    "\<And>p. zset_at ks' (voted_key p) = zset_at ks (voted_key p)" "\<And>p. hash_at ks' (version_key p) = hash_at ks (version_key p)"
    "stream_at ks' outbox_key = stream_at ks outbox_key"
    using assms by (simp_all add: zset_at_def hash_at_def stream_at_def)
  then show "vote_wf ks' = vote_wf ks" by (simp add: vote_wf_def)
  have v: "version_of ks' p q = version_of ks p q" "direction_of ks' p q = direction_of ks p q" for p q
    using at by (simp_all add: version_of_def hget_def direction_of_def zscore_def)
  show "version_of ks' = version_of ks" by (intro ext) (rule v(1))
  have "direction_of ks' = direction_of ks" by (intro ext) (rule v(2))
  moreover have "zscore ks' time_key = zscore ks time_key" "zscore ks' score_key = zscore ks score_key"
    using at by (auto simp: zscore_def)
  ultimately show "abs_vote ks' = abs_vote ks" using \<open>version_of ks' = version_of ks\<close> at by (simp add: abs_vote_def outbox_def)
qed

lemma limiter_run:
  assumes "redis_server call db nid" "\<And>u. zset_at (db (srv s)) (ratelimit_key u) \<noteq> None" "0 < limit"
    and "VoteRateLimitMiddleware call now rand windowMs limit c s = (r, s')"
  obtains (refused) u hs rsp where "r = Abort hs rsp" "Code rsp \<noteq> CodeSuccess" "\<And>k. k \<noteq> ratelimit_key u \<Longrightarrow> db (srv s') k = db (srv s) k"
  | (allowed) u z n where "r = Next c" "getCurrentUserID c = Inr u" "rand = Some n" "zset_at (db (srv s)) (ratelimit_key (FormatInt u)) = Some z"
      "Allowed (fst (rate_spec (Milliseconds (wrap_int 64 (windowMs * Millisecond))) limit now (rate_member now n) z))"
      "\<And>k. k \<noteq> ratelimit_key (FormatInt u) \<Longrightarrow> db (srv s') k = db (srv s) k"
proof (cases "getCurrentUserID c")
  case (Inl e)
  with assms(4) show thesis by (intro refused [of _ _ undefined]) (auto simp: VoteRateLimitMiddleware_def code_defs)
next
  case (Inr u)
  let ?w = "wrap_int 64 (windowMs * Millisecond)"
  obtain res s2 where a: "AllowVoteRequest call now rand (FormatInt u) ?w limit s = (res, s2)" by fastforce
  have s': "s' = s2" "isl res \<Longrightarrow> r = Abort [] (ResponseError CodeServerBusy)"
    "\<And>x. res = Inr x \<Longrightarrow> Allowed x \<Longrightarrow> r = Next c"
    "\<And>x. res = Inr x \<Longrightarrow> \<not> Allowed x \<Longrightarrow> \<exists>hs m. r = Abort hs (ResponseErrorWithMsg CodeTooManyRequests m)"
    using assms(4) Inr a by (auto simp: VoteRateLimitMiddleware_def Let_def split: sum.splits if_splits)
  show thesis
  proof (cases rand)
    case None
    with a assms(3) have "isl res" "s2 = s" by (auto simp: AllowVoteRequest_def)
    with s'(1,2) show thesis by (intro refused [of _ _ "FormatInt u"]) (auto simp: code_defs)
  next
    case (Some n)
    obtain z where z: "zset_at (db (srv s)) (ratelimit_key (FormatInt u)) = Some z" using assms(2) by fast
    note ans = AllowVoteRequest_answer [OF assms(1) z assms(3) a [unfolded Some]]
    show thesis
    proof (cases "\<exists>x. res = Inr x \<and> Allowed x")
      case True
      then have "r = Next c" using s'(3) by blast
      moreover have "Allowed (fst (rate_spec (Milliseconds ?w) limit now (rate_member now n) z))" using True ans(2) by auto
      ultimately show thesis using Inr Some z ans(4) s'(1) by (intro allowed) simp_all
    next
      case False
      have "\<exists>hs rsp. r = Abort hs rsp \<and> Code rsp \<noteq> CodeSuccess"
      proof (cases res)
        case (Inl e)
        with s'(2) show ?thesis by (simp add: code_defs)
      next
        case (Inr x)
        with False s'(4) [OF Inr] show ?thesis by (auto simp: code_defs CodeTooManyRequests_def)
      qed
      then show thesis using refused ans(4) s'(1) by blast
    qed
  qed
qed

lemma handler_run:
  assumes "redis_server call db nid" "vote_wf (db (srv s))" "\<And>q u. int_range 64 (version_of (db (srv s)) q u + 1)"
    and "getCurrentUserID c = Inr u" "PostVoteHandler call newID now c body s = (rsp, s')"
  obtains (nothing) "Code rsp \<noteq> CodeSuccess" "abs_vote (db (srv s')) = abs_vote (db (srv s))"
  | (voted) p r after where "body = BindOk p"
      "spec_vote (FormatInt u) (FormatInt (vdPostID p)) (vdDirection p) (FormatInt newID) now (abs_vote (db (srv s))) = (r, after)"
      "abs_vote (db (srv s')) = after" "Code rsp = CodeSuccess \<Longrightarrow> \<exists>v. r = Inr v \<and> Data rsp = Some v"
proof -
  note server = assms(1)
  show thesis
  proof (cases body)
    case (BindOk p)
    obtain e s1 where e: "EnsureVoteStateReadable call s = (e, s1)" by fastforce
    note same = redis_server.EnsureVoteStateReadable_db [OF server e]
    let ?v = "VoteForPost call (FormatInt u) (FormatInt (vdPostID p)) (vdDirection p) (FormatInt newID) now s1"
    let ?spec = "spec_vote (FormatInt u) (FormatInt (vdPostID p)) (vdDirection p) (FormatInt newID) now (abs_vote (db (srv s)))"
    show thesis
    proof (cases e)
      case (Inl err)
      then have "s' = s1" "Code rsp \<noteq> CodeSuccess"
        using assms(4,5) BindOk e by (auto simp: PostVoteHandler_def LogicVoteForPost_def thenM_def code_defs split: if_splits)
      with same have "abs_vote (db (srv s')) = abs_vote (db (srv s))" by simp
      with \<open>Code rsp \<noteq> CodeSuccess\<close> show thesis by (rule nothing)
    next
      case (Inr _)
      have s': "s' = snd ?v" "Code rsp = CodeSuccess \<Longrightarrow> \<exists>v. fst ?v = Inr v \<and> Data rsp = Some v"
        using assms(4,5) BindOk e Inr
        by (cases ?v; cases "fst ?v"; auto simp: PostVoteHandler_def LogicVoteForPost_def thenM_def code_defs split: if_splits)+
      have o: "vote_observed (fst ?v) (abs_vote (db (srv s))) (abs_vote (db (srv (snd ?v)))) ?spec"
        using redis_server.VoteForPost_outcome(1) [OF server, of s1] assms(2,3) same by simp
      show thesis
      proof (cases "fst ?v = fst ?spec \<and> abs_vote (db (srv s')) = snd ?spec")
        case True
        then show thesis using BindOk s'(2) by (intro voted [of p "fst ?spec" "snd ?spec"]) simp_all
      next
        case False
        with o s'(1) have n: "fst ?v = Inl NetErr" "abs_vote (db (srv s')) = abs_vote (db (srv s)) \<or> abs_vote (db (srv s')) = snd ?spec"
          by (auto simp: vote_observed_def)
        then have c: "Code rsp \<noteq> CodeSuccess" using s'(2) by auto
        from n(2) show thesis
        proof
          assume "abs_vote (db (srv s')) = abs_vote (db (srv s))"
          with c show thesis by (rule nothing)
        next
          assume "abs_vote (db (srv s')) = snd ?spec"
          with c BindOk show thesis by (intro voted [of p "fst ?spec" "snd ?spec"]) simp_all
        qed
      qed
    qed
  next
    case BindInvalid
    with assms(5) have "Code rsp \<noteq> CodeSuccess" "abs_vote (db (srv s')) = abs_vote (db (srv s))"
      by (auto simp: PostVoteHandler_def code_defs)
    then show thesis by (rule nothing)
  next
    case BindErr
    with assms(5) have "Code rsp \<noteq> CodeSuccess" "abs_vote (db (srv s')) = abs_vote (db (srv s))"
      by (auto simp: PostVoteHandler_def code_defs)
    then show thesis by (rule nothing)
  qed
qed

section \<open>A request to apply the theorem to\<close>

definition demo_live_ks :: keyspace where
  "demo_live_ks = demo_board_ks(session_key (FormatInt 5) \<mapsto> VStr ''BwID'')"

lemma demo_live_at [simp]:
  "zset_at demo_live_ks time_key = Some [(''7'', 1000), (''8'', 2000)]" "zset_at demo_live_ks score_key = Some [(''7'', 1432), (''8'', 2000)]"
  "zset_at demo_live_ks (voted_key p) = Some (if p = ''7'' then [(''5'', 1)] else [])"
  "hash_at demo_live_ks (version_key p) = Some Map.empty" "stream_at demo_live_ks outbox_key = Some empty_stream"
  "zset_at demo_live_ks (ratelimit_key u) = Some []"
proof -
  have k: "demo_live_ks k = demo_board_ks k" if "\<forall>u. k \<noteq> session_key u" for k using that by (simp add: demo_live_ks_def)
  have n: "\<forall>u. time_key \<noteq> session_key u" "\<forall>u. score_key \<noteq> session_key u" "\<And>p. \<forall>u. voted_key p \<noteq> session_key u"
    "\<And>p. \<forall>u. version_key p \<noteq> session_key u" "\<forall>u. outbox_key \<noteq> session_key u" "\<And>v. \<forall>u. ratelimit_key v \<noteq> session_key u"
    by (simp_all add: key_defs getRedisKey_inj)
  show "zset_at demo_live_ks time_key = Some [(''7'', 1000), (''8'', 2000)]" "zset_at demo_live_ks score_key = Some [(''7'', 1432), (''8'', 2000)]"
    "zset_at demo_live_ks (voted_key p) = Some (if p = ''7'' then [(''5'', 1)] else [])"
    "hash_at demo_live_ks (version_key p) = Some Map.empty" "stream_at demo_live_ks outbox_key = Some empty_stream"
    using demo_board_at by (simp_all add: zset_at_def hash_at_def stream_at_def k [OF n(1)] k [OF n(2)] k [OF n(3)] k [OF n(4)] k [OF n(5)])
  have "demo_board_ks (ratelimit_key u) = None" by (simp add: demo_board_ks_def key_defs getRedisKey_inj)
  then show "zset_at demo_live_ks (ratelimit_key u) = Some []" by (simp add: zset_at_def k [OF n(6)])
qed

lemma demo_live_wf: "vote_wf demo_live_ks"
  by (simp add: vote_wf_def zs_wf_def voted_wf_def versions_wf_def zkey_def)

lemma demo_live_version: "version_of demo_live_ks q u = 0"
  by (simp add: version_of_def hget_def)

definition demo_vote_run :: "((string \<times> string) list \<times> VoteResult ResponseData) \<times> keyspace conn" where
  "demo_vote_run = VoteRoute ref_call ref_jwt demo_auth \<lparr>VoteRateLimitWindowMilliseconds = 1000, VoteRateLimitMaxRequests = 5\<rparr>
     1000 1 (Some [171]) 9 1001 demo_request (BindOk \<lparr>vdPostID = 7, vdDirection = -1\<rparr>) \<lparr>srv = demo_live_ks, fates = []\<rparr>"

section \<open>The theorem\<close>

text \<open>
  C6: a request to vote, from the Authorization header to the score. Whatever the client sends and
  whatever fails, either nothing of the vote state changes and the answer is not success, or the request brought
  a valid token whose session is live, its user had fewer logged requests than the limit, and the vote
  state has changed exactly as the vote machine prescribes for this user, this post and this direction;
  an answer of success carries the machine's result.
\<close>

theorem vote_request:
  assumes "redis_server call db nid" "jwt_library J" "vote_wf (db (srv s))"
    and "\<And>q u. int_range 64 (version_of (db (srv s)) q u + 1)"
    and "\<And>u. zset_at (db (srv s)) (ratelimit_key u) \<noteq> None" "0 < VoteRateLimitMaxRequests rate"
    and "VoteRoute call J auth rate t1 t2 rand newID t3 c body s = ((hs, rsp), s')"
  shows "abs_vote (db (srv s')) = abs_vote (db (srv s)) \<and> Code rsp \<noteq> CodeSuccess \<or>
    (\<exists>token mc u p n z r.
       ctx_header c ''Authorization'' = ''Bearer '' @ token \<and> ParseToken J auth t1 token = Inr mc \<and>
       ParseInt 64 (clSubject mc) = Inr u \<and> session_of (db (srv s)) u = Some (clSessionID mc) \<and>
       rand = Some n \<and> zset_at (db (srv s)) (ratelimit_key (FormatInt u)) = Some z \<and>
       Allowed (fst (rate_spec (Milliseconds (wrap_int 64 (VoteRateLimitWindowMilliseconds rate * Millisecond)))
         (VoteRateLimitMaxRequests rate) t2 (rate_member t2 n) z)) \<and>
       body = BindOk p \<and>
       spec_vote (FormatInt u) (FormatInt (vdPostID p)) (vdDirection p) (FormatInt newID) t3 (abs_vote (db (srv s))) =
         (r, abs_vote (db (srv s'))) \<and>
       (Code rsp = CodeSuccess \<longrightarrow> (\<exists>v. r = Inr v \<and> Data rsp = Some v)))"
proof -
  note server = assms(1)
  obtain m s1 where m: "JWTAuthMiddleware call J auth t1 c s = (m :: VoteResult middleware, s1)" by fastforce
  note auth = JWTAuthMiddleware_outcome [OF server assms(2) m]
  have s1: "db (srv s1) = db (srv s)" using auth by blast
  show ?thesis
  proof (cases m)
    case (Abort hs1 rsp1)
    then have "s' = s1" "rsp = rsp1" using assms(7) m by (simp_all add: VoteRoute_def)
    moreover have "Code rsp1 \<noteq> CodeSuccess" using auth Abort by (auto simp: code_defs)
    ultimately show ?thesis using s1 by simp
  next
    case (Next c1)
    then obtain token mc u where t: "ctx_header c ''Authorization'' = ''Bearer '' @ token" "ParseToken J auth t1 token = Inr mc"
      "ParseInt 64 (clSubject mc) = Inr u" "session_of (db (srv s)) u = Some (clSessionID mc)" "getCurrentUserID c1 = Inr u"
      using auth by auto
    obtain l s2 where l: "VoteRateLimitMiddleware call t2 rand (VoteRateLimitWindowMilliseconds rate) (VoteRateLimitMaxRequests rate) c1 s1 =
        (l :: VoteResult middleware, s2)" by fastforce
    have logs: "\<And>u. zset_at (db (srv s1)) (ratelimit_key u) \<noteq> None" using assms(5) s1 by simp
    show ?thesis
    proof (cases rule: limiter_run [OF server logs assms(6) l])
      case (1 v hs2 rsp2)
      have "s' = s2" "rsp = rsp2" using assms(7) m Next l 1(1) by (simp_all add: VoteRoute_def)
      with 1(2) same_votes(1) [of v "db (srv s2)" "db (srv s1)"] 1(3) s1 show ?thesis by simp
    next
      case (2 u' z n)
      have u': "u' = u" using 2(2) t(5) by simp
      note same = same_votes [of "FormatInt u'" "db (srv s2)" "db (srv s1)", OF 2(6), unfolded s1]
      obtain rsp3 s3 where h: "PostVoteHandler call newID t3 c1 body s2 = (rsp3, s3)" by fastforce
      have r: "s' = s3" "rsp = rsp3" using assms(7) m Next l 2(1) h by (simp_all add: VoteRoute_def)
      have wf: "vote_wf (db (srv s2))" "\<And>q u. int_range 64 (version_of (db (srv s2)) q u + 1)"
        using same(2,3) assms(3,4) by simp_all
      show ?thesis
      proof (cases rule: handler_run [OF server wf t(5) h])
        case 1
        with same(1) r show ?thesis by simp
      next
        case (2 p res after)
        with same(1) have "spec_vote (FormatInt u) (FormatInt (vdPostID p)) (vdDirection p) (FormatInt newID) t3 (abs_vote (db (srv s))) =
            (res, abs_vote (db (srv s3)))" by simp
        moreover have "Code rsp3 = CodeSuccess \<longrightarrow> (\<exists>v. res = Inr v \<and> Data rsp3 = Some v)" using 2(4) by blast
        ultimately show ?thesis
          using t(1-4) \<open>rand = Some n\<close> \<open>zset_at (db (srv s1)) (ratelimit_key (FormatInt u')) = Some z\<close> 2(1) r u' s1
            \<open>Allowed _\<close> by auto
      qed
    qed
  qed
qed

theorem vote_request_witness:
  "abs_vote (srv (snd demo_vote_run)) = abs_vote demo_live_ks \<and> Code (snd (fst demo_vote_run)) \<noteq> CodeSuccess \<or>
   session_of demo_live_ks 5 = Some ''BwID'' \<and>
   snd (spec_vote (FormatInt 5) (FormatInt 7) (-1) (FormatInt 9) 1001 (abs_vote demo_live_ks)) = abs_vote (srv (snd demo_vote_run))"
proof -
  have run: "VoteRoute ref_call ref_jwt demo_auth \<lparr>VoteRateLimitWindowMilliseconds = 1000, VoteRateLimitMaxRequests = 5\<rparr>
      1000 1 (Some [171]) 9 1001 demo_request (BindOk \<lparr>vdPostID = 7, vdDirection = -1\<rparr>) \<lparr>srv = demo_live_ks, fates = []\<rparr> =
      ((fst (fst demo_vote_run), snd (fst demo_vote_run)), snd demo_vote_run)" by (simp add: demo_vote_run_def)
  have s: "srv \<lparr>srv = demo_live_ks, fates = []\<rparr> = demo_live_ks" by simp
  have tok: "token = demo_token" if "ctx_header demo_request ''Authorization'' = ''Bearer '' @ token" for token
    using that by (simp add: demo_header)
  have u: "ParseInt 64 (FormatInt 5) = Inr 5" by (rule ParseInt_FormatInt) (simp_all add: int_range_def)
  from vote_request [OF ref.redis_server_axioms refjwt.jwt_library_axioms _ _ _ _ run]
  show ?thesis
    using tok demo_token_parses u by (auto simp: demo_live_wf demo_live_version int_range_def)
qed

end
