(* ===== verification/PostCreate.thy ===== *)
theory PostCreate
  imports PostEdit
begin

text \<open>
  Creating a post (logic/post.go CreatePost and the handler in front of it): the row in MySQL, the
  three attempts to index it in Redis, and what of it remains when a step fails.
\<close>

section \<open>One attempt, and three\<close>

text \<open>What an attempt needs, and keeps: it may be made again.\<close>

definition indexable :: "int \<Rightarrow> int \<Rightarrow> keyspace \<Rightarrow> bool" where
  "indexable pid cid ks \<longleftrightarrow>
     vote_wf ks \<and> score_inv ks \<and> net_votes ks (FormatInt pid) = 0 \<and> set_at ks (community_key (FormatInt cid)) \<noteq> None"

definition in_indexes :: "int \<Rightarrow> int \<Rightarrow> int \<Rightarrow> keyspace \<Rightarrow> bool" where
  "in_indexes now pid cid ks \<longleftrightarrow>
     zscore ks time_key (FormatInt pid) = Some now \<and> zscore ks score_key (FormatInt pid) = Some now \<and>
     (\<exists>s. set_at ks (community_key (FormatInt cid)) = Some s \<and> FormatInt pid \<in> set s)"

text \<open>Votes, versions, the outbox and the caches are none of its business.\<close>

definition untouched :: "keyspace \<Rightarrow> keyspace \<Rightarrow> bool" where
  "untouched ks ks' \<longleftrightarrow>
     direction_of ks' = direction_of ks \<and> version_of ks' = version_of ks \<and> outbox ks' = outbox ks \<and>
     (\<forall>pid. ks' (postCacheKey pid) = ks (postCacheKey pid))"

lemma untouched_refl [simp]: "untouched ks ks"
  by (simp add: untouched_def)

lemma untouched_trans: "untouched a b \<Longrightarrow> untouched b c \<Longrightarrow> untouched a c"
  by (simp add: untouched_def)

lemma untouchedI:
  assumes "\<And>k. k \<noteq> time_key \<Longrightarrow> k \<noteq> score_key \<Longrightarrow> (\<And>cid. k \<noteq> community_key cid) \<Longrightarrow> ks' k = ks k"
  shows "untouched ks ks'" "net_votes ks' = net_votes ks"
proof -
  have "ks' (voted_key p) = ks (voted_key p)" "ks' (version_key p) = ks (version_key p)" "ks' outbox_key = ks outbox_key"
    "ks' (postCacheKey pid) = ks (postCacheKey pid)" for p pid
    by (rule assms; simp add: key_defs getRedisKey_inj postCacheKey_def)+
  then have at: "zset_at ks' (voted_key p) = zset_at ks (voted_key p)" "hash_at ks' (version_key p) = hash_at ks (version_key p)"
    "stream_at ks' outbox_key = stream_at ks outbox_key" "ks' (postCacheKey pid) = ks (postCacheKey pid)" for p pid
    by (simp_all add: zset_at_def hash_at_def stream_at_def)
  then show "untouched ks ks'"
    by (auto simp: untouched_def fun_eq_iff direction_of_def version_of_def outbox_def zscore_def hget_def)
  show "net_votes ks' = net_votes ks" using at by (simp add: fun_eq_iff net_votes_def)
qed

context redis_server
begin

lemma create_attempt:
  assumes "indexable pid cid (db (srv c))" "RedisCreatePost call now pid cid c = (res, c')"
  shows "indexable pid cid (db (srv c')) \<and> untouched (db (srv c)) (db (srv c')) \<and>
    (res = Inr () \<longrightarrow> in_indexes now pid cid (db (srv c')))"
proof -
  obtain s where s: "set_at (db (srv c)) (community_key (FormatInt cid)) = Some s"
    using assms(1) by (auto simp: indexable_def)
  have ready: "vote_wf (db (srv c))" "score_inv (db (srv c))" "net_votes (db (srv c)) (FormatInt pid) = 0"
    using assms(1) by (simp_all add: indexable_def)
  note keeps = RedisCreatePost_indexes [OF redis_server_axioms ready(1,2) s ready(3) assms(2)]
  show ?thesis
    using redis_server_axioms ready(1) s
  proof (cases rule: create_post_cases [where now = now and pid = pid])
    case unchanged
    with assms show ?thesis by simp
  next
    case (created z1 z2)
    have "untouched (db (srv c)) (db (srv c'))" "net_votes (db (srv c')) = net_votes (db (srv c))"
      by (rule untouchedI; use created(6) assms(2) in \<open>simp add: put_zset_def\<close>)+
    moreover have "set_at (db (srv c')) (community_key (FormatInt cid)) \<noteq> None" using created(6) assms(2) by simp
    ultimately show ?thesis using keeps ready by (auto simp: indexable_def in_indexes_def)
  qed
qed

lemma create_attempts_run:
  assumes "indexable (po_id p) (po_community p) (db (srv c))" "nows \<noteq> []" "create_attempts call nows p c = (res, c')"
  shows "indexable (po_id p) (po_community p) (db (srv c')) \<and> untouched (db (srv c)) (db (srv c')) \<and>
    (res = Inr () \<longrightarrow> (\<exists>now\<in>set nows. in_indexes now (po_id p) (po_community p) (db (srv c'))))"
  using assms
proof (induction nows arbitrary: c)
  case (Cons now nows)
  obtain r c1 where r: "RedisCreatePost call now (po_id p) (po_community p) c = (r, c1)" by fastforce
  note one = create_attempt [OF Cons.prems(1) r]
  show ?case
  proof (cases "isl r \<and> nows \<noteq> []")
    case True
    with r Cons.prems(3) have "create_attempts call nows p c1 = (res, c')" by (auto split: sum.splits)
    with Cons.IH [OF _ _ this] one True show ?thesis by (auto intro: untouched_trans)
  next
    case False
    with r Cons.prems(3) have "res = r \<and> c' = c1" by (cases r) (auto split: if_splits)
    with one show ?thesis by auto
  qed
qed simp

end

section \<open>The row and the index\<close>

definition new_post :: "int \<Rightarrow> int \<Rightarrow> post_row \<Rightarrow> post_row" where
  "new_post newID now p = p\<lparr>po_id := newID, po_status := 1, po_created := now, po_updated := now\<rparr>"

lemma MysqlCreatePost_cases:
  assumes "MysqlCreatePost now p s = (res, s')"
  obtains (failed) "res = Inl SqlErr" "a_tables s' = a_tables s" "a_redis s' = a_redis s"
  | (inserted) "res = Inr ()" "po_id p \<notin> po_id ` set (t_posts (a_tables s))" "a_redis s' = a_redis s"
      "a_tables s' = (a_tables s)\<lparr>t_posts := t_posts (a_tables s) @ [new_post (po_id p) now p]\<rparr>"
  using assms that by (auto simp: MysqlCreatePost_def sqlM_def new_post_def split: list.splits bool.splits if_splits)

text \<open>A new row changes nothing of the posts that are there, so the caches stay right.\<close>

lemma find_snoc: "find P (xs @ [x]) = (case find P xs of None \<Rightarrow> if P x then Some x else None | Some y \<Rightarrow> Some y)"
  by (induction xs) auto

lemma post_detail_insert:
  assumes "post_detail t q = Some d"
  shows "post_detail (t\<lparr>t_posts := t_posts t @ [p]\<rparr>) q = Some d"
  using assms by (auto simp: post_detail_def find_snoc split: option.splits)

lemma cache_ok_insert:
  assumes "cache_ok J t ks" "\<And>pid. ks' (postCacheKey pid) = ks (postCacheKey pid)"
  shows "cache_ok J (t\<lparr>t_posts := t_posts t @ [p]\<rparr>) ks'"
  using assms(1) unfolding cache_ok_cached_from
  by (rule cached_from_mono) (use assms(2) post_detail_insert in auto)

context redis_server
begin

lemma LogicCreatePost_run:
  assumes ks: "indexable newID (po_community p) (db (srv (a_redis s)))"
    and run: "LogicCreatePost call newID now (n1, n2, n3) p s = (res, s')"
  obtains (refused) "isl res" "a_tables s' = a_tables s" "db (srv (a_redis s')) = db (srv (a_redis s))"
  | (stored) "newID \<notin> po_id ` set (t_posts (a_tables s))"
      "a_tables s' = (a_tables s)\<lparr>t_posts := t_posts (a_tables s) @ [new_post newID now p]\<rparr>"
      "indexable newID (po_community p) (db (srv (a_redis s')))" "untouched (db (srv (a_redis s))) (db (srv (a_redis s')))"
      "\<not> isl res \<Longrightarrow> res = Inr (p\<lparr>po_id := newID\<rparr>) \<and> (\<exists>n\<in>{n1, n2, n3}. in_indexes n newID (po_community p) (db (srv (a_redis s'))))"
proof -
  let ?p = "p\<lparr>po_id := newID\<rparr>"
  obtain g c where g: "EnsureVoteStateReadable call (a_redis s) = (g, c)" by fastforce
  note same = EnsureVoteStateReadable_db [OF g]
  let ?s1 = "s\<lparr>a_redis := c\<rparr>"
  obtain r s2 where r: "MysqlCreatePost now ?p ?s1 = (r, s2)" by fastforce
  obtain w c3 where w: "create_attempts call [n1, n2, n3] ?p (a_redis s2) = (w, c3)" by fastforce
  note unfolded = run [unfolded LogicCreatePost_def thenM_run wrap_err_def redisM_def Let_def, simplified]
  show thesis
  proof (cases "isl g")
    case True
    with unfolded g same refused show thesis by (auto split: sum.splits simp: ret_def)
  next
    case False
    from r show thesis
    proof (cases rule: MysqlCreatePost_cases)
      case failed
      with unfolded g r False same refused show thesis by (auto split: sum.splits simp: ret_def)
    next
      case inserted
      have "indexable (po_id ?p) (po_community ?p) (db (srv (a_redis s2)))" using ks inserted(3) same by simp
      note tries = create_attempts_run [OF this _ w, simplified]
      have "s' = s2\<lparr>a_redis := c3\<rparr>" "isl res = isl w" "\<not> isl w \<Longrightarrow> res = Inr ?p"
        using unfolded g r w False inserted(1) by (auto split: sum.splits simp: ret_def)
      moreover have "\<not> isl w \<Longrightarrow> w = Inr ()" by (cases w) simp_all
      ultimately show thesis
        using inserted tries same by (intro stored) (auto simp: new_post_def isl_def split: sum.splits)
    qed
  qed
qed

lemma LogicCreatePost_returns:
  assumes "indexable newID (po_community p) (db (srv (a_redis s)))" "newID \<notin> po_id ` set (t_posts (a_tables s))"
    and "db (srv (a_redis s)) status_key = Some (VStr VoteStateReady)" "fates (a_redis s) = []" "a_sql s = []"
  shows "\<exists>s'. LogicCreatePost call newID now (n1, n2, n3) p s = (Inr (p\<lparr>po_id := newID\<rparr>), s')"
proof -
  obtain c where c: "EnsureVoteStateReadable call (a_redis s) = (Inr (), c)" "fates c = []" "db (srv c) = db (srv (a_redis s))"
    using EnsureVoteStateReadable_ready [OF assms(4,3)] by blast
  obtain z1 z2 cs where z: "zset_at (db (srv c)) time_key = Some z1" "zset_at (db (srv c)) score_key = Some z2"
      "set_at (db (srv c)) (community_key (FormatInt (po_community p))) = Some cs"
    using assms(1) c(3) by (auto simp: indexable_def vote_wf_def)
  obtain c' where "RedisCreatePost call n1 newID (po_community p) c = (Inr (), c')"
    using create_post_run(1) [OF z, of n1 newID] c(2)
    by (fastforce simp: RedisCreatePost_def exec_tx_def exec_no_fault thenM_def lift_reply_def)
  then show ?thesis
    using assms(2,5) c(1) by (simp add: LogicCreatePost_def Let_def thenM_def wrap_err_def redisM_def MysqlCreatePost_def sqlM_def)
qed

text \<open>For the readers and the editors of posts, creating one is a step of the others.\<close>

lemma LogicCreatePost_page_step:
  assumes "indexable newID (po_community p) (db (srv (a_redis a)))" "request_at a s"
    and "LogicCreatePost call newID now (n1, n2, n3) p a = (res, a')"
  shows "\<exists>s'. page_step call J db s s' \<and> request_at a' s'"
proof -
  let ?s = "s\<lparr>pg_redis := srv (a_redis a'), pg_tables := a_tables a', pg_past := insert (a_tables a') (pg_past s)\<rparr>"
  from assms(2) have at: "srv (a_redis a) = pg_redis s" "a_tables a = pg_tables s" by (simp_all add: request_at_def)
  have "page_step call J db s ?s"
  proof (cases rule: LogicCreatePost_run [OF assms(1,3), case_names refused stored])
    case refused
    with at show ?thesis by (intro page_step.others) simp_all
  next
    case stored
    with at show ?thesis by (intro page_step.others) (simp_all add: untouched_def post_detail_insert)
  qed
  then show ?thesis by (intro exI [of _ ?s]) (simp add: request_at_def)
qed

end

section \<open>The request\<close>

lemma CreatePostHandler_cases:
  assumes "CreatePostHandler call newID now nows c body s = (rsp, s')"
  obtains (rejected) "Code rsp \<noteq> CodeSuccess" "s' = s" "isl (getCurrentUserID c) \<or> (\<forall>params. body \<noteq> BindOk params)"
  | (logic) u params p res where "getCurrentUserID c = Inr u" "body = BindOk params"
      "p = \<lparr>po_id = 0, po_author = u, po_community = cpCommunityID params, po_status = 0,
        po_title = cpTitle params, po_content = cpContent params, po_created = 0, po_updated = 0\<rparr>"
      "LogicCreatePost call newID now nows p s = (res, s')"
      "rsp = (case res of Inl _ \<Rightarrow> ResponseError CodeServerBusy | Inr p \<Rightarrow> ResponseSuccess (Some (FormatInt (po_id p))))"
proof (cases "\<exists>u params. getCurrentUserID c = Inr u \<and> body = BindOk params")
  case True
  then obtain u params where u: "getCurrentUserID c = Inr u" "body = BindOk params" by blast
  let ?row = "\<lparr>po_id = 0, po_author = u, po_community = cpCommunityID params, po_status = 0,
    po_title = cpTitle params, po_content = cpContent params, po_created = 0, po_updated = 0\<rparr>"
  obtain res s1 where l: "LogicCreatePost call newID now nows ?row s = (res, s1)" by fastforce
  with u assms have "s1 = s'" "rsp = (case res of Inl _ \<Rightarrow> ResponseError CodeServerBusy | Inr p \<Rightarrow> ResponseSuccess (Some (FormatInt (po_id p))))"
    by (auto simp: CreatePostHandler_def split: sum.splits)
  with u l logic show thesis by blast
next
  case False
  then have "isl (getCurrentUserID c) \<or> (\<forall>params. body \<noteq> BindOk params)" by (cases "getCurrentUserID c") auto
  with assms False rejected show thesis by (auto simp: CreatePostHandler_def code_defs split: sum.splits bind.splits)
qed

text \<open>
  C25: creating a post, whatever fails. The vote state stays well-formed, scores go on counting votes,
  votes, versions and outbox are as before and the caches right. Either nothing is stored and the answer is an
  error, or MySQL has one row more, with the fresh identifier, the user of the request as its author and
  the text of the request; and an answer of success gives that identifier and means that the post is in the
  time index, the score index and its community, under the clock of one of the three attempts.
\<close>

theorem create_post_request:
  assumes "redis_server call db nid" "vote_wf (db (srv (a_redis s)))" "score_inv (db (srv (a_redis s)))"
    and "cache_ok J (a_tables s) (db (srv (a_redis s)))" "net_votes (db (srv (a_redis s))) (FormatInt newID) = 0"
    and "\<And>cid. set_at (db (srv (a_redis s))) (community_key (FormatInt cid)) \<noteq> None"
    and "CreatePostHandler call newID now (n1, n2, n3) c body s = (rsp, s')"
  shows "vote_wf (db (srv (a_redis s'))) \<and> score_inv (db (srv (a_redis s'))) \<and> cache_ok J (a_tables s') (db (srv (a_redis s'))) \<and>
    untouched (db (srv (a_redis s))) (db (srv (a_redis s'))) \<and>
    (a_tables s' = a_tables s \<and> Code rsp \<noteq> CodeSuccess \<or>
     (\<exists>u params. getCurrentUserID c = Inr u \<and> body = BindOk params \<and> newID \<notin> po_id ` set (t_posts (a_tables s)) \<and>
        a_tables s' = (a_tables s)\<lparr>t_posts := t_posts (a_tables s) @
          [\<lparr>po_id = newID, po_author = u, po_community = cpCommunityID params, po_status = 1,
            po_title = cpTitle params, po_content = cpContent params, po_created = now, po_updated = now\<rparr>]\<rparr> \<and>
        (Code rsp = CodeSuccess \<longrightarrow> Data rsp = Some (FormatInt newID) \<and>
           (\<exists>n\<in>{n1, n2, n3}. in_indexes n newID (cpCommunityID params) (db (srv (a_redis s'))))))) \<and>
    (\<not> isl (getCurrentUserID c) \<and> (\<exists>params. body = BindOk params) \<and> newID \<notin> po_id ` set (t_posts (a_tables s)) \<and>
       db (srv (a_redis s)) status_key = Some (VStr VoteStateReady) \<and> fates (a_redis s) = [] \<and> a_sql s = [] \<longrightarrow>
     Code rsp = CodeSuccess)"
proof -
  note server = assms(1)
  from assms(7) show ?thesis
  proof (cases rule: CreatePostHandler_cases)
    case rejected
    then show ?thesis using assms(2-4) by auto
  next
    case (logic u params p res)
    have ready: "indexable newID (po_community p) (db (srv (a_redis s)))"
      using assms(2,3,5,6) by (simp add: indexable_def)
    have quiet: "Code rsp = CodeSuccess" if "newID \<notin> po_id ` set (t_posts (a_tables s))"
        "db (srv (a_redis s)) status_key = Some (VStr VoteStateReady)" "fates (a_redis s) = []" "a_sql s = []"
      using redis_server.LogicCreatePost_returns [OF server ready that, of now n1 n2 n3] logic(4,5) by (auto simp: code_defs)
    show ?thesis
    proof (cases rule: redis_server.LogicCreatePost_run [OF server ready logic(4), consumes 0, case_names refused stored])
      case refused
      with assms(2-4) logic(5) quiet show ?thesis by (auto simp: code_defs isl_def)
    next
      case stored
      have "cache_ok J (a_tables s') (db (srv (a_redis s')))"
        unfolding stored(2) using assms(4) stored(4)
        by (intro cache_ok_insert) (simp_all add: new_post_def untouched_def)
      moreover have "Code rsp = CodeSuccess \<longrightarrow> Data rsp = Some (FormatInt newID) \<and>
          (\<exists>n\<in>{n1, n2, n3}. in_indexes n newID (cpCommunityID params) (db (srv (a_redis s'))))"
        using stored(5) logic(3,5) by (cases res) (auto simp: code_defs)
      ultimately show ?thesis using stored(1-4) logic(1-3) quiet by (auto simp: indexable_def new_post_def)
    qed
  qed
qed

text \<open>Bob writes post 9; the clock of the first attempt is in the indexes.\<close>

lemma demo_board_create_ready:
  "vote_wf demo_board_ks" "score_inv demo_board_ks" "net_votes demo_board_ks (FormatInt 9) = 0"
  "set_at demo_board_ks (community_key (FormatInt cid)) \<noteq> None"
proof -
  show "vote_wf demo_board_ks" by (rule demo_board_wf)
  show "score_inv demo_board_ks" by (simp add: score_inv_def zscore_def net_votes_def scorePerVote_def)
  have "FormatInt 9 = ''9''" by (simp add: FormatInt_def nat_decimal.simps digit_char_def)
  then show "net_votes demo_board_ks (FormatInt 9) = 0" by (simp add: net_votes_def)
  show "set_at demo_board_ks (community_key (FormatInt cid)) \<noteq> None"
    by (simp add: demo_board_ks_def set_at_def key_defs getRedisKey_inj)
qed

theorem create_post_request_witness:
  "\<exists>rsp s'. CreatePostHandler ref_call 9 3000 (3000, 3001, 3002) (demo_ctx 2)
       (BindOk \<lparr>cpCommunityID = 1, cpTitle = ''new'', cpContent = ''text''\<rparr>) demo_board = (rsp, s') \<and>
     Code rsp = CodeSuccess \<and> score_inv (srv (a_redis s')) \<and> cache_ok ref_codec (a_tables s') (srv (a_redis s')) \<and>
     map po_author (t_posts (a_tables s')) = [2, 3, 2] \<and> (\<exists>n\<in>{3000, 3001, 3002}. in_indexes n 9 1 (srv (a_redis s')))"
proof -
  let ?body = "BindOk \<lparr>cpCommunityID = 1, cpTitle = ''new'', cpContent = ''text''\<rparr>"
  obtain rsp s' where run: "CreatePostHandler ref_call 9 3000 (3000, 3001, 3002) (demo_ctx 2) ?body demo_board = (rsp, s')" by fastforce
  note t = create_post_request [OF ref.redis_server_axioms _ _ _ _ _ run, of ref_codec, simplified, OF demo_board_create_ready(1,2)
    demo_cache_ok demo_board_create_ready(3) demo_board_create_ready(4) [simplified]]
  with run show ?thesis by auto
qed

end
