(* ===== verification/Js.thy ===== *)
theory Js
  imports GoStd
begin

text \<open>
  The part of JavaScript that the front end under \<open>static/js\<close> runs on: values, property access and
  assignment on objects, truthiness, the string functions it calls, and promises. A value is a
  \<open>jsval\<close>; an object is the list of its own enumerable properties in insertion order. Numbers are
  the integers of the program (status codes, pages, ids below 2 ^ 53), which a double holds
  exactly. Strings are the bytes of their UTF-8 form.

  A promise is observed once it settles: \<open>Fulfilled\<close>, \<open>Rejected\<close>, or \<open>Pending\<close> for one that never
  does. A handler is a program on the state of the page; throwing is returning \<open>Rejected\<close>, and
  returning a promise adopts it, as \<open>Promise.prototype.then\<close> does.
\<close>

section \<open>Values\<close>

datatype jsval =
    JUndef | JNull | JBool bool | JNum int | JStr string
  | JArr "jsval list" | JObj "(string \<times> jsval) list"

type_synonym jsprops = "(string \<times> jsval) list"

fun truthy :: "jsval \<Rightarrow> bool" where
  "truthy JUndef \<longleftrightarrow> False"
| "truthy JNull \<longleftrightarrow> False"
| "truthy (JBool b) \<longleftrightarrow> b"
| "truthy (JNum n) \<longleftrightarrow> n \<noteq> 0"
| "truthy (JStr s) \<longleftrightarrow> s \<noteq> []"
| "truthy (JArr vs) \<longleftrightarrow> True"
| "truthy (JObj es) \<longleftrightarrow> True"

definition prop_get :: "jsprops \<Rightarrow> string \<Rightarrow> jsval" where
  "prop_get es k = (case map_of es k of None \<Rightarrow> JUndef | Some v \<Rightarrow> v)"

fun prop_set :: "jsprops \<Rightarrow> string \<Rightarrow> jsval \<Rightarrow> jsprops" where
  "prop_set [] k v = [(k, v)]"
| "prop_set ((k', v') # es) k v = (if k' = k then (k, v) # es else (k', v') # prop_set es k v)"

definition prop_del :: "jsprops \<Rightarrow> string \<Rightarrow> jsprops" where
  "prop_del es k = filter (\<lambda>(k', _). k' \<noteq> k) es"

text \<open>Reading \<open>v.k\<close>: the primitives have none of the properties the program reads, and \<open>null\<close> and
  \<open>undefined\<close> throw a \<open>TypeError\<close>, here \<open>None\<close>.\<close>

fun member :: "jsval \<Rightarrow> string \<Rightarrow> jsval option" where
  "member JUndef k = None"
| "member JNull k = None"
| "member (JObj es) k = Some (prop_get es k)"
| "member v k = Some JUndef"

lemma prop_get_Nil [simp]: "prop_get [] k = JUndef"
  by (simp add: prop_get_def)

lemma prop_get_Cons [simp]: "prop_get ((k', v) # es) k = (if k' = k then v else prop_get es k)"
  by (simp add: prop_get_def)

lemma map_of_prop_set [simp]: "map_of (prop_set es k v) = (map_of es)(k \<mapsto> v)"
  by (induction es) (auto simp: fun_eq_iff)

lemma prop_get_set [simp]: "prop_get (prop_set es k v) k' = (if k = k' then v else prop_get es k')"
  by (simp add: prop_get_def)

lemma prop_get_del [simp]: "prop_get (prop_del es k) k' = (if k = k' then JUndef else prop_get es k')"
  by (induction es) (auto simp: prop_del_def)

lemma set_prop_set: "fst ` set (prop_set es k v) = insert k (fst ` set es)"
proof (induction es)
  case (Cons e es)
  then show ?case by (cases e) (simp add: insert_commute)
qed simp

lemma distinct_prop_set: "distinct (map fst es) \<Longrightarrow> distinct (map fst (prop_set es k v))"
proof (induction es)
  case (Cons e es)
  have "fst ` set (prop_set es k v) = insert k (fst ` set es)" by (rule set_prop_set)
  with Cons show ?case by (cases e) auto
qed simp

lemma prop_set_fresh: "k \<notin> fst ` set es \<Longrightarrow> prop_set es k v = es @ [(k, v)]"
  by (induction es) auto

section \<open>Strings\<close>

definition lower_char :: "char \<Rightarrow> char" where
  "lower_char c = (let n = of_char c :: nat in if 65 \<le> n \<and> n \<le> 90 then char_of (n + 32) else c)"

definition upper_char :: "char \<Rightarrow> char" where
  "upper_char c = (let n = of_char c :: nat in if 97 \<le> n \<and> n \<le> 122 then char_of (n - 32) else c)"

definition toLowerCase :: "string \<Rightarrow> string" where
  "toLowerCase s = map lower_char s"

definition toUpperCase :: "string \<Rightarrow> string" where
  "toUpperCase s = map upper_char s"

fun starts_with :: "string \<Rightarrow> string \<Rightarrow> bool" where
  "starts_with [] s \<longleftrightarrow> True"
| "starts_with (p # ps) [] \<longleftrightarrow> False"
| "starts_with (p # ps) (c # cs) \<longleftrightarrow> p = c \<and> starts_with ps cs"

fun join_with :: "string \<Rightarrow> string list \<Rightarrow> string" where
  "join_with sep [] = []"
| "join_with sep [s] = s"
| "join_with sep (s # t # ts) = s @ sep @ join_with sep (t # ts)"

text \<open>\<open>s.split(c)\<close> for a one-character separator.\<close>

fun split_on :: "char \<Rightarrow> string \<Rightarrow> string list" where
  "split_on c [] = [[]]"
| "split_on c (x # xs) =
     (if x = c then [] # split_on c xs
      else case split_on c xs of [] \<Rightarrow> [[x]] | w # ws \<Rightarrow> (x # w) # ws)"

lemma split_on_ne [simp]: "split_on c s \<noteq> []"
  by (induction s) (auto split: list.splits)

lemma split_on_absent: "c \<notin> set s \<Longrightarrow> split_on c s = [s]"
  by (induction s) auto

lemma split_on_append: "c \<notin> set s \<Longrightarrow> split_on c (s @ c # t) = s # split_on c t"
  by (induction s) (auto split: list.splits)

lemma split_join: "\<lbrakk>ss \<noteq> []; \<forall>s\<in>set ss. c \<notin> set s\<rbrakk> \<Longrightarrow> split_on c (join_with [c] ss) = ss"
  by (induction "[c]" ss rule: join_with.induct) (auto simp: split_on_absent split_on_append)

text \<open>The string a value is converted to by \<open>+\<close>, by a template and by \<open>setRequestHeader\<close>.\<close>

fun js_string :: "jsval \<Rightarrow> string" where
  "js_string JUndef = ''undefined''"
| "js_string JNull = ''null''"
| "js_string (JBool b) = (if b then ''true'' else ''false'')"
| "js_string (JNum n) = FormatInt n"
| "js_string (JStr s) = s"
| "js_string (JArr vs) =
     join_with '','' (map (\<lambda>v. case v of JUndef \<Rightarrow> [] | JNull \<Rightarrow> [] | _ \<Rightarrow> js_string v) vs)"
| "js_string (JObj es) = ''[object Object]''"

section \<open>Promises\<close>

datatype 'v promise = Pending | Fulfilled 'v | Rejected 'v

type_synonym ('v, 's) handler = "'v \<Rightarrow> 's \<Rightarrow> 'v promise \<times> 's"

definition promise_then ::
  "('v, 's) handler option \<Rightarrow> ('v, 's) handler option \<Rightarrow> 'v promise \<times> 's \<Rightarrow> 'v promise \<times> 's" where
  "promise_then onF onR ps =
     (case ps of
        (Pending, s) \<Rightarrow> (Pending, s)
      | (Fulfilled v, s) \<Rightarrow> (case onF of None \<Rightarrow> (Fulfilled v, s) | Some f \<Rightarrow> f v s)
      | (Rejected v, s) \<Rightarrow> (case onR of None \<Rightarrow> (Rejected v, s) | Some f \<Rightarrow> f v s))"

lemma promise_then_simps [simp]:
  "promise_then onF onR (Pending, s) = (Pending, s)"
  "promise_then (Some f) onR (Fulfilled v, s) = f v s"
  "promise_then None onR (Fulfilled v, s) = (Fulfilled v, s)"
  "promise_then onF (Some g) (Rejected v, s) = g v s"
  "promise_then onF None (Rejected v, s) = (Rejected v, s)"
  by (simp_all add: promise_then_def)

end
