(* ===== verification/Json.thy ===== *)
theory Json
  imports Js
begin

text \<open>
  \<open>JSON.stringify\<close> and \<open>JSON.parse\<close>, through which the front end sends its requests, reads the
  answers and keeps the login in \<open>localStorage\<close>. \<open>stringify\<close> gives \<open>None\<close> where JavaScript gives
  \<open>undefined\<close>. \<open>parse_json\<close> accepts the JSON grammar; a number with a fraction or an exponent,
  which no answer of the server holds, is the error \<open>NotInteger\<close> (\<open>jsval\<close> has integers only).
  The main facts: parsing gives back what was stringified, and the fuel of the parser, the
  length of its input, is always enough.
\<close>

section \<open>JSON.stringify\<close>

definition hex_digit :: "nat \<Rightarrow> char" where
  "hex_digit n = ''0123456789abcdef'' ! n"

definition quote_char :: "char \<Rightarrow> string" where
  "quote_char c =
     (if c = CHR 0x22 then [CHR 0x5C, CHR 0x22]
      else if c = CHR 0x5C then [CHR 0x5C, CHR 0x5C]
      else if c = CHR 0x08 then [CHR 0x5C, CHR ''b'']
      else if c = CHR 0x0C then [CHR 0x5C, CHR ''f'']
      else if c = CHR 0x0A then [CHR 0x5C, CHR ''n'']
      else if c = CHR 0x0D then [CHR 0x5C, CHR ''r'']
      else if c = CHR 0x09 then [CHR 0x5C, CHR ''t'']
      else if (of_char c :: nat) < 32 then
        [CHR 0x5C, CHR ''u'', CHR ''0'', CHR ''0'',
         hex_digit (of_char c div 16), hex_digit (of_char c mod 16)]
      else [c])"

definition quote_json :: "string \<Rightarrow> string" where
  "quote_json s = CHR 0x22 # concat (map quote_char s) @ [CHR 0x22]"

fun stringify :: "jsval \<Rightarrow> string option" where
  "stringify JUndef = None"
| "stringify JNull = Some ''null''"
| "stringify (JBool b) = Some (if b then ''true'' else ''false'')"
| "stringify (JNum n) = Some (FormatInt n)"
| "stringify (JStr s) = Some (quote_json s)"
| "stringify (JArr vs) =
     Some (''['' @ join_with '',''
       (map (\<lambda>v. case stringify v of None \<Rightarrow> ''null'' | Some t \<Rightarrow> t) vs) @ '']'')"
| "stringify (JObj es) =
     Some (''{'' @ join_with '',''
       (concat (map (\<lambda>(k, v). case stringify v of None \<Rightarrow> [] | Some t \<Rightarrow> [quote_json k @ '':'' @ t]) es))
       @ ''}'')"

section \<open>JSON.parse\<close>

datatype json_error = SyntaxError | NotInteger

definition hex_val :: "char \<Rightarrow> nat option" where
  "hex_val c =
     (let n = of_char c :: nat
      in if 48 \<le> n \<and> n \<le> 57 then Some (n - 48)
         else if 97 \<le> n \<and> n \<le> 102 then Some (n - 87)
         else if 65 \<le> n \<and> n \<le> 70 then Some (n - 55)
         else None)"

definition hex4 :: "string \<Rightarrow> nat option" where
  "hex4 s =
     (case map hex_val (take 4 s) of
        [Some a, Some b, Some c, Some d] \<Rightarrow> Some (((a * 16 + b) * 16 + c) * 16 + d)
      | _ \<Rightarrow> None)"

text \<open>The UTF-8 form of a code point (a lone surrogate is kept as its three bytes).\<close>

definition utf8 :: "nat \<Rightarrow> string" where
  "utf8 u =
     (if u < 128 then [char_of u]
      else if u < 2048 then [char_of (192 + u div 64), char_of (128 + u mod 64)]
      else if u < 65536 then
        [char_of (224 + u div 4096), char_of (128 + u div 64 mod 64), char_of (128 + u mod 64)]
      else [char_of (240 + u div 262144), char_of (128 + u div 4096 mod 64),
            char_of (128 + u div 64 mod 64), char_of (128 + u mod 64)])"

definition simple_escape :: "char \<Rightarrow> char option" where
  "simple_escape e =
     (if e = CHR 0x22 \<or> e = CHR 0x5C \<or> e = CHR ''/'' then Some e
      else if e = CHR ''b'' then Some (CHR 0x08)
      else if e = CHR ''f'' then Some (CHR 0x0C)
      else if e = CHR ''n'' then Some (CHR 0x0A)
      else if e = CHR ''r'' then Some (CHR 0x0D)
      else if e = CHR ''t'' then Some (CHR 0x09)
      else None)"

definition prepend :: "string \<Rightarrow> (json_error + string \<times> string) \<Rightarrow> json_error + string \<times> string" where
  "prepend p r = (case r of Inl e \<Rightarrow> Inl e | Inr (s, rest) \<Rightarrow> Inr (p @ s, rest))"

definition low_surrogate :: "string \<Rightarrow> nat option" where
  "low_surrogate s =
     (case s of
        a # b # s' \<Rightarrow>
          (if a = CHR 0x5C \<and> b = CHR ''u'' then
             case hex4 s' of
               Some l \<Rightarrow> if 56320 \<le> l \<and> l < 57344 then Some (l - 56320) else None
             | None \<Rightarrow> None
           else None)
      | _ \<Rightarrow> None)"

text \<open>The characters of a string after its opening quote, up to and with the closing one.\<close>

fun parse_chars :: "string \<Rightarrow> json_error + string \<times> string" where
  "parse_chars [] = Inl SyntaxError"
| "parse_chars (c # cs) =
     (if c = CHR 0x22 then Inr ([], cs)
      else if c = CHR 0x5C then
        (case cs of
           [] \<Rightarrow> Inl SyntaxError
         | e # ds \<Rightarrow>
             (case simple_escape e of
                Some x \<Rightarrow> prepend [x] (parse_chars ds)
              | None \<Rightarrow>
                  if e \<noteq> CHR ''u'' then Inl SyntaxError
                  else (case hex4 ds of
                          None \<Rightarrow> Inl SyntaxError
                        | Some u \<Rightarrow>
                            (case (if 55296 \<le> u \<and> u < 56320 then low_surrogate (drop 4 ds) else None) of
                               Some l \<Rightarrow>
                                 prepend (utf8 (65536 + (u - 55296) * 1024 + l)) (parse_chars (drop 10 ds))
                             | None \<Rightarrow> prepend (utf8 u) (parse_chars (drop 4 ds))))))
      else if (of_char c :: nat) < 32 then Inl SyntaxError
      else prepend [c] (parse_chars cs))"

definition is_ws :: "char \<Rightarrow> bool" where
  "is_ws c \<longleftrightarrow> c = CHR '' '' \<or> c = CHR 0x09 \<or> c = CHR 0x0A \<or> c = CHR 0x0D"

definition skip_ws :: "string \<Rightarrow> string" where
  "skip_ws s = dropWhile is_ws s"

fun digits_value :: "nat \<Rightarrow> string \<Rightarrow> nat" where
  "digits_value acc [] = acc"
| "digits_value acc (c # cs) =
     (case digit_val c of None \<Rightarrow> acc | Some d \<Rightarrow> digits_value (acc * 10 + d) cs)"

text \<open>A number: no leading zero before another digit; a fraction or an exponent is refused.\<close>

definition parse_number :: "bool \<Rightarrow> string \<Rightarrow> json_error + jsval \<times> string" where
  "parse_number neg s =
     (let ds = takeWhile is_digit s; rest = dropWhile is_digit s
      in if ds = [] \<or> (hd ds = CHR ''0'' \<and> length ds > 1) then Inl SyntaxError
         else if rest \<noteq> [] \<and> hd rest \<in> {CHR ''.'', CHR ''e'', CHR ''E''} then Inl NotInteger
         else Inr (JNum (if neg then - int (digits_value 0 ds) else int (digits_value 0 ds)), rest))"

definition literal :: "string \<Rightarrow> jsval \<Rightarrow> string \<Rightarrow> json_error + jsval \<times> string" where
  "literal w v s = (if starts_with w s then Inr (v, drop (length w) s) else Inl SyntaxError)"

fun parse_value :: "nat \<Rightarrow> string \<Rightarrow> json_error + jsval \<times> string"
  and parse_elems :: "nat \<Rightarrow> string \<Rightarrow> json_error + jsval list \<times> string"
  and parse_members :: "nat \<Rightarrow> jsprops \<Rightarrow> string \<Rightarrow> json_error + jsprops \<times> string" where
  "parse_value 0 s = Inl SyntaxError"
| "parse_value (Suc n) s =
     (case skip_ws s of
        [] \<Rightarrow> Inl SyntaxError
      | c # cs \<Rightarrow>
          if c = CHR ''n'' then literal ''null'' JNull (c # cs)
          else if c = CHR ''t'' then literal ''true'' (JBool True) (c # cs)
          else if c = CHR ''f'' then literal ''false'' (JBool False) (c # cs)
          else if c = CHR 0x22 then
            (case parse_chars cs of Inl e \<Rightarrow> Inl e | Inr (t, rest) \<Rightarrow> Inr (JStr t, rest))
          else if c = CHR ''['' then
            (case skip_ws cs of
               [] \<Rightarrow> Inl SyntaxError
             | d # ds \<Rightarrow>
                 if d = CHR '']'' then Inr (JArr [], ds)
                 else (case parse_elems n (d # ds) of
                         Inl e \<Rightarrow> Inl e | Inr (vs, rest) \<Rightarrow> Inr (JArr vs, rest)))
          else if c = CHR ''{'' then
            (case skip_ws cs of
               [] \<Rightarrow> Inl SyntaxError
             | d # ds \<Rightarrow>
                 if d = CHR ''}'' then Inr (JObj [], ds)
                 else (case parse_members n [] (d # ds) of
                         Inl e \<Rightarrow> Inl e | Inr (es, rest) \<Rightarrow> Inr (JObj es, rest)))
          else if c = CHR ''-'' then parse_number True cs
          else parse_number False (c # cs))"
| "parse_elems 0 s = Inl SyntaxError"
| "parse_elems (Suc n) s =
     (case parse_value n s of
        Inl e \<Rightarrow> Inl e
      | Inr (v, rest) \<Rightarrow>
          (case skip_ws rest of
             [] \<Rightarrow> Inl SyntaxError
           | c # cs \<Rightarrow>
               if c = CHR '']'' then Inr ([v], cs)
               else if c = CHR '','' then
                 (case parse_elems n cs of Inl e \<Rightarrow> Inl e | Inr (vs, r) \<Rightarrow> Inr (v # vs, r))
               else Inl SyntaxError))"
| "parse_members 0 acc s = Inl SyntaxError"
| "parse_members (Suc n) acc s =
     (case skip_ws s of
        [] \<Rightarrow> Inl SyntaxError
      | c # cs \<Rightarrow>
          if c \<noteq> CHR 0x22 then Inl SyntaxError
          else
            (case parse_chars cs of
               Inl e \<Rightarrow> Inl e
             | Inr (k, r1) \<Rightarrow>
                 (case skip_ws r1 of
                    [] \<Rightarrow> Inl SyntaxError
                  | d # ds \<Rightarrow>
                      if d \<noteq> CHR '':'' then Inl SyntaxError
                      else
                        (case parse_value n ds of
                           Inl e \<Rightarrow> Inl e
                         | Inr (v, r2) \<Rightarrow>
                             (case skip_ws r2 of
                                [] \<Rightarrow> Inl SyntaxError
                              | x # xs \<Rightarrow>
                                  if x = CHR ''}'' then Inr (prop_set acc k v, xs)
                                  else if x = CHR '','' then parse_members n (prop_set acc k v) xs
                                  else Inl SyntaxError)))))"

definition parse_json :: "string \<Rightarrow> json_error + jsval" where
  "parse_json s =
     (case parse_value (length s + 1) s of
        Inl e \<Rightarrow> Inl e
      | Inr (v, rest) \<Rightarrow> if skip_ws rest = [] then Inr v else Inl SyntaxError)"

section \<open>Parsing what was stringified\<close>

fun plain_json :: "jsval \<Rightarrow> bool" where
  "plain_json JUndef \<longleftrightarrow> False"
| "plain_json (JArr vs) \<longleftrightarrow> list_all plain_json vs"
| "plain_json (JObj es) \<longleftrightarrow> distinct (map fst es) \<and> list_all (\<lambda>(k, v). plain_json v) es"
| "plain_json v \<longleftrightarrow> True"

lemma less_16_cases: "(d::nat) < 16 \<Longrightarrow> d \<in> {0, 1, 2, 3, 4, 5, 6, 7, 8, 9, 10, 11, 12, 13, 14, 15}"
  by (simp, presburger)

lemma hex_val_digit [simp]: "d < 16 \<Longrightarrow> hex_val (hex_digit d) = Some d"
  by (drule less_16_cases) (auto simp: hex_val_def hex_digit_def)

lemma hex_val_0 [simp]: "hex_val (CHR ''0'') = Some 0"
  by (simp add: hex_val_def)

lemma hex4_00: "n < 256 \<Longrightarrow>
  hex4 (CHR ''0'' # CHR ''0'' # hex_digit (n div 16) # hex_digit (n mod 16) # r) = Some n"
proof -
  assume "n < 256"
  then have "hex_val (hex_digit (n div 16)) = Some (n div 16)"
    by (intro hex_val_digit) (simp add: less_mult_imp_div_less)
  moreover have "hex_val (hex_digit (n mod 16)) = Some (n mod 16)" by simp
  ultimately show ?thesis by (simp add: hex4_def)
qed

lemma simple_escape_u: "simple_escape (CHR ''u'') = None"
  by (simp add: simple_escape_def)

lemma parse_chars_quote: "parse_chars (quote_char c @ r) = prepend [c] (parse_chars r)"
proof (cases "c \<in> {CHR 0x22, CHR 0x5C, CHR 0x08, CHR 0x0C, CHR 0x0A, CHR 0x0D, CHR 0x09}")
  case True
  then show ?thesis by (auto simp: quote_char_def simple_escape_def)
next
  case False
  show ?thesis
  proof (cases "(of_char c :: nat) < 32")
    case True
    let ?n = "of_char c :: nat"
    have h: "hex4 (CHR ''0'' # CHR ''0'' # hex_digit (?n div 16) # hex_digit (?n mod 16) # r) = Some ?n"
      using True by (intro hex4_00) simp
    have q: "quote_char c = [CHR 0x5C, CHR ''u'', CHR ''0'', CHR ''0'', hex_digit (?n div 16), hex_digit (?n mod 16)]"
      using False True by (simp add: quote_char_def)
    have u: "utf8 ?n = [c]" using True by (simp add: utf8_def)
    show ?thesis using True by (simp add: q h u simple_escape_u)
  next
    case nc: False
    then show ?thesis using False by (simp add: quote_char_def)
  qed
qed

lemma parse_chars_quoted:
  "parse_chars (concat (map quote_char s) @ CHR 0x22 # rest) = Inr (s, rest)"
  by (induction s) (simp_all add: parse_chars_quote prepend_def del: parse_chars.simps(2),
      simp)

lemma digits_value_append:
  "list_all is_digit xs \<Longrightarrow> digits_value a (xs @ ys) = digits_value (digits_value a xs) ys"
  by (induction xs arbitrary: a) (auto simp: is_digit_def)

lemma digits_value_decimal: "digits_value 0 (nat_decimal n) = n"
proof (induction n rule: nat_decimal.induct)
  case (1 n)
  have d: "list_all is_digit (nat_decimal (n div 10))"
    by (auto simp: list_all_iff dest: nat_decimal_digits)
  show ?case
    using 1 by (subst nat_decimal.simps) (auto simp: digits_value_append [OF d])
qed

lemma nat_decimal_no_zero: "n \<noteq> 0 \<Longrightarrow> hd (nat_decimal n) \<noteq> CHR ''0''"
proof (induction n rule: nat_decimal.induct)
  case (1 n)
  show ?case
  proof (cases "n < 10")
    case True
    then show ?thesis using "1.prems" less_10_cases [OF True]
      by (subst nat_decimal.simps) (auto simp: digit_char_def)
  next
    case False
    then show ?thesis using 1 by (subst nat_decimal.simps) (simp add: hd_append)
  qed
qed

definition value_end :: "string \<Rightarrow> bool" where
  "value_end rest \<longleftrightarrow> rest = [] \<or> hd rest \<in> {CHR '','', CHR '']'', CHR ''}''}"

lemma value_end_Cons [simp]:
  "value_end (CHR '','' # r)" "value_end (CHR '']'' # r)" "value_end (CHR ''}'' # r)" "value_end []"
  by (auto simp: value_end_def)

lemma is_digit_neq:
  "is_digit c \<Longrightarrow> c \<notin> {CHR '','', CHR '']'', CHR ''}'', CHR ''['', CHR ''{'', CHR ''-'', CHR ''n'', CHR ''t'',
     CHR ''f'', CHR 0x22, CHR '' '', CHR 0x09, CHR 0x0A, CHR 0x0D}"
  by (auto simp: is_digit_def digit_val_def)

lemma value_end_digits:
  assumes "value_end rest" "list_all is_digit ds"
  shows "takeWhile is_digit (ds @ rest) = ds" "dropWhile is_digit (ds @ rest) = rest"
proof -
  have "rest = [] \<or> \<not> is_digit (hd rest)"
    using assms(1) is_digit_neq [of "hd rest"] by (auto simp: value_end_def)
  then have r: "takeWhile is_digit rest = [] \<and> dropWhile is_digit rest = rest" by (cases rest) auto
  show "takeWhile is_digit (ds @ rest) = ds" using assms(2) r by (induction ds) auto
  show "dropWhile is_digit (ds @ rest) = rest" using assms(2) r by (induction ds) auto
qed

lemma parse_number_decimal:
  assumes "value_end rest"
  shows "parse_number neg (nat_decimal n @ rest) = Inr (JNum (if neg then - int n else int n), rest)"
proof -
  have d: "list_all is_digit (nat_decimal n)" by (auto simp: list_all_iff dest: nat_decimal_digits)
  have z: "\<not> (hd (nat_decimal n) = CHR ''0'' \<and> 1 < length (nat_decimal n))"
    using nat_decimal_no_zero [of n] by (cases "n = 0") (simp_all add: nat_decimal.simps)
  have e: "\<not> (rest \<noteq> [] \<and> hd rest \<in> {CHR ''.'', CHR ''e'', CHR ''E''})"
    using assms by (auto simp: value_end_def)
  show ?thesis
    using z e by (simp add: parse_number_def Let_def value_end_digits [OF assms d] digits_value_decimal)
qed

lemma skip_ws_Cons [simp]: "\<not> is_ws c \<Longrightarrow> skip_ws (c # cs) = c # cs"
  by (simp add: skip_ws_def)

lemma is_ws_simps [simp]:
  "\<not> is_ws (CHR '','')" "\<not> is_ws (CHR '']'')" "\<not> is_ws (CHR ''}'')" "\<not> is_ws (CHR ''['')"
  "\<not> is_ws (CHR ''{'')" "\<not> is_ws (CHR ''-'')" "\<not> is_ws (CHR ''n'')" "\<not> is_ws (CHR ''t'')"
  "\<not> is_ws (CHR ''f'')" "\<not> is_ws (CHR '':'')" "\<not> is_ws (CHR 0x22)"
  by (simp_all add: is_ws_def)

lemma is_digit_no_ws [simp]: "is_digit c \<Longrightarrow> \<not> is_ws c"
  using is_digit_neq [of c] by (simp add: is_ws_def)

declare parse_value.simps [simp del] parse_elems.simps [simp del] parse_members.simps [simp del]

lemma parse_value_word [simp]:
  "parse_value (Suc n) (CHR ''n'' # cs) = literal ''null'' JNull (CHR ''n'' # cs)"
  "parse_value (Suc n) (CHR ''t'' # cs) = literal ''true'' (JBool True) (CHR ''t'' # cs)"
  "parse_value (Suc n) (CHR ''f'' # cs) = literal ''false'' (JBool False) (CHR ''f'' # cs)"
  by (simp_all add: parse_value.simps)

lemma parse_value_quote:
  "parse_value (Suc n) (quote_json s @ rest) = Inr (JStr s, rest)"
  by (simp add: parse_value.simps quote_json_def parse_chars_quoted)

lemma parse_value_minus [simp]:
  "parse_value (Suc n) (CHR ''-'' # cs) = parse_number True cs"
  by (simp add: parse_value.simps)

lemma parse_value_digit:
  assumes "is_digit c"
  shows "parse_value (Suc n) (c # cs) = parse_number False (c # cs)"
proof -
  have "skip_ws (c # cs) = c # cs" using assms by simp
  moreover have "c \<noteq> CHR ''[''" "c \<noteq> CHR ''{''" "c \<noteq> CHR ''-''" "c \<noteq> CHR ''n''" "c \<noteq> CHR ''t''"
      "c \<noteq> CHR ''f''" "c \<noteq> CHR 0x22"
    using is_digit_neq [OF assms] by simp_all
  ultimately show ?thesis by (simp only: parse_value.simps list.case if_False)
qed

lemma parse_value_array:
  assumes "skip_ws cs = d # ds"
  shows "parse_value (Suc n) (CHR ''['' # cs) =
    (if d = CHR '']'' then Inr (JArr [], ds)
     else (case parse_elems n (d # ds) of Inl e \<Rightarrow> Inl e | Inr (vs, rest) \<Rightarrow> Inr (JArr vs, rest)))"
  using assms by (simp add: parse_value.simps)

lemma parse_value_object:
  assumes "skip_ws cs = d # ds"
  shows "parse_value (Suc n) (CHR ''{'' # cs) =
    (if d = CHR ''}'' then Inr (JObj [], ds)
     else (case parse_members n [] (d # ds) of Inl e \<Rightarrow> Inl e | Inr (es, rest) \<Rightarrow> Inr (JObj es, rest)))"
  using assms by (simp add: parse_value.simps)

lemma parse_FormatInt:
  assumes "value_end rest"
  shows "parse_value (Suc n) (FormatInt i @ rest) = Inr (JNum i, rest)"
proof (cases "i < 0")
  case True
  then show ?thesis by (simp add: FormatInt_def parse_number_decimal [OF assms])
next
  case False
  obtain c cs where c: "nat_decimal (nat i) = c # cs"
    by (cases "nat_decimal (nat i)") auto
  have "is_digit c" using nat_decimal_hd [of "nat i"] c by simp
  from parse_value_digit [OF this, of n "cs @ rest"]
  have "parse_value (Suc n) (nat_decimal (nat i) @ rest) = parse_number False (nat_decimal (nat i) @ rest)"
    by (simp add: c)
  then show ?thesis using False by (simp add: FormatInt_def parse_number_decimal [OF assms])
qed


lemma parse_elems_Suc:
  assumes "parse_value n s = Inr (v, c # cs)" "\<not> is_ws c"
  shows "parse_elems (Suc n) s =
    (if c = CHR '']'' then Inr ([v], cs)
     else if c = CHR '','' then
       (case parse_elems n cs of Inl e \<Rightarrow> Inl e | Inr (vs, r) \<Rightarrow> Inr (v # vs, r))
     else Inl SyntaxError)"
  using assms by (simp add: parse_elems.simps)

lemma parse_members_Suc:
  assumes "parse_value n s = Inr (v, c # cs)" "\<not> is_ws c"
  shows "parse_members (Suc n) acc (quote_json k @ CHR '':'' # s) =
    (if c = CHR ''}'' then Inr (prop_set acc k v, cs)
     else if c = CHR '','' then parse_members n (prop_set acc k v) cs
     else Inl SyntaxError)"
  using assms by (simp add: parse_members.simps quote_json_def parse_chars_quoted)

lemma FormatInt_hd: "\<exists>c cs. FormatInt i = c # cs \<and> (is_digit c \<or> c = CHR ''-'')"
proof (cases "i < 0")
  case False
  then show ?thesis using nat_decimal_hd [of "nat i"]
    by (cases "nat_decimal (nat i)") (auto simp: FormatInt_def)
qed (simp add: FormatInt_def)

lemma stringify_hd:
  assumes "stringify v = Some t"
  shows "\<exists>c cs. t = c # cs \<and> \<not> is_ws c \<and> c \<noteq> CHR '']''"
proof (cases v)
  case (JNum i)
  obtain c cs where c: "FormatInt i = c # cs" "is_digit c \<or> c = CHR ''-''" using FormatInt_hd by blast
  then have "\<not> is_ws c \<and> c \<noteq> CHR '']''" using is_digit_neq [of c] by auto
  moreover have "t = c # cs" using assms JNum c(1) by simp
  ultimately show ?thesis by blast
next
  case JNull
  then show ?thesis using assms [symmetric] by simp
next
  case (JBool b)
  then show ?thesis using assms [symmetric] by (cases b) simp_all
next
  case (JStr s)
  then show ?thesis using assms [symmetric] by (simp add: quote_json_def)
next
  case (JArr vs)
  then show ?thesis using assms [symmetric] by simp
next
  case (JObj es)
  then show ?thesis using assms [symmetric] by simp
qed (use assms in simp)

lemma plain_stringify: "plain_json v \<Longrightarrow> \<exists>t. stringify v = Some t"
  by (cases v) auto

text \<open>The texts of an array and of an object's members, for values that all have one.\<close>

definition text_of :: "jsval \<Rightarrow> string" where
  "text_of v = the (stringify v)"

lemma stringify_array:
  "list_all plain_json vs \<Longrightarrow> stringify (JArr vs) = Some (''['' @ join_with '','' (map text_of vs) @ '']'')"
proof -
  assume "list_all plain_json vs"
  then have "map (\<lambda>v. case stringify v of None \<Rightarrow> ''null'' | Some t \<Rightarrow> t) vs = map text_of vs"
    by (induction vs) (auto simp: text_of_def dest!: plain_stringify)
  then show ?thesis by (simp only: stringify.simps)
qed

lemma stringify_object:
  "list_all (\<lambda>(k, v). plain_json v) es \<Longrightarrow>
   stringify (JObj es) = Some (''{'' @ join_with '','' (map (\<lambda>(k, v). quote_json k @ CHR '':'' # text_of v) es) @ ''}'')"
proof -
  assume "list_all (\<lambda>(k, v). plain_json v) es"
  then have "concat (map (\<lambda>(k, v). case stringify v of None \<Rightarrow> [] | Some t \<Rightarrow> [quote_json k @ '':'' @ t]) es)
    = map (\<lambda>(k, v). quote_json k @ CHR '':'' # text_of v) es"
    by (induction es) (auto simp: text_of_def dest!: plain_stringify)
  then show ?thesis by (simp only: stringify.simps)
qed

definition reads :: "jsval \<Rightarrow> bool" where
  "reads v \<longleftrightarrow> (\<forall>n rest. length (text_of v) \<le> n \<longrightarrow> value_end rest \<longrightarrow>
     parse_value n (text_of v @ rest) = Inr (v, rest))"

lemma parse_elems_join:
  assumes "vs \<noteq> []" "\<forall>v\<in>set vs. reads v"
    "length (join_with '','' (map text_of vs)) < n"
  shows "parse_elems n (join_with '','' (map text_of vs) @ CHR '']'' # rest) = Inr (vs, rest)"
  using assms
proof (induction vs arbitrary: n)
  case (Cons v vs)
  then obtain m where n: "n = Suc m" by (cases n) auto
  show ?case
  proof (cases vs)
    case Nil
    then have "parse_value m (text_of v @ CHR '']'' # rest) = Inr (v, CHR '']'' # rest)"
      using Cons.prems n by (simp add: reads_def)
    then show ?thesis using Nil n by (simp add: parse_elems_Suc)
  next
    case (Cons w ws)
    let ?r = "join_with '','' (map text_of vs) @ CHR '']'' # rest"
    have "parse_value m (text_of v @ CHR '','' # ?r) = Inr (v, CHR '','' # ?r)"
      using Cons.prems n Cons by (simp add: reads_def)
    moreover have "parse_elems m ?r = Inr (vs, rest)"
      by (rule Cons.IH) (use Cons.prems n Cons in auto)
    ultimately show ?thesis using n Cons by (simp add: parse_elems_Suc)
  qed
qed simp

lemma parse_members_join:
  assumes "es \<noteq> []" "\<forall>(k, v)\<in>set es. reads v"
    "length (join_with '','' (map (\<lambda>(k, v). quote_json k @ CHR '':'' # text_of v) es)) < n"
    "distinct (map fst (acc @ es))"
  shows "parse_members n acc (join_with '','' (map (\<lambda>(k, v). quote_json k @ CHR '':'' # text_of v) es) @ CHR ''}'' # rest)
    = Inr (acc @ es, rest)"
  using assms
proof (induction es arbitrary: n acc)
  case (Cons e es)
  obtain k v where e: "e = (k, v)" by (cases e)
  obtain m where n: "n = Suc m" using Cons.prems(3) by (cases n) auto
  have fresh: "prop_set acc k v = acc @ [(k, v)]"
    using Cons.prems(4) e by (intro prop_set_fresh) auto
  show ?case
  proof (cases es)
    case Nil
    then have "parse_value m (text_of v @ CHR ''}'' # rest) = Inr (v, CHR ''}'' # rest)"
      using Cons.prems n e by (simp add: reads_def)
    then show ?thesis using Nil n e by (simp add: parse_members_Suc fresh)
  next
    case (Cons f fs)
    let ?r = "join_with '','' (map (\<lambda>(k, v). quote_json k @ CHR '':'' # text_of v) es) @ CHR ''}'' # rest"
    have "parse_value m (text_of v @ CHR '','' # ?r) = Inr (v, CHR '','' # ?r)"
      using Cons.prems n e Cons by (simp add: reads_def)
    moreover have "parse_members m (acc @ [(k, v)]) ?r = Inr ((acc @ [(k, v)]) @ es, rest)"
      by (rule Cons.IH) (use Cons.prems n e Cons in auto)
    ultimately show ?thesis using n e Cons by (simp add: parse_members_Suc fresh)
  qed
qed simp

lemma reads_array:
  assumes "list_all plain_json vs" "\<forall>v\<in>set vs. reads v"
  shows "reads (JArr vs)"
  unfolding reads_def
proof (intro allI impI)
  fix n rest assume n: "length (text_of (JArr vs)) \<le> n" and "value_end rest"
  have t: "text_of (JArr vs) = CHR ''['' # join_with '','' (map text_of vs) @ [CHR '']'']"
    using stringify_array [OF assms(1)] by (simp add: text_of_def)
  then obtain m where m: "n = Suc m" using n by (cases n) auto
  show "parse_value n (text_of (JArr vs) @ rest) = Inr (JArr vs, rest)"
  proof (cases vs)
    case Nil
    then show ?thesis using t m by (simp add: parse_value_array)
  next
    case (Cons v ws)
    have "plain_json v" using assms(1) Cons by simp
    then obtain c cs where c: "text_of v = c # cs" "\<not> is_ws c" "c \<noteq> CHR '']''"
      using plain_stringify stringify_hd by (fastforce simp: text_of_def)
    let ?s = "join_with '','' (map text_of vs) @ CHR '']'' # rest"
    obtain ds where ds: "?s = c # ds" using Cons c(1) by (cases ws) auto
    then have "skip_ws ?s = c # ds" using c(2) by simp
    moreover have "parse_elems m ?s = Inr (vs, rest)"
      by (rule parse_elems_join) (use assms Cons t n m in auto)
    ultimately show ?thesis using t m c(3) ds by (simp add: parse_value_array)
  qed
qed

lemma reads_object:
  assumes "list_all (\<lambda>(k, v). plain_json v) es" "\<forall>(k, v)\<in>set es. reads v" "distinct (map fst es)"
  shows "reads (JObj es)"
  unfolding reads_def
proof (intro allI impI)
  fix n rest assume n: "length (text_of (JObj es)) \<le> n" and "value_end rest"
  let ?j = "join_with '','' (map (\<lambda>(k, v). quote_json k @ CHR '':'' # text_of v) es)"
  have t: "text_of (JObj es) = CHR ''{'' # ?j @ [CHR ''}'']"
    using stringify_object [OF assms(1)] by (simp add: text_of_def)
  then obtain m where m: "n = Suc m" using n by (cases n) auto
  show "parse_value n (text_of (JObj es) @ rest) = Inr (JObj es, rest)"
  proof (cases es)
    case Nil
    then show ?thesis using t m by (simp add: parse_value_object)
  next
    case (Cons e fs)
    let ?s = "?j @ CHR ''}'' # rest"
    obtain ds where ds: "?s = CHR 0x22 # ds" using Cons by (cases fs; cases e) (auto simp: quote_json_def)
    then have "skip_ws ?s = CHR 0x22 # ds" by simp
    moreover have "parse_members m [] ?s = Inr ([] @ es, rest)"
      by (rule parse_members_join) (use assms Cons t n m in auto)
    ultimately show ?thesis using t m ds by (simp add: parse_value_object)
  qed
qed

lemma reads_plain: "plain_json v \<Longrightarrow> reads v"
proof (induction v)
  case (JArr vs)
  then show ?case by (intro reads_array) (auto simp: list_all_iff)
next
  case (JObj es)
  then show ?case by (intro reads_object) (auto simp: list_all_iff)
next
  case (JNum i)
  show ?case
    unfolding reads_def
  proof (intro allI impI)
    fix n rest assume "length (text_of (JNum i)) \<le> n" "value_end rest"
    then show "parse_value n (text_of (JNum i) @ rest) = Inr (JNum i, rest)"
      using FormatInt_ne [of i] by (cases n) (auto simp: text_of_def parse_FormatInt simp del: FormatInt_ne)
  qed
next
  case (JStr t)
  show ?case
    unfolding reads_def
  proof (intro allI impI)
    fix n rest assume "length (text_of (JStr t)) \<le> n"
    then show "parse_value n (text_of (JStr t) @ rest) = Inr (JStr t, rest)"
      by (cases n) (simp_all add: text_of_def parse_value_quote, simp add: quote_json_def)
  qed
next
  case (JBool b)
  then show ?case by (auto simp: reads_def text_of_def literal_def Suc_le_eq less_Suc_eq_0_disj gr0_conv_Suc dest!: less_imp_Suc_add)
next
  case JNull
  then show ?case by (auto simp: reads_def text_of_def literal_def Suc_le_eq dest!: less_imp_Suc_add)
qed auto

lemma parse_stringify:
  assumes "plain_json v"
  shows "stringify v = Some (text_of v)" "parse_json (text_of v) = Inr v"
proof -
  obtain t where t: "stringify v = Some t" using plain_stringify [OF assms] by blast
  then show "stringify v = Some (text_of v)" by (simp add: text_of_def)
  have "parse_value (length t + 1) (t @ []) = Inr (v, [])"
    using reads_plain [OF assms] t by (simp add: reads_def text_of_def del: append_Nil2)
  then show "parse_json (text_of v) = Inr v" using t by (simp add: parse_json_def skip_ws_def text_of_def)
qed

end
