(* ===== verification/Url.thy ===== *)
theory Url
  imports Json
begin

text \<open>
  How the front end builds the address of a request (axios's \<open>combineURLs\<close>, \<open>isAbsoluteURL\<close>,
  \<open>buildFullPath\<close> and \<open>buildURL\<close> in \<open>static/js/chunk-vendors\<close>), and how a form-encoded query is
  read back by the server. \<open>encode\<close> percent-encodes with \<open>encodeURIComponent\<close> and then undoes some
  of the escapes with successive replacements; the lemmas show that it works character by
  character all the same, and that a query built by \<open>buildURL\<close> decodes to the parameters.
\<close>

section \<open>Percent encoding\<close>

definition hex_upper :: "nat \<Rightarrow> char" where
  "hex_upper n = ''0123456789ABCDEF'' ! n"

definition alnum :: "char \<Rightarrow> bool" where
  "alnum c \<longleftrightarrow>
     (let n = of_char c :: nat
      in (48 \<le> n \<and> n \<le> 57) \<or> (65 \<le> n \<and> n \<le> 90) \<or> (97 \<le> n \<and> n \<le> 122))"

definition uri_unreserved :: "char \<Rightarrow> bool" where
  "uri_unreserved c \<longleftrightarrow> alnum c \<or> c \<in> set ''-_.!~*()'' \<or> c = CHR 0x27"

definition percent :: "char \<Rightarrow> string" where
  "percent c = [CHR ''%'', hex_upper (of_char c div 16), hex_upper (of_char c mod 16)]"

definition encodeURIComponent :: "string \<Rightarrow> string" where
  "encodeURIComponent s = concat (map (\<lambda>c. if uri_unreserved c then [c] else percent c) s)"

text \<open>\<open>s.replace(/pat/g, rep)\<close>; \<open>ci\<close> is the flag \<open>i\<close>.\<close>

function replace_all :: "bool \<Rightarrow> string \<Rightarrow> string \<Rightarrow> string \<Rightarrow> string" where
  "replace_all ci pat rep [] = []"
| "replace_all ci pat rep (c # cs) =
     (if pat \<noteq> [] \<and> starts_with (if ci then toLowerCase pat else pat)
           (if ci then toLowerCase (c # cs) else c # cs)
      then rep @ replace_all ci pat rep (drop (length pat) (c # cs))
      else c # replace_all ci pat rep cs)"
  by pat_completeness auto
termination
  by (relation "measure (\<lambda>(ci, pat, rep, s). length s)") (auto simp: less_Suc_eq_le neq_Nil_conv)

definition url_encode :: "string \<Rightarrow> string" where
  "url_encode val =
     replace_all True ''%5D'' '']''
      (replace_all True ''%5B'' ''[''
       (replace_all False ''%20'' ''+''
        (replace_all True ''%2C'' '',''
         (replace_all False ''%24'' ''$''
          (replace_all True ''%3A'' '':''
           (replace_all True ''%40'' ''@'' (encodeURIComponent val)))))))"

section \<open>URLs\<close>

fun drop_slashes :: "string \<Rightarrow> string" where
  "drop_slashes [] = []"
| "drop_slashes (c # cs) = (if c = CHR ''/'' then drop_slashes cs else c # cs)"

definition combineURLs :: "string \<Rightarrow> string \<Rightarrow> string" where
  "combineURLs baseURL relativeURL =
     (if relativeURL \<noteq> [] then rev (drop_slashes (rev baseURL)) @ ''/'' @ drop_slashes relativeURL
      else baseURL)"

text \<open>The regular expression \<open>^([a-z][a-z\d\+\-\.]*:)?\/\/\<close> with the flag \<open>i\<close>.\<close>

definition scheme_char :: "char \<Rightarrow> bool" where
  "scheme_char c \<longleftrightarrow> alnum c \<or> c \<in> set ''+-.''"

definition isAbsoluteURL :: "string \<Rightarrow> bool" where
  "isAbsoluteURL url \<longleftrightarrow>
     starts_with ''//'' url \<or>
     (url \<noteq> [] \<and> alnum (hd url) \<and> \<not> is_digit (hd url) \<and>
      starts_with ''://'' (dropWhile scheme_char url))"

definition buildFullPath :: "string option \<Rightarrow> string \<Rightarrow> string" where
  "buildFullPath baseURL requestedURL =
     (case baseURL of
        Some b \<Rightarrow> if b \<noteq> [] \<and> \<not> isAbsoluteURL requestedURL then combineURLs b requestedURL
                  else requestedURL
      | None \<Rightarrow> requestedURL)"

text \<open>
  \<open>buildURL\<close> on a plain object of parameters: \<open>null\<close> and \<open>undefined\<close> are left out, an array gives
  one pair per element under the key \<open>key[]\<close>, an object is sent as JSON. (A \<open>Date\<close> or a
  \<open>URLSearchParams\<close> is no \<open>jsval\<close>.)
\<close>

definition param_text :: "jsval \<Rightarrow> string" where
  "param_text v =
     (case v of
        JArr _ \<Rightarrow> text_of v
      | JObj _ \<Rightarrow> text_of v
      | _ \<Rightarrow> js_string v)"

definition param_parts :: "string \<times> jsval \<Rightarrow> string list" where
  "param_parts p =
     (case p of (key, val) \<Rightarrow>
        (case val of
           JNull \<Rightarrow> []
         | JUndef \<Rightarrow> []
         | JArr vs \<Rightarrow> map (\<lambda>v. url_encode (key @ ''[]'') @ ''='' @ url_encode (param_text v)) vs
         | v \<Rightarrow> [url_encode key @ ''='' @ url_encode (param_text v)]))"

definition buildURL :: "string \<Rightarrow> jsprops option \<Rightarrow> (jsprops \<Rightarrow> string) option \<Rightarrow> string" where
  "buildURL url params paramsSerializer =
     (case params of
        None \<Rightarrow> url
      | Some ps \<Rightarrow>
          (let q = (case paramsSerializer of
                      Some f \<Rightarrow> f ps
                    | None \<Rightarrow> join_with ''&'' (concat (map param_parts ps)))
           in if q = [] then url
              else (let u = takeWhile (\<lambda>c. c \<noteq> CHR ''#'') url
                    in u @ (if CHR ''?'' \<in> set u then ''&'' else ''?'') @ q)))"

section \<open>Encoding character by character\<close>

definition url_encode_char :: "char \<Rightarrow> string" where
  "url_encode_char c =
     (if c = CHR '' '' then ''+''
      else if uri_unreserved c \<or> c \<in> set ''@:$,[]'' then [c]
      else percent c)"

text \<open>The pieces \<open>encodeURIComponent\<close> and the replacements work on: a plain character or an escape.\<close>

definition piece :: "string \<Rightarrow> bool" where
  "piece t \<longleftrightarrow>
     (\<exists>c. t = [c] \<and> c \<noteq> CHR ''%'') \<or>
     (\<exists>a b. t = [CHR ''%'', a, b] \<and> a \<noteq> CHR ''%'' \<and> b \<noteq> CHR ''%'')"

lemma starts_with_escape:
  assumes "piece t" "\<forall>u\<in>set ts. piece u" "length pat = 3" "hd pat = CHR ''%''"
  shows "starts_with (if ci then toLowerCase pat else pat)
      (if ci then toLowerCase (concat (t # ts)) else concat (t # ts)) \<longleftrightarrow>
    (if ci then toLowerCase t = toLowerCase pat else t = pat)"
proof -
  obtain x y where p: "pat = [CHR ''%'', x, y]"
    using assms(3,4) by (cases pat; cases "tl pat"; cases "tl (tl pat)") auto
  have l: "lower_char (CHR ''%'') = CHR ''%''" by (simp add: lower_char_def)
  have li: "lower_char c = CHR ''%'' \<Longrightarrow> c = CHR ''%''" for c
    by (auto simp: lower_char_def Let_def split: if_splits dest!: arg_cong [where f = "of_char :: char \<Rightarrow> nat"])
  show ?thesis using assms(1) p l li
    by (auto simp: piece_def toLowerCase_def)
qed

definition swap :: "bool \<Rightarrow> string \<Rightarrow> string \<Rightarrow> string \<Rightarrow> string" where
  "swap ci pat rep t = (if (if ci then toLowerCase t = toLowerCase pat else t = pat) then rep else t)"

lemma not_escape_start:
  "\<lbrakk>a \<noteq> CHR ''%''; hd pat = CHR ''%''; pat \<noteq> []\<rbrakk> \<Longrightarrow>
   \<not> starts_with (if ci then toLowerCase pat else pat) (if ci then toLowerCase (a # cs) else a # cs)"
proof -
  assume a: "a \<noteq> CHR ''%''" and "hd pat = CHR ''%''" "pat \<noteq> []"
  then obtain ps where p: "pat = CHR ''%'' # ps" by (cases pat) auto
  have l: "lower_char (CHR ''%'') = CHR ''%''" by (simp add: lower_char_def)
  have "lower_char a \<noteq> CHR ''%''" using a
    by (auto simp: lower_char_def Let_def split: if_splits dest!: arg_cong [where f = "of_char :: char \<Rightarrow> nat"])
  then show ?thesis using a p l by (simp add: toLowerCase_def)
qed

declare replace_all.simps(2) [simp del]

lemma replace_all_skip:
  "\<lbrakk>a \<noteq> CHR ''%''; hd pat = CHR ''%''; pat \<noteq> []\<rbrakk> \<Longrightarrow>
   replace_all ci pat rep (a # cs) = a # replace_all ci pat rep cs"
  by (simp only: replace_all.simps not_escape_start if_False simp_thms)

lemma replace_all_pieces:
  assumes "length pat = 3" "hd pat = CHR ''%''" "\<forall>t\<in>set ts. piece t"
  shows "replace_all ci pat rep (concat ts) = concat (map (swap ci pat rep) ts)"
  using assms(3)
proof (induction ts)
  case (Cons t ts)
  have ne: "pat \<noteq> []" using assms(1) by auto
  have t: "piece t" and ts: "\<forall>u\<in>set ts. piece u" using Cons.prems by auto
  have tne: "t \<noteq> []" using t by (auto simp: piece_def)
  then obtain c cs where cc: "concat (t # ts) = c # cs" by (cases t) auto
  note st = starts_with_escape [OF t ts assms(1,2), where ci = ci]
  show ?case
  proof (cases "if ci then toLowerCase t = toLowerCase pat else t = pat")
    case True
    then have "length t = 3" using assms(1)
      by (auto simp: toLowerCase_def split: if_splits dest: arg_cong [where f = length])
    then have d: "drop (length pat) (concat (t # ts)) = concat ts" using assms(1) by simp
    moreover have "swap ci pat rep t = rep" unfolding swap_def using True by (rule if_P)
    moreover have "replace_all ci pat rep (c # cs) = rep @ replace_all ci pat rep (drop (length pat) (c # cs))"
      unfolding replace_all.simps(2)
      using True st ne unfolding cc by (intro if_P) (cases ci; simp only: if_True if_False simp_thms)
    ultimately have "replace_all ci pat rep (c # cs) = rep @ replace_all ci pat rep (concat ts)"
      "swap ci pat rep t = rep" using d [unfolded cc] by simp_all
    then show ?thesis using Cons.IH [OF ts] cc by simp
  next
    case False
    have sw: "swap ci pat rep t = t" unfolding swap_def using False by (rule if_not_P)
    have step: "replace_all ci pat rep (c # cs) = c # replace_all ci pat rep cs"
      using False st by (simp only: cc replace_all.simps if_False simp_thms)
    from t consider (plain) x where "t = [x]" | (esc) a b where "t = [CHR ''%'', a, b]" "a \<noteq> CHR ''%''" "b \<noteq> CHR ''%''"
      by (auto simp: piece_def)
    then show ?thesis
    proof cases
      case plain
      then have "c = x" "cs = concat ts" using cc by auto
      then show ?thesis using cc step sw plain Cons.IH [OF ts] by simp
    next
      case esc
      then have "c = CHR ''%''" "cs = a # b # concat ts" using cc by auto
      then show ?thesis using cc step sw esc Cons.IH [OF ts] assms(2) ne
        by (simp add: replace_all_skip)
    qed
  qed
qed simp

lemma swap_piece: "\<lbrakk>piece t; piece rep\<rbrakk> \<Longrightarrow> piece (swap ci pat rep t)"
  by (simp add: swap_def)

lemma piece_single [simp]: "c \<noteq> CHR ''%'' \<Longrightarrow> piece [c]"
  by (simp add: piece_def)

definition uri_piece :: "char \<Rightarrow> string" where
  "uri_piece c = (if uri_unreserved c then [c] else percent c)"

lemma hex_val_upper [simp]:
  "d < 16 \<Longrightarrow> hex_val (hex_upper d) = Some d"
  "d < 16 \<Longrightarrow> hex_val (lower_char (hex_upper d)) = Some d"
  by (drule less_16_cases, auto simp: hex_val_def hex_upper_def lower_char_def)+

lemma hex_val_percent: "hex_val (CHR ''%'') = None"
  by (simp add: hex_val_def)

lemma char_div_mod: "(of_char c :: nat) div 16 < 16" "(of_char c :: nat) mod 16 < 16"
  "char_of (16 * (of_char c div 16) + of_char c mod 16 :: nat) = c"
proof -
  have "(of_char c :: nat) < 16 * 16" by simp
  then show "(of_char c :: nat) div 16 < 16" by (rule less_mult_imp_div_less)
qed simp_all

lemma percent_eq: "percent c = percent d \<longleftrightarrow> c = d"
  "toLowerCase (percent c) = toLowerCase (percent d) \<longleftrightarrow> c = d"
proof -
  have div: "(of_char c :: nat) div 16 = of_char d div 16"
    if "hex_upper (of_char c div 16) = hex_upper (of_char d div 16)
      \<or> lower_char (hex_upper (of_char c div 16)) = lower_char (hex_upper (of_char d div 16))"
    using that char_div_mod [of c] char_div_mod [of d] by (metis hex_val_upper option.inject)
  have mod: "(of_char c :: nat) mod 16 = of_char d mod 16"
    if "hex_upper (of_char c mod 16) = hex_upper (of_char d mod 16)
      \<or> lower_char (hex_upper (of_char c mod 16)) = lower_char (hex_upper (of_char d mod 16))"
    using that char_div_mod [of c] char_div_mod [of d] by (metis hex_val_upper option.inject)
  have eq: "(of_char c :: nat) div 16 = of_char d div 16 \<Longrightarrow> (of_char c :: nat) mod 16 = of_char d mod 16 \<Longrightarrow> c = d"
    using char_div_mod(3) [of c] char_div_mod(3) [of d] by metis
  show "percent c = percent d \<longleftrightarrow> c = d"
    using div mod eq by (auto simp: percent_def)
  show "toLowerCase (percent c) = toLowerCase (percent d) \<longleftrightarrow> c = d"
    using div mod eq by (auto simp: percent_def toLowerCase_def)
qed

lemma swap_percent: "swap ci (percent d) rep (percent c) = (if c = d then rep else percent c)"
  by (simp add: swap_def percent_eq)

lemma swap_single: "swap ci (percent d) rep [x] = [x]"
  by (simp add: swap_def percent_def toLowerCase_def)

lemma escapes_percent:
  "''%5D'' = percent (CHR '']'')" "''%5B'' = percent (CHR ''['')" "''%20'' = percent (CHR '' '')"
  "''%2C'' = percent (CHR '','')" "''%24'' = percent (CHR ''$'')" "''%3A'' = percent (CHR '':'')"
  "''%40'' = percent (CHR ''@'')"
  by (simp_all add: percent_def hex_upper_def)

lemma hex_upper_neq: "d < 16 \<Longrightarrow> hex_upper d \<noteq> CHR ''%''"
  using hex_val_upper(1) [of d] hex_val_percent by force

lemma piece_percent [simp]: "piece (percent c)"
  using char_div_mod [of c] by (auto simp: piece_def percent_def hex_upper_neq)

lemma not_unreserved: "\<not> uri_unreserved (CHR ''%'')" "\<not> uri_unreserved (CHR '' '')"
  by (simp_all add: uri_unreserved_def alnum_def)

lemma piece_uri: "piece (uri_piece c)"
  using not_unreserved(1) by (auto simp: uri_piece_def intro!: piece_single)

lemma escapes_undone:
  "swap True ''%5D'' '']'' (swap True ''%5B'' ''['' (swap False ''%20'' ''+'' (swap True ''%2C'' '',''
    (swap False ''%24'' ''$'' (swap True ''%3A'' '':'' (swap True ''%40'' ''@'' (uri_piece c))))))) = url_encode_char c"
  using not_unreserved unfolding escapes_percent
  by (cases "c \<in> set ''@:$,[] ''")
    (auto simp: uri_piece_def url_encode_char_def swap_percent swap_single uri_unreserved_def alnum_def)

lemma url_encode_chars: "url_encode s = concat (map url_encode_char s)"
proof -
  have enc: "encodeURIComponent s = concat (map uri_piece s)"
    by (simp add: encodeURIComponent_def uri_piece_def [abs_def])
  have r: "\<lbrakk>\<forall>c\<in>set s. piece (f c); length pat = 3; hd pat = CHR ''%''\<rbrakk> \<Longrightarrow>
     replace_all ci pat rep (concat (map f s)) = concat (map (\<lambda>c. swap ci pat rep (f c)) s)" for f ci pat rep
    using replace_all_pieces [of pat "map f s" ci rep] by (simp add: o_def)
  show ?thesis
    by (simp add: url_encode_def enc r swap_piece piece_uri escapes_undone)
qed

section \<open>Reading a query back\<close>

text \<open>
  \<open>url.ParseQuery\<close> of Go's \<open>net/url\<close>, as the server reads the query: pairs separated by \<open>&\<close>, key and
  value by the first \<open>=\<close>, each unescaped with \<open>+\<close> for a space; a pair that does not unescape or
  holds a semicolon is dropped.
\<close>

fun query_unescape :: "string \<Rightarrow> string option" where
  "query_unescape [] = Some []"
| "query_unescape (c # cs) =
     (if c = CHR ''%'' then
        (case cs of
           a # b # ds \<Rightarrow>
             (case (hex_val a, hex_val b) of
                (Some x, Some y) \<Rightarrow> map_option (Cons (char_of (16 * x + y))) (query_unescape ds)
              | _ \<Rightarrow> None)
         | _ \<Rightarrow> None)
      else map_option (Cons (if c = CHR ''+'' then CHR '' '' else c)) (query_unescape cs))"

definition query_pair :: "string \<Rightarrow> (string \<times> string) list" where
  "query_pair s =
     (if s = [] \<or> CHR '';'' \<in> set s then []
      else let k = takeWhile (\<lambda>c. c \<noteq> CHR ''='') s; v = tl (dropWhile (\<lambda>c. c \<noteq> CHR ''='') s)
           in case (query_unescape k, query_unescape v) of
                (Some k', Some v') \<Rightarrow> [(k', v')]
              | _ \<Rightarrow> [])"

definition ParseQuery :: "string \<Rightarrow> (string \<times> string) list" where
  "ParseQuery q = concat (map query_pair (split_on (CHR ''&'') q))"

lemma query_unescape_char:
  "query_unescape (url_encode_char c @ s) = map_option (Cons c) (query_unescape s)"
proof -
  have p: "query_unescape (percent c @ s) = map_option (Cons c) (query_unescape s)"
    using char_div_mod [of c] by (simp add: percent_def)
  show ?thesis using not_unreserved p
    by (cases "c = CHR ''%''"; cases "c = CHR ''+''")
      (auto simp: url_encode_char_def uri_unreserved_def alnum_def)
qed

lemma query_unescape_encode: "query_unescape (url_encode s) = Some s"
  by (simp add: url_encode_chars) (induction s, simp_all add: query_unescape_char)

lemma set_percent: "set (percent c) \<subseteq> insert (CHR ''%'') (hex_upper ` {..<16})"
  using char_div_mod(1,2) [of c] by (simp add: percent_def)

lemma url_encode_safe: "c \<in> set (url_encode s) \<Longrightarrow> c \<notin> set ''&=;#?''"
proof -
  assume "c \<in> set (url_encode s)"
  then obtain d where "c \<in> set (url_encode_char d)" by (auto simp: url_encode_chars)
  then consider "c \<in> set ''+@:$,[]''" | "uri_unreserved c" | "c \<in> set (percent d)"
    by (auto simp: url_encode_char_def split: if_splits)
  then have "c \<in> set ''+@:$,[]'' \<or> uri_unreserved c \<or> c = CHR ''%'' \<or> (\<exists>n<16. c = hex_upper n)"
    using set_percent [of d] by cases auto
  moreover have "n < 16 \<Longrightarrow> hex_upper n \<notin> set ''&=;#?''" for n
    by (drule less_16_cases) (auto simp: hex_upper_def)
  moreover have "uri_unreserved c \<Longrightarrow> c \<notin> set ''&=;#?''"
    by (auto simp: uri_unreserved_def alnum_def)
  ultimately show ?thesis by auto
qed

lemma query_pair_encode:
  "query_pair (url_encode k @ ''='' @ url_encode v) = [(k, v)]"
proof -
  have k: "CHR ''='' \<notin> set (url_encode k)" and s: "CHR '';'' \<notin> set (url_encode k) \<union> set (url_encode v)"
    using url_encode_safe [of _ k] url_encode_safe [of _ v] by auto
  have "takeWhile (\<lambda>c. c \<noteq> CHR ''='') (url_encode k @ ''='' @ url_encode v) = url_encode k"
    "dropWhile (\<lambda>c. c \<noteq> CHR ''='') (url_encode k @ ''='' @ url_encode v) = ''='' @ url_encode v"
    using k by (simp_all add: takeWhile_append takeWhile_eq_all_conv dropWhile_append)
  then show ?thesis using s by (simp add: query_pair_def query_unescape_encode)
qed

text \<open>The pairs the server is meant to read from a parameter object.\<close>

definition param_pairs :: "string \<times> jsval \<Rightarrow> (string \<times> string) list" where
  "param_pairs p =
     (case p of (key, val) \<Rightarrow>
        (case val of
           JNull \<Rightarrow> []
         | JUndef \<Rightarrow> []
         | JArr vs \<Rightarrow> map (\<lambda>v. (key @ ''[]'', param_text v)) vs
         | v \<Rightarrow> [(key, param_text v)]))"

lemma query_pairs_part: "concat (map query_pair (param_parts p)) = param_pairs p"
proof -
  have "concat (map (query_pair \<circ> (\<lambda>v. url_encode k @ CHR ''='' # url_encode (param_text v))) vs)
      = map (\<lambda>v. (k, param_text v)) vs" for k vs
    using query_pair_encode by (induction vs) auto
  then show ?thesis using query_pair_encode
    by (auto simp: param_parts_def param_pairs_def split: prod.split jsval.split)
qed

lemma pair_safe: "c \<in> set (url_encode k @ ''='' @ url_encode v) \<Longrightarrow> c \<notin> set ''&;#?''"
  using url_encode_safe [of c k] url_encode_safe [of c v] by auto

lemma param_parts_shape:
  "t \<in> set (param_parts p) \<Longrightarrow> \<exists>k v. t = url_encode k @ ''='' @ url_encode v"
  by (cases p; cases "snd p") (auto simp: param_parts_def)

lemma part_safe: "t \<in> set (param_parts p) \<Longrightarrow> CHR ''&'' \<notin> set t"
  using param_parts_shape pair_safe [of "CHR ''&''"] by fastforce

lemma ParseQuery_parts:
  "ParseQuery (join_with ''&'' (concat (map param_parts ps))) = concat (map param_pairs ps)"
proof (cases "concat (map param_parts ps) = []")
  case True
  have "concat (map param_pairs ps) = concat (map query_pair (concat (map param_parts ps)))"
    using query_pairs_part by (induction ps) auto
  then show ?thesis unfolding True by (simp add: ParseQuery_def query_pair_def)
next
  case False
  have "split_on (CHR ''&'') (join_with ''&'' (concat (map param_parts ps))) = concat (map param_parts ps)"
    by (rule split_join [OF False]) (auto dest: part_safe)
  then have "ParseQuery (join_with ''&'' (concat (map param_parts ps)))
      = concat (map query_pair (concat (map param_parts ps)))" by (simp add: ParseQuery_def)
  also have "\<dots> = concat (map param_pairs ps)"
    using query_pairs_part by (induction ps) auto
  finally show ?thesis .
qed

text \<open>
  C38: a server that splits the URL of \<open>buildURL\<close> at the first question mark reads the path it
  was built on and exactly the parameters given, whatever characters are in them: \<open>null\<close> and
  \<open>undefined\<close> left out, one \<open>key[]\<close> per element of an array.
\<close>

theorem buildURL_roundtrip:
  assumes "CHR ''?'' \<notin> set path" "CHR ''#'' \<notin> set path" "buildURL path (Some ps) None = url"
  shows "takeWhile (\<lambda>c. c \<noteq> CHR ''?'') url = path \<and>
    ParseQuery (tl (dropWhile (\<lambda>c. c \<noteq> CHR ''?'') url)) = concat (map param_pairs ps)"
proof -
  let ?q = "join_with ''&'' (concat (map param_parts ps))"
  have t: "takeWhile (\<lambda>c. c \<noteq> CHR ''#'') path = path"
    using assms(2) by (auto simp: takeWhile_eq_all_conv)
  have url: "url = (if ?q = [] then path else path @ ''?'' @ ?q)"
    using assms(1) by (simp add: assms(3) [symmetric] buildURL_def Let_def t)
  have "takeWhile (\<lambda>c. c \<noteq> CHR ''?'') (path @ r) = path @ takeWhile (\<lambda>c. c \<noteq> CHR ''?'') r"
    "dropWhile (\<lambda>c. c \<noteq> CHR ''?'') (path @ r) = dropWhile (\<lambda>c. c \<noteq> CHR ''?'') r" for r
    using assms(1) by (auto simp: takeWhile_append dropWhile_append)
  note tw = this
  show ?thesis
  proof (cases "?q = []")
    case True
    have p: "dropWhile (\<lambda>c. c \<noteq> CHR ''?'') path = []" "takeWhile (\<lambda>c. c \<noteq> CHR ''?'') path = path"
      using tw [of "[]"] by simp_all
    have "ParseQuery [] = concat (map param_pairs ps)" using ParseQuery_parts [of ps] True by simp
    then show ?thesis using True by (simp add: url p)
  next
    case False
    then show ?thesis using tw [of "''?'' @ ?q"] ParseQuery_parts [of ps] by (simp add: url)
  qed
qed

theorem buildURL_roundtrip_witness:
  "\<exists>url. url = buildURL ''/api/v1/posts2'' (Some [(''order'', JStr ''a&b=c'')]) None \<and>
    takeWhile (\<lambda>c. c \<noteq> CHR ''?'') url = ''/api/v1/posts2'' \<and>
    ParseQuery (tl (dropWhile (\<lambda>c. c \<noteq> CHR ''?'') url)) = [(''order'', ''a&b=c'')]"
  using buildURL_roundtrip [OF _ _ refl, of "''/api/v1/posts2''" "[(''order'', JStr ''a&b=c'')]"]
  by (simp add: param_pairs_def param_text_def)

end
