(* ===== verification/Axios.thy ===== *)
theory Axios
  imports Url
begin

text \<open>
  The HTTP client of the front end, axios 0.19 in \<open>static/js/chunk-vendors\<close>: merging of
  configurations and headers, the interceptor manager, \<open>Axios.request\<close> with its chain of promise
  handlers, \<open>dispatchRequest\<close> with the transformations of data and headers, and the adapter over
  \<open>XMLHttpRequest\<close>. The browser (what the network answers, the cookies, the page's origin and
  the cancel tokens) is a parameter of the definitions. Not modelled: the \<open>auth\<close>, \<open>proxy\<close>,
  \<open>responseType\<close> and progress options and custom adapters, which the front end does not use, and
  request bodies other than text and JSON.
\<close>

section \<open>Merging objects\<close>

fun enumerate_props :: "nat \<Rightarrow> jsval list \<Rightarrow> jsprops" where
  "enumerate_props i [] = []"
| "enumerate_props i (v # vs) = (nat_decimal i, v) # enumerate_props (Suc i) vs"

text \<open>The pairs \<open>utils.forEach\<close> visits.\<close>

fun each_prop :: "jsval \<Rightarrow> jsprops" where
  "each_prop JUndef = []"
| "each_prop JNull = []"
| "each_prop (JObj es) = es"
| "each_prop (JArr vs) = enumerate_props 0 vs"
| "each_prop v = [(''0'', v)]"

fun typeof_object :: "jsval \<Rightarrow> bool" where
  "typeof_object JNull \<longleftrightarrow> True"
| "typeof_object (JArr _) \<longleftrightarrow> True"
| "typeof_object (JObj _) \<longleftrightarrow> True"
| "typeof_object _ \<longleftrightarrow> False"

definition isObject :: "jsval \<Rightarrow> bool" where
  "isObject v \<longleftrightarrow> v \<noteq> JNull \<and> typeof_object v"

fun jsize :: "jsval \<Rightarrow> nat" where
  "jsize (JArr vs) = Suc (sum_list (map (\<lambda>v. Suc (jsize v)) vs))"
| "jsize (JObj es) = Suc (sum_list (map (\<lambda>(k, v). Suc (jsize v)) es))"
| "jsize _ = 1"

definition psize :: "jsprops \<Rightarrow> nat" where
  "psize es = sum_list (map (\<lambda>(k, v). Suc (jsize v)) es)"

lemma psize_enumerate: "psize (enumerate_props i vs) = sum_list (map (\<lambda>v. Suc (jsize v)) vs)"
  by (induction i vs rule: enumerate_props.induct) (auto simp: psize_def)

lemma psize_each: "typeof_object v \<Longrightarrow> psize (each_prop v) < jsize v"
  by (cases v) (simp_all add: psize_enumerate, simp_all add: psize_def)

text \<open>
  \<open>utils.merge\<close> and \<open>utils.deepMerge\<close>: the properties are assigned in turn into an object that
  starts empty; where both the property there and the new value are objects they are merged.
  \<open>deepMerge\<close> copies nested objects too (which turns a nested array or \<open>null\<close> into an object).
\<close>

function assign_all :: "jsprops \<Rightarrow> jsprops \<Rightarrow> jsprops" where
  "assign_all r [] = r"
| "assign_all r ((k, v) # es) =
     assign_all
       (prop_set r k
         (if typeof_object (prop_get r k) \<and> typeof_object v
          then JObj (assign_all (each_prop (prop_get r k)) (each_prop v)) else v)) es"
  by pat_completeness auto
termination
proof (relation "measure (\<lambda>(r, es). psize es)")
  fix r :: jsprops and k v es
  assume "typeof_object (prop_get r k) \<and> typeof_object v"
  then show "((each_prop (prop_get r k), each_prop v), (r, (k, v) # es)) \<in> measure (\<lambda>(r, es). psize es)"
    using psize_each [of v] by (simp add: psize_def)
qed (simp_all add: psize_def)

definition merge_objects :: "jsval list \<Rightarrow> jsprops" where
  "merge_objects vs = foldl assign_all [] (map each_prop vs)"

function deep_assign :: "jsprops \<Rightarrow> jsprops \<Rightarrow> jsprops" where
  "deep_assign r [] = r"
| "deep_assign r ((k, v) # es) =
     deep_assign
       (prop_set r k
         (if typeof_object (prop_get r k) \<and> typeof_object v
          then JObj (deep_assign (each_prop (prop_get r k)) (each_prop v))
          else if typeof_object v then JObj (deep_assign [] (each_prop v)) else v)) es"
  by pat_completeness auto
termination
proof (relation "measure (\<lambda>(r, es). psize es)")
  fix r :: jsprops and k v es
  assume "typeof_object (prop_get r k) \<and> typeof_object v"
  then show "((each_prop (prop_get r k), each_prop v), (r, (k, v) # es)) \<in> measure (\<lambda>(r, es). psize es)"
    using psize_each [of v] by (simp add: psize_def)
next
  fix r :: jsprops and k :: string and v es
  assume "typeof_object v"
  then show "(([], each_prop v), (r, (k, v) # es)) \<in> measure (\<lambda>(r, es). psize es)"
    using psize_each [of v] by (simp add: psize_def)
qed (simp_all add: psize_def)

definition deepMerge :: "jsval list \<Rightarrow> jsprops" where
  "deepMerge vs = foldl deep_assign [] (map each_prop vs)"

section \<open>Configurations and promises of a request\<close>

type_synonym transform = "jsval \<Rightarrow> jsprops \<Rightarrow> jsval \<times> jsprops"

text \<open>An option that is \<open>None\<close> is an absent property; \<open>config_validateStatus\<close> may also be \<open>null\<close>
  (\<open>Some None\<close>). A cancel token is a reference the browser resolves.\<close>

record config =
  config_url :: "string option"
  config_method :: "string option"
  config_params :: "jsprops option"
  config_data :: jsval
  config_headers :: jsval
  config_baseURL :: "string option"
  config_transformRequest :: "transform list option"
  config_transformResponse :: "transform list option"
  config_paramsSerializer :: "(jsprops \<Rightarrow> string) option"
  config_timeout :: "int option"
  config_withCredentials :: "bool option"
  config_xsrfCookieName :: "string option"
  config_xsrfHeaderName :: "string option"
  config_validateStatus :: "(int \<Rightarrow> bool) option option"
  config_cancelToken :: "nat option"

record response =
  resp_data :: jsval
  resp_status :: int
  resp_statusText :: string
  resp_headers :: jsprops
  resp_config :: config

text \<open>What the promises of a request carry: the configuration on the way out, the response on the
  way back, any other value an interceptor returns, an error of axios, the reason of a
  cancellation or an exception of the language.\<close>

datatype axios_val =
    AConfig config
  | AResponse response
  | AValue jsval
  | AError string "string option" config "response option"
  | ACancel string
  | AThrown string

definition config_empty :: config where
  "config_empty =
     \<lparr>config_url = None, config_method = None, config_params = None, config_data = JUndef,
      config_headers = JUndef, config_baseURL = None, config_transformRequest = None,
      config_transformResponse = None, config_paramsSerializer = None, config_timeout = None,
      config_withCredentials = None, config_xsrfCookieName = None, config_xsrfHeaderName = None,
      config_validateStatus = None, config_cancelToken = None\<rparr>"

definition pick :: "'a option \<Rightarrow> 'a option \<Rightarrow> 'a option" where
  "pick a b = (case b of None \<Rightarrow> a | Some _ \<Rightarrow> b)"

definition mergeConfig :: "config \<Rightarrow> config \<Rightarrow> config" where
  "mergeConfig config1 config2 =
     \<lparr>config_url = pick (config_url config1) (config_url config2),
      config_method = config_method config2,
      config_params = config_params config2,
      config_data = config_data config2,
      config_headers =
        (if isObject (config_headers config2)
         then JObj (deepMerge [config_headers config1, config_headers config2])
         else if config_headers config2 \<noteq> JUndef then config_headers config2
         else if isObject (config_headers config1) then JObj (deepMerge [config_headers config1])
         else config_headers config1),
      config_baseURL = pick (config_baseURL config1) (config_baseURL config2),
      config_transformRequest =
        pick (config_transformRequest config1) (config_transformRequest config2),
      config_transformResponse =
        pick (config_transformResponse config1) (config_transformResponse config2),
      config_paramsSerializer =
        pick (config_paramsSerializer config1) (config_paramsSerializer config2),
      config_timeout = pick (config_timeout config1) (config_timeout config2),
      config_withCredentials =
        pick (config_withCredentials config1) (config_withCredentials config2),
      config_xsrfCookieName =
        pick (config_xsrfCookieName config1) (config_xsrfCookieName config2),
      config_xsrfHeaderName =
        pick (config_xsrfHeaderName config1) (config_xsrfHeaderName config2),
      config_validateStatus =
        pick (config_validateStatus config1) (config_validateStatus config2),
      config_cancelToken = pick (config_cancelToken config1) (config_cancelToken config2)\<rparr>"

section \<open>The interceptor manager\<close>

record 's interceptor =
  int_fulfilled :: "(axios_val, 's) handler option"
  int_rejected :: "(axios_val, 's) handler option"

type_synonym 's interceptor_manager = "'s interceptor option list"

definition use_interceptor ::
  "'s interceptor_manager \<Rightarrow> (axios_val, 's) handler option \<Rightarrow> (axios_val, 's) handler option \<Rightarrow>
   's interceptor_manager \<times> nat" where
  "use_interceptor m f r = (m @ [Some \<lparr>int_fulfilled = f, int_rejected = r\<rparr>], length m)"

definition eject_interceptor :: "'s interceptor_manager \<Rightarrow> nat \<Rightarrow> 's interceptor_manager" where
  "eject_interceptor m i = (if i < length m then m[i := None] else m)"

definition active_interceptors :: "'s interceptor_manager \<Rightarrow> 's interceptor list" where
  "active_interceptors m = List.map_filter id m"

section \<open>Sending a request\<close>

text \<open>The request given to the browser and the events its \<open>XMLHttpRequest\<close> object fires.\<close>

record http_request =
  http_method :: string
  http_url :: string
  http_timeout :: int
  http_headers :: "(string \<times> string) list"
  http_credentials :: "bool option"
  http_body :: jsval

datatype xhr_event =
    ReadyState int int string string string string
      \<comment> \<open>readyState, status, responseURL, statusText, response headers, responseText\<close>
  | XAbort | XError | XTimeout
  | XCancelled bool string
      \<comment> \<open>cancelled while it is in flight or not (only then \<open>abort()\<close> fires its event), and the reason\<close>

record 's browser =
  xhr_send :: "http_request \<Rightarrow> 's \<Rightarrow> xhr_event list \<times> 's"
  read_cookie :: "string \<Rightarrow> 's \<Rightarrow> string option"
  same_origin :: "string \<Rightarrow> bool"
  cancel_reason :: "nat \<Rightarrow> 's \<Rightarrow> string option"

definition is_space :: "char \<Rightarrow> bool" where
  "is_space c \<longleftrightarrow> (let n = of_char c :: nat in n = 32 \<or> (9 \<le> n \<and> n \<le> 13))"

definition trim :: "string \<Rightarrow> string" where
  "trim s = rev (dropWhile is_space (rev (dropWhile is_space s)))"

definition ignoreDuplicateOf :: "string list" where
  "ignoreDuplicateOf =
     [''age'', ''authorization'', ''content-length'', ''content-type'', ''etag'', ''expires'',
      ''from'', ''host'', ''if-modified-since'', ''if-unmodified-since'', ''last-modified'',
      ''location'', ''max-forwards'', ''proxy-authorization'', ''referer'', ''retry-after'',
      ''user-agent'']"

definition parse_header_line :: "jsprops \<Rightarrow> string \<Rightarrow> jsprops" where
  "parse_header_line parsed line =
     (let found = CHR '':'' \<in> set line;
          key = (if found then toLowerCase (trim (takeWhile (\<lambda>c. c \<noteq> CHR '':'') line)) else []);
          val = trim (if found then tl (dropWhile (\<lambda>c. c \<noteq> CHR '':'') line) else line);
          old = prop_get parsed key
      in if key = [] then parsed
         else if truthy old \<and> key \<in> set ignoreDuplicateOf then parsed
         else if key = ''set-cookie'' then
           prop_set parsed key (case old of JArr vs \<Rightarrow> JArr (vs @ [JStr val]) | _ \<Rightarrow> JArr [JStr val])
         else prop_set parsed key (JStr (if truthy old then js_string old @ '', '' @ val else val)))"

definition parseHeaders :: "string \<Rightarrow> jsprops" where
  "parseHeaders raw = (if raw = [] then [] else foldl parse_header_line [] (split_on (CHR 0x0A) raw))"

definition settle :: "config \<Rightarrow> response \<Rightarrow> axios_val promise" where
  "settle cfg r =
     (case config_validateStatus cfg of
        Some (Some validateStatus) \<Rightarrow>
          if validateStatus (resp_status r) then Fulfilled (AResponse r)
          else Rejected (AError (''Request failed with status code '' @ FormatInt (resp_status r))
                           None cfg (Some r))
      | _ \<Rightarrow> Fulfilled (AResponse r))"

text \<open>
  One event: the promise keeps the first result it is given, and the flag is the adapter's
  variable \<open>request\<close>, set to \<open>null\<close> once a result is there.
\<close>

definition settle_once :: "axios_val promise \<Rightarrow> axios_val promise \<Rightarrow> axios_val promise" where
  "settle_once p q = (case p of Pending \<Rightarrow> q | _ \<Rightarrow> p)"

fun xhr_event_step :: "config \<Rightarrow> axios_val promise \<times> bool \<Rightarrow> xhr_event \<Rightarrow> axios_val promise \<times> bool" where
  "xhr_event_step cfg (p, live) (ReadyState ready status rurl stext raw body) =
     (if \<not> live \<or> ready \<noteq> 4 then (p, live)
      else if status = 0 \<and> \<not> starts_with ''file:'' rurl then (p, live)
      else (settle_once p
              (settle cfg \<lparr>resp_data = JStr body, resp_status = status, resp_statusText = stext,
                 resp_headers = parseHeaders raw, resp_config = cfg\<rparr>), False))"
| "xhr_event_step cfg (p, live) XAbort =
     (if \<not> live then (p, live)
      else (settle_once p (Rejected (AError ''Request aborted'' (Some ''ECONNABORTED'') cfg None)), False))"
| "xhr_event_step cfg (p, live) XError =
     (settle_once p (Rejected (AError ''Network Error'' None cfg None)), False)"
| "xhr_event_step cfg (p, live) XTimeout =
     (settle_once p (Rejected (AError
        (''timeout of '' @ (case config_timeout cfg of None \<Rightarrow> ''undefined'' | Some t \<Rightarrow> FormatInt t)
         @ ''ms exceeded'') (Some ''ECONNABORTED'') cfg None)), False)"
| "xhr_event_step cfg (p, live) (XCancelled in_flight msg) =
     (if \<not> live then (p, live)
      else (let q = (if in_flight then settle_once p (Rejected (AError ''Request aborted'' (Some ''ECONNABORTED'') cfg None)) else p)
            in (settle_once q (Rejected (ACancel msg)), False)))"

definition xsrf_headers :: "'s browser \<Rightarrow> config \<Rightarrow> string \<Rightarrow> jsprops \<Rightarrow> 's \<Rightarrow> jsprops" where
  "xsrf_headers br cfg fullPath hs s =
     (let value = (case config_xsrfCookieName cfg of
                     Some name \<Rightarrow>
                       if (config_withCredentials cfg = Some True \<or> same_origin br fullPath) \<and> name \<noteq> []
                       then read_cookie br name s else None
                   | None \<Rightarrow> None)
      in case value of
           Some v \<Rightarrow>
             if v = [] then hs
             else prop_set hs (case config_xsrfHeaderName cfg of None \<Rightarrow> ''undefined'' | Some h \<Rightarrow> h) (JStr v)
         | None \<Rightarrow> hs)"

definition sent_headers :: "jsval \<Rightarrow> jsprops \<Rightarrow> (string \<times> string) list" where
  "sent_headers body hs =
     map (\<lambda>(k, v). (k, js_string v))
       (filter (\<lambda>(k, _). \<not> (body = JUndef \<and> toLowerCase k = ''content-type'')) hs)"

definition xhr_request :: "'s browser \<Rightarrow> config \<Rightarrow> string \<Rightarrow> 's \<Rightarrow> http_request" where
  "xhr_request br cfg m s =
     (let fullPath = buildFullPath (config_baseURL cfg) (case config_url cfg of None \<Rightarrow> [] | Some u \<Rightarrow> u)
      in \<lparr>http_method = toUpperCase m,
          http_url = buildURL fullPath (config_params cfg) (config_paramsSerializer cfg),
          http_timeout = (case config_timeout cfg of None \<Rightarrow> 0 | Some t \<Rightarrow> t),
          http_headers =
            sent_headers (config_data cfg) (xsrf_headers br cfg fullPath (each_prop (config_headers cfg)) s),
          http_credentials = config_withCredentials cfg,
          http_body = (if config_data cfg = JUndef then JNull else config_data cfg)\<rparr>)"

definition xhrAdapter :: "'s browser \<Rightarrow> config \<Rightarrow> 's \<Rightarrow> axios_val promise \<times> 's" where
  "xhrAdapter br cfg s =
     (case config_method cfg of
        None \<Rightarrow> (Rejected (AThrown ''TypeError''), s)
      | Some m \<Rightarrow>
          (case xhr_send br (xhr_request br cfg m s) s of
             (events, s') \<Rightarrow> (fst (foldl (xhr_event_step cfg) (Pending, True) events), s')))"

section \<open>dispatchRequest\<close>

definition transformData :: "jsval \<Rightarrow> jsprops \<Rightarrow> transform list option \<Rightarrow> jsval \<times> jsprops" where
  "transformData data headers fns =
     (case fns of
        None \<Rightarrow> (data, headers)
      | Some fs \<Rightarrow> foldl (\<lambda>(d, h) f. f d h) (data, headers) fs)"

definition throwIfCancellationRequested :: "'s browser \<Rightarrow> config \<Rightarrow> 's \<Rightarrow> string option" where
  "throwIfCancellationRequested br cfg s =
     (case config_cancelToken cfg of None \<Rightarrow> None | Some t \<Rightarrow> cancel_reason br t s)"

definition clean_methods :: "string list" where
  "clean_methods = [''delete'', ''get'', ''head'', ''post'', ''put'', ''patch'', ''common'']"

definition flatten_headers :: "string option \<Rightarrow> jsprops \<Rightarrow> jsprops" where
  "flatten_headers m hs =
     (let own = prop_get hs (case m of None \<Rightarrow> ''undefined'' | Some x \<Rightarrow> x);
          common = prop_get hs ''common'';
          orEmpty = (\<lambda>v. if truthy v then v else JObj [])
      in foldl prop_del (merge_objects [orEmpty common, orEmpty own, JObj hs]) clean_methods)"

definition prepare_request :: "config \<Rightarrow> config" where
  "prepare_request cfg =
     (let hs0 = (if truthy (config_headers cfg) then each_prop (config_headers cfg) else []);
          dh = transformData (config_data cfg) hs0 (config_transformRequest cfg)
      in cfg\<lparr>config_data := fst dh,
             config_headers := JObj (flatten_headers (config_method cfg) (snd dh))\<rparr>)"

definition transform_response :: "config \<Rightarrow> response \<Rightarrow> response" where
  "transform_response cfg r =
     (let dh = transformData (resp_data r) (resp_headers r) (config_transformResponse cfg)
      in r\<lparr>resp_data := fst dh, resp_headers := snd dh\<rparr>)"

definition onAdapterResolution :: "'s browser \<Rightarrow> config \<Rightarrow> (axios_val, 's) handler" where
  "onAdapterResolution br cfg v s =
     (case throwIfCancellationRequested br cfg s of
        Some r \<Rightarrow> (Rejected (ACancel r), s)
      | None \<Rightarrow>
          (case v of
             AResponse r \<Rightarrow> (Fulfilled (AResponse (transform_response cfg r)), s)
           | _ \<Rightarrow> (Fulfilled v, s)))"

definition onAdapterRejection :: "'s browser \<Rightarrow> config \<Rightarrow> (axios_val, 's) handler" where
  "onAdapterRejection br cfg v s =
     (case v of
        ACancel _ \<Rightarrow> (Rejected v, s)
      | _ \<Rightarrow>
          (case throwIfCancellationRequested br cfg s of
             Some r \<Rightarrow> (Rejected (ACancel r), s)
           | None \<Rightarrow>
               (case v of
                  AError m code c (Some r) \<Rightarrow>
                    (Rejected (AError m code c (Some (transform_response cfg r))), s)
                | _ \<Rightarrow> (Rejected v, s))))"

definition dispatchRequest :: "'s browser \<Rightarrow> (axios_val, 's) handler" where
  "dispatchRequest br v s =
     (case v of
        AConfig cfg \<Rightarrow>
          (case throwIfCancellationRequested br cfg s of
             Some r \<Rightarrow> (Rejected (ACancel r), s)
           | None \<Rightarrow>
               (let cfg' = prepare_request cfg
                in promise_then (Some (onAdapterResolution br cfg')) (Some (onAdapterRejection br cfg'))
                     (xhrAdapter br cfg' s)))
      | _ \<Rightarrow> (Rejected (AThrown ''TypeError''), s))"

section \<open>Axios.request\<close>

record 's axios_instance =
  ax_defaults :: config
  ax_request :: "'s interceptor_manager"
  ax_response :: "'s interceptor_manager"

definition request_config :: "config \<Rightarrow> config \<Rightarrow> config" where
  "request_config defaults config =
     (let cfg = mergeConfig defaults config
      in cfg\<lparr>config_method :=
           Some (case config_method cfg of
                   Some m \<Rightarrow> if m \<noteq> [] then toLowerCase m
                     else (case config_method defaults of Some d \<Rightarrow> if d \<noteq> [] then toLowerCase d else ''get'' | None \<Rightarrow> ''get'')
                 | None \<Rightarrow> (case config_method defaults of Some d \<Rightarrow> if d \<noteq> [] then toLowerCase d else ''get'' | None \<Rightarrow> ''get''))\<rparr>)"

type_synonym 's link = "(axios_val, 's) handler option \<times> (axios_val, 's) handler option"

definition interceptor_link :: "'s interceptor \<Rightarrow> 's link" where
  "interceptor_link i = (int_fulfilled i, int_rejected i)"

definition request_chain :: "'s browser \<Rightarrow> 's axios_instance \<Rightarrow> 's link list" where
  "request_chain br ax =
     foldl (\<lambda>chain i. chain @ [interceptor_link i])
       (foldl (\<lambda>chain i. interceptor_link i # chain) [(Some (dispatchRequest br), None)]
          (active_interceptors (ax_request ax)))
       (active_interceptors (ax_response ax))"

definition run_chain :: "'s link list \<Rightarrow> axios_val promise \<times> 's \<Rightarrow> axios_val promise \<times> 's" where
  "run_chain chain ps = foldl (\<lambda>p (f, r). promise_then f r p) ps chain"

definition axios_request :: "'s browser \<Rightarrow> 's axios_instance \<Rightarrow> config \<Rightarrow> 's \<Rightarrow> axios_val promise \<times> 's" where
  "axios_request br ax config s =
     run_chain (request_chain br ax) (Fulfilled (AConfig (request_config (ax_defaults ax) config)), s)"

section \<open>The default configuration\<close>

definition normalize_one :: "string \<Rightarrow> jsprops \<Rightarrow> string \<times> jsval \<Rightarrow> jsprops" where
  "normalize_one normalizedName hs p =
     (case p of (name, value) \<Rightarrow>
        if name \<noteq> normalizedName \<and> toUpperCase name = toUpperCase normalizedName
        then prop_del (prop_set hs normalizedName value) name else hs)"

definition normalizeHeaderName :: "jsprops \<Rightarrow> string \<Rightarrow> jsprops" where
  "normalizeHeaderName headers normalizedName = foldl (normalize_one normalizedName) headers headers"

definition setContentTypeIfUnset :: "jsprops \<Rightarrow> string \<Rightarrow> jsprops" where
  "setContentTypeIfUnset headers value =
     (if prop_get headers ''Content-Type'' = JUndef then prop_set headers ''Content-Type'' (JStr value)
      else headers)"

definition default_transformRequest :: transform where
  "default_transformRequest data headers =
     (let hs = normalizeHeaderName (normalizeHeaderName headers ''Accept'') ''Content-Type''
      in if isObject data
         then (JStr (text_of data), setContentTypeIfUnset hs ''application/json;charset=utf-8'')
         else (data, hs))"

definition default_transformResponse :: transform where
  "default_transformResponse data headers =
     (case data of
        JStr t \<Rightarrow> (case parse_json t of Inr v \<Rightarrow> v | Inl _ \<Rightarrow> data, headers)
      | _ \<Rightarrow> (data, headers))"

definition form_content_type :: jsval where
  "form_content_type = JObj [(''Content-Type'', JStr ''application/x-www-form-urlencoded'')]"

definition axios_defaults :: config where
  "axios_defaults = config_empty
     \<lparr>config_transformRequest := Some [default_transformRequest],
      config_transformResponse := Some [default_transformResponse],
      config_timeout := Some 0,
      config_xsrfCookieName := Some ''XSRF-TOKEN'',
      config_xsrfHeaderName := Some ''X-XSRF-TOKEN'',
      config_validateStatus := Some (Some (\<lambda>status. 200 \<le> status \<and> status < 300)),
      config_headers :=
        JObj [(''common'', JObj [(''Accept'', JStr ''application/json, text/plain, */*'')]),
              (''delete'', JObj []), (''get'', JObj []), (''head'', JObj []),
              (''post'', form_content_type), (''put'', form_content_type),
              (''patch'', form_content_type)]\<rparr>"

section \<open>What the chain and the adapter do\<close>

lemma fold_unshift: "foldl (\<lambda>c i. f i # c) acc xs = map f (rev xs) @ acc"
  by (induction xs arbitrary: acc) auto

lemma fold_push: "foldl (\<lambda>c i. c @ [f i]) acc xs = acc @ map f xs"
  by (induction xs arbitrary: acc) auto

lemma run_chain_append: "run_chain (a @ b) ps = run_chain b (run_chain a ps)"
  by (simp add: run_chain_def)

lemma run_chain_Cons [simp]: "run_chain ((f, r) # c) ps = run_chain c (promise_then f r ps)"
  by (simp add: run_chain_def)

lemma run_chain_Nil [simp]: "run_chain [] ps = ps"
  by (simp add: run_chain_def)

lemma request_chain_links:
  "request_chain br ax =
     map interceptor_link (rev (active_interceptors (ax_request ax)))
     @ (Some (dispatchRequest br), None) # map interceptor_link (active_interceptors (ax_response ax))"
  by (simp add: request_chain_def fold_unshift fold_push)

text \<open>
  C39: a request runs in three phases: the request interceptors that were not ejected, the last
  registered first; then the dispatch, which is skipped (so nothing is sent) when the first phase
  rejects; then the response interceptors in the order they were registered.
\<close>

theorem axios_request_phases:
  "axios_request br ax config s =
     run_chain (map interceptor_link (active_interceptors (ax_response ax)))
       (case run_chain (map interceptor_link (rev (active_interceptors (ax_request ax))))
               (Fulfilled (AConfig (request_config (ax_defaults ax) config)), s) of
          (Fulfilled v, s') \<Rightarrow> dispatchRequest br v s'
        | (p, s') \<Rightarrow> (p, s'))"
proof -
  have "promise_then (Some (dispatchRequest br)) None ps =
      (case ps of (Fulfilled v, s') \<Rightarrow> dispatchRequest br v s' | (p, s') \<Rightarrow> (p, s'))" for ps
    by (cases ps; cases "fst ps") auto
  then show ?thesis by (simp add: axios_request_def request_chain_links run_chain_append)
qed

text \<open>The first event that decides a request, and what it decides.\<close>

fun decisive :: "xhr_event \<Rightarrow> bool" where
  "decisive (ReadyState ready status rurl stext raw body) \<longleftrightarrow>
     ready = 4 \<and> (status \<noteq> 0 \<or> starts_with ''file:'' rurl)"
| "decisive _ \<longleftrightarrow> True"

fun event_outcome :: "config \<Rightarrow> xhr_event \<Rightarrow> axios_val promise" where
  "event_outcome cfg (ReadyState ready status rurl stext raw body) =
     settle cfg \<lparr>resp_data = JStr body, resp_status = status, resp_statusText = stext,
       resp_headers = parseHeaders raw, resp_config = cfg\<rparr>"
| "event_outcome cfg XAbort = Rejected (AError ''Request aborted'' (Some ''ECONNABORTED'') cfg None)"
| "event_outcome cfg XError = Rejected (AError ''Network Error'' None cfg None)"
| "event_outcome cfg XTimeout = Rejected (AError
     (''timeout of '' @ (case config_timeout cfg of None \<Rightarrow> ''undefined'' | Some t \<Rightarrow> FormatInt t)
      @ ''ms exceeded'') (Some ''ECONNABORTED'') cfg None)"
| "event_outcome cfg (XCancelled in_flight m) =
     Rejected (if in_flight then AError ''Request aborted'' (Some ''ECONNABORTED'') cfg None else ACancel m)"

lemma settle_settles: "settle cfg r \<noteq> Pending"
  by (auto simp: settle_def split: option.splits)

lemma event_outcome_settles: "event_outcome cfg e \<noteq> Pending"
  by (cases e) (auto simp: settle_settles)

lemma xhr_step_pending:
  "xhr_event_step cfg (Pending, True) e =
     (if decisive e then (event_outcome cfg e, False) else (Pending, True))"
  by (cases e) (auto simp: settle_once_def Let_def)

lemma xhr_step_settled: "p \<noteq> Pending \<Longrightarrow> xhr_event_step cfg (p, False) e = (p, False)"
  by (cases e; cases p) (auto simp: settle_once_def Let_def)

lemma xhr_settled: "p \<noteq> Pending \<Longrightarrow> foldl (xhr_event_step cfg) (p, False) es = (p, False)"
  by (induction es) (auto simp: xhr_step_settled)

lemma xhr_events_first:
  "fst (foldl (xhr_event_step cfg) (Pending, True) es) =
     (case List.find decisive es of None \<Rightarrow> Pending | Some e \<Rightarrow> event_outcome cfg e)"
  by (induction es) (auto simp: xhr_step_pending xhr_settled event_outcome_settles)

text \<open>
  C40: the adapter's promise is decided by the first event of the \<open>XMLHttpRequest\<close> that carries a
  result (a complete answer whose status is not 0, an error, an abort, a timeout, a cancellation);
  later events never change it, and without one it stays pending.
\<close>

theorem xhrAdapter_first_event:
  assumes "config_method cfg = Some m" "xhr_send br (xhr_request br cfg m s) s = (events, s')"
  shows "xhrAdapter br cfg s =
    (case List.find decisive events of None \<Rightarrow> Pending | Some e \<Rightarrow> event_outcome cfg e, s')"
  using assms by (simp add: xhrAdapter_def xhr_events_first)

theorem xhrAdapter_first_event_witness:
  "xhrAdapter \<lparr>xhr_send = \<lambda>r s. ([ReadyState 4 0 [] [] [] [], XError, XTimeout], s),
      read_cookie = \<lambda>_ _. None, same_origin = \<lambda>_. True, cancel_reason = \<lambda>_ _. None\<rparr>
      (axios_defaults\<lparr>config_method := Some ''get''\<rparr>) ()
    = (Rejected (AError ''Network Error'' None (axios_defaults\<lparr>config_method := Some ''get''\<rparr>) None), ())"
  by (subst xhrAdapter_first_event [where m = "''get''" and events = "[ReadyState 4 0 [] [] [] [], XError, XTimeout]"])
    simp_all

end
