(* ===== verification/Vuex.thy ===== *)
theory Vuex
  imports Js
begin

text \<open>
  The store of the front end, vuex 3.1 in \<open>static/js/chunk-vendors\<close>: the tree of modules with
  their namespaces, the registration of mutations and getters by \<open>installModule\<close>, \<open>commit\<close> with
  its subscribers, and the reading of getters. A handler changes the part of the state its module
  owns (\<open>local.state\<close>, the subtree at the module's path) and may act on the page (\<open>'w\<close>) or throw.
  The main facts: committing an unknown type changes nothing, and a commit changes the state only
  below the paths of the modules that registered the type. Not modelled: actions (the front end
  registers none), modules added after the start, hot reloading, strict mode and the devtools;
  getters are functions of the local and the root state.
\<close>

section \<open>Modules\<close>

type_synonym 'w mutation_fn = "jsval \<Rightarrow> jsval \<Rightarrow> 'w \<Rightarrow> (jsval \<times> 'w) \<times> string option"
  \<comment> \<open>local state, payload, page; the exception thrown, if any\<close>

type_synonym getter_fn = "jsval \<Rightarrow> jsval \<Rightarrow> jsval option"
  \<comment> \<open>local state, root state; \<open>None\<close> when it throws\<close>

datatype 'w raw_module =
  RawModule (raw_state: jsval) (raw_namespaced: bool) (raw_mutations: "(string \<times> 'w mutation_fn) list")
    (raw_getters: "(string \<times> getter_fn) list") (raw_modules: "(string \<times> 'w raw_module) list")

type_synonym module_path = "string list"

record 'w store =
  st_state :: jsval
  st_mutations :: "(string \<times> (module_path \<times> 'w mutation_fn) list) list"
  st_getters :: "(string \<times> module_path \<times> getter_fn) list"
  st_subscribers :: "(nat \<times> (string \<Rightarrow> jsval \<Rightarrow> jsval \<Rightarrow> 'w \<Rightarrow> 'w)) list"
  st_committing :: bool

definition getNestedState :: "jsval \<Rightarrow> module_path \<Rightarrow> jsval" where
  "getNestedState state path =
     foldl (\<lambda>v k. case v of JObj es \<Rightarrow> prop_get es k | _ \<Rightarrow> JUndef) state path"

text \<open>Writing the subtree at a path: what the in-place changes of a handler amount to.\<close>

fun setNestedState :: "jsval \<Rightarrow> module_path \<Rightarrow> jsval \<Rightarrow> jsval" where
  "setNestedState state [] v = v"
| "setNestedState state (k # path) v =
     (case state of
        JObj es \<Rightarrow> JObj (prop_set es k (setNestedState (prop_get es k) path v))
      | _ \<Rightarrow> state)"

definition registerMutation ::
  "'w store \<Rightarrow> string \<Rightarrow> module_path \<Rightarrow> 'w mutation_fn \<Rightarrow> 'w store" where
  "registerMutation st type path h =
     st\<lparr>st_mutations :=
       (case map_of (st_mutations st) type of
          None \<Rightarrow> st_mutations st @ [(type, [(path, h)])]
        | Some _ \<Rightarrow> map (\<lambda>(t, hs). (t, if t = type then hs @ [(path, h)] else hs)) (st_mutations st))\<rparr>"

definition registerGetter ::
  "'w store \<Rightarrow> string \<Rightarrow> module_path \<Rightarrow> getter_fn \<Rightarrow> 'w store" where
  "registerGetter st type path g =
     (case map_of (st_getters st) type of
        Some _ \<Rightarrow> st
      | None \<Rightarrow> st\<lparr>st_getters := st_getters st @ [(type, path, g)]\<rparr>)"

text \<open>\<open>installModule\<close>: the module's state is hung into its parent's, its mutations and getters are
  registered under its namespace, then its children are installed in turn.\<close>

fun installModule :: "'w store \<Rightarrow> string \<Rightarrow> module_path \<Rightarrow> 'w raw_module \<Rightarrow> 'w store" where
  "installModule st namespace path (RawModule state namespaced muts gets mods) =
     (let st1 = (if path = [] then st
                 else st\<lparr>st_state := setNestedState (st_state st) path
                        (if truthy state then state else JObj [])\<rparr>);
          st2 = foldl (\<lambda>s (k, h). registerMutation s (namespace @ k) path h) st1 muts;
          st3 = foldl (\<lambda>s (k, g). registerGetter s (namespace @ k) path g) st2 gets
      in foldl (\<lambda>s (k, m). installModule s
                  (namespace @ (if raw_namespaced m then k @ ''/'' else [])) (path @ [k]) m) st3 mods)"

definition new_Store :: "'w raw_module \<Rightarrow> 'w store" where
  "new_Store options =
     installModule
       \<lparr>st_state = (if truthy (raw_state options) then raw_state options else JObj []),
        st_mutations = [], st_getters = [], st_subscribers = [], st_committing = False\<rparr> [] [] options"

section \<open>Commit\<close>

text \<open>The handlers of one commit, in turn; the first exception ends the loop and leaves the flag
  \<open>_committing\<close> set, as \<open>_withCommit\<close> has no \<open>finally\<close>.\<close>

fun run_handlers ::
  "(module_path \<times> 'w mutation_fn) list \<Rightarrow> jsval \<Rightarrow> jsval \<Rightarrow> 'w \<Rightarrow> (jsval \<times> 'w) \<times> string option" where
  "run_handlers [] payload state w = ((state, w), None)"
| "run_handlers ((path, h) # hs) payload state w =
     (case h (getNestedState state path) payload w of
        ((v, w'), None) \<Rightarrow> run_handlers hs payload (setNestedState state path v) w'
      | ((v, w'), Some e) \<Rightarrow> ((setNestedState state path v, w'), Some e))"

definition commit :: "'w store \<Rightarrow> string \<Rightarrow> jsval \<Rightarrow> 'w \<Rightarrow> ('w store \<times> 'w) \<times> string option" where
  "commit st type payload w =
     (case map_of (st_mutations st) type of
        None \<Rightarrow> ((st, w), None)
      | Some entry \<Rightarrow>
          (case run_handlers entry payload (st_state st) w of
             ((state', w'), Some e) \<Rightarrow> ((st\<lparr>st_state := state', st_committing := True\<rparr>, w'), Some e)
           | ((state', w'), None) \<Rightarrow>
               ((st\<lparr>st_state := state'\<rparr>,
                 foldl (\<lambda>x (_, sub). sub type payload state' x) w' (st_subscribers st)), None)))"

definition subscribe ::
  "'w store \<Rightarrow> nat \<Rightarrow> (string \<Rightarrow> jsval \<Rightarrow> jsval \<Rightarrow> 'w \<Rightarrow> 'w) \<Rightarrow> 'w store" where
  "subscribe st i f =
     (if i \<in> fst ` set (st_subscribers st) then st
      else st\<lparr>st_subscribers := st_subscribers st @ [(i, f)]\<rparr>)"

definition unsubscribe :: "'w store \<Rightarrow> nat \<Rightarrow> 'w store" where
  "unsubscribe st i = st\<lparr>st_subscribers := filter (\<lambda>(j, _). j \<noteq> i) (st_subscribers st)\<rparr>"

definition getter :: "'w store \<Rightarrow> string \<Rightarrow> jsval option" where
  "getter st k =
     (case map_of (st_getters st) k of
        None \<Rightarrow> Some JUndef
      | Some (path, g) \<Rightarrow> g (getNestedState (st_state st) path) (st_state st))"

section \<open>What a commit leaves alone\<close>

fun off_path :: "module_path \<Rightarrow> module_path \<Rightarrow> bool" where
  "off_path [] q \<longleftrightarrow> False"
| "off_path (a # p) [] \<longleftrightarrow> False"
| "off_path (a # p) (b # q) \<longleftrightarrow> a \<noteq> b \<or> off_path p q"

lemma getNested_Nil [simp]: "getNestedState v [] = v"
  by (simp add: getNestedState_def)

lemma getNested_Cons:
  "getNestedState v (k # p) = getNestedState (case v of JObj es \<Rightarrow> prop_get es k | _ \<Rightarrow> JUndef) p"
  by (simp add: getNestedState_def)

lemma getNested_set_other: "off_path p q \<Longrightarrow> getNestedState (setNestedState v p x) q = getNestedState v q"
  by (induction p q arbitrary: v rule: off_path.induct) (auto simp: getNested_Cons split: jsval.split)

lemma run_handlers_frame:
  "\<lbrakk>run_handlers hs payload state w = ((state', w'), r); \<forall>(p, h)\<in>set hs. off_path p q\<rbrakk> \<Longrightarrow>
   getNestedState state' q = getNestedState state q"
proof (induction hs payload state w rule: run_handlers.induct)
  case (2 path h hs payload state w)
  then show ?case
    by (auto simp: getNested_set_other split: prod.splits option.splits)
qed simp

lemma commit_unknown: "map_of (st_mutations st) type = None \<Longrightarrow> commit st type payload w = ((st, w), None)"
  by (simp add: commit_def)

text \<open>
  A commit changes the state only below the modules that registered the mutation: the part
  of the state at any path off all of theirs is as before, also when a handler throws, and the
  registered mutations and getters never change.
\<close>

lemma commit_frame:
  assumes "commit st type payload w = ((st', w'), r)"
    "\<And>entry p h. \<lbrakk>map_of (st_mutations st) type = Some entry; (p, h) \<in> set entry\<rbrakk> \<Longrightarrow> off_path p q"
  shows "getNestedState (st_state st') q = getNestedState (st_state st) q \<and>
    st_mutations st' = st_mutations st \<and> st_getters st' = st_getters st"
proof (cases "map_of (st_mutations st) type")
  case None
  then show ?thesis using assms(1) by (simp add: commit_def)
next
  case (Some entry)
  obtain s1 w1 r1 where r: "run_handlers entry payload (st_state st) w = ((s1, w1), r1)"
    by (metis surj_pair)
  have "getNestedState s1 q = getNestedState (st_state st) q"
    by (rule run_handlers_frame [OF r]) (use assms(2) [OF Some] in auto)
  then show ?thesis using assms(1) Some r by (auto simp: commit_def split: option.splits)
qed

end
