(* ===== verification/VueRouter.thy ===== *)
theory VueRouter
  imports Url
begin

text \<open>
  The router of the front end, vue-router 3.1 in \<open>static/js/chunk-vendors\<close>, in history mode:
  compilation and matching of path patterns (path-to-regexp), normalisation of locations, the
  matcher, and the navigation of \<open>History\<close> and \<open>HTML5History\<close> with its queue of global guards,
  which may call \<open>next\<close> several times and start navigations of their own. A route object has an
  identity, the number of its navigation, as the code compares \<open>pending\<close> with \<open>===\<close>. Nested
  navigations consume fuel: a guard that redirects for ever overflows JavaScript's stack, here
  the flag \<open>h_overflow\<close>. Not modelled: nested, aliased and redirecting routes, guards of
  components and of single routes and asynchronous components (the front end has none), the
  pattern modifiers \<open>? + *\<close> and custom groups, and scrolling.
\<close>

section \<open>Path patterns\<close>

datatype path_token = PLit string | PParam string string char
  \<comment> \<open>name, prefix, delimiter\<close>

definition word_char :: "char \<Rightarrow> bool" where
  "word_char c \<longleftrightarrow> alnum c \<or> c = CHR ''_''"

definition flush :: "string \<Rightarrow> path_token list" where
  "flush acc = (if acc = [] then [] else [PLit acc])"

function parse_path :: "string \<Rightarrow> string \<Rightarrow> path_token list" where
  "parse_path acc [] = flush acc"
| "parse_path acc (c # cs) =
     (let prefixed = (c = CHR ''/'' \<or> c = CHR ''.'') \<and> cs \<noteq> [] \<and> hd cs = CHR '':'';
          rest = (if prefixed then tl cs else cs);
          name = takeWhile word_char rest
      in if (prefixed \<or> c = CHR '':'') \<and> name \<noteq> []
         then flush acc @ PParam name (if prefixed then [c] else []) (if prefixed then c else CHR ''/'')
                # parse_path [] (dropWhile word_char rest)
         else parse_path (acc @ [c]) cs)"
  by pat_completeness auto
termination
proof (relation "measure (\<lambda>(acc, s). length s)")
  fix acc :: string and c and cs :: string and prefixed rest name
  assume "prefixed = ((c = CHR ''/'' \<or> c = CHR ''.'') \<and> cs \<noteq> [] \<and> hd cs = CHR '':'')"
    "rest = (if prefixed then tl cs else cs)"
  then have "length rest \<le> length cs" by (cases cs) auto
  then have "length (dropWhile word_char rest) < Suc (length cs)"
    using length_dropWhile_le [of word_char rest] by linarith
  then show "(([], dropWhile word_char rest), acc, c # cs) \<in> measure (\<lambda>(acc, s). length s)" by simp
qed simp_all

text \<open>\<open>tokensToRegExp\<close> drops a trailing slash of the pattern and allows one in the path.\<close>

definition strip_slash :: "string \<Rightarrow> string" where
  "strip_slash s = (if s \<noteq> [] \<and> last s = CHR ''/'' then butlast s else s)"

definition strip_last :: "path_token list \<Rightarrow> path_token list" where
  "strip_last ts =
     (if ts = [] then ts
      else case last ts of PLit l \<Rightarrow> butlast ts @ [PLit (strip_slash l)] | _ \<Rightarrow> ts)"

fun match_tokens :: "path_token list \<Rightarrow> string \<Rightarrow> string list option"
  and match_param :: "char \<Rightarrow> path_token list \<Rightarrow> string \<Rightarrow> string \<Rightarrow> string list option" where
  "match_tokens [] s = (if s = [] \<or> s = ''/'' then Some [] else None)"
| "match_tokens (PLit l # ts) s =
     (if starts_with (toLowerCase l) (toLowerCase s) then match_tokens ts (drop (length l) s) else None)"
| "match_tokens (PParam name prefix delim # ts) s =
     (if starts_with prefix s then match_param delim ts [] (drop (length prefix) s) else None)"
| "match_param delim ts acc [] = None"
| "match_param delim ts acc (c # cs) =
     (if c = delim then None
      else case match_tokens ts cs of
             Some caps \<Rightarrow> Some ((acc @ [c]) # caps)
           | None \<Rightarrow> match_param delim ts (acc @ [c]) cs)"

fun token_names :: "path_token list \<Rightarrow> string list" where
  "token_names [] = []"
| "token_names (PLit l # ts) = token_names ts"
| "token_names (PParam name prefix delim # ts) = name # token_names ts"

section \<open>Encoding of URLs\<close>

definition uri_reserved :: "char \<Rightarrow> bool" where
  "uri_reserved c \<longleftrightarrow> c \<in> set '';,/?:@&=+$#''"

definition encodeURI :: "string \<Rightarrow> string" where
  "encodeURI s = concat (map (\<lambda>c. if uri_unreserved c \<or> uri_reserved c then [c] else percent c) s)"

definition encodeURIComponentPretty :: "string \<Rightarrow> string" where
  "encodeURIComponentPretty s =
     concat (map (\<lambda>c. if c \<in> set ''/?#'' then percent c else [c]) (encodeURI s))"

text \<open>Whether bytes are well-formed UTF-8 (overlong forms and surrogates are refused).\<close>

definition cont_byte :: "nat \<Rightarrow> bool" where
  "cont_byte n \<longleftrightarrow> 128 \<le> n \<and> n < 192"

fun utf8_valid :: "nat list \<Rightarrow> bool" where
  "utf8_valid [] \<longleftrightarrow> True"
| "utf8_valid (a # r) \<longleftrightarrow>
     (if a < 128 then utf8_valid r
      else if 194 \<le> a \<and> a < 224 then
        (case r of b # r' \<Rightarrow> cont_byte b \<and> utf8_valid r' | _ \<Rightarrow> False)
      else if 224 \<le> a \<and> a < 240 then
        (case r of
           b # c # r' \<Rightarrow> cont_byte b \<and> cont_byte c \<and> (a = 224 \<longrightarrow> 160 \<le> b) \<and> (a = 237 \<longrightarrow> b < 160)
             \<and> utf8_valid r'
         | _ \<Rightarrow> False)
      else if 240 \<le> a \<and> a < 245 then
        (case r of
           b # c # d # r' \<Rightarrow> cont_byte b \<and> cont_byte c \<and> cont_byte d
             \<and> (a = 240 \<longrightarrow> 144 \<le> b) \<and> (a = 244 \<longrightarrow> b < 144) \<and> utf8_valid r'
         | _ \<Rightarrow> False)
      else False)"

text \<open>Percent decoding; an escape of a character of \<open>keep\<close> stays as it is (\<open>decodeURI\<close> keeps the
  reserved ones). A malformed escape or byte sequence throws a \<open>URIError\<close>, here \<open>None\<close>.\<close>

fun percent_decode :: "(char \<Rightarrow> bool) \<Rightarrow> string \<Rightarrow> string option" where
  "percent_decode keep [] = Some []"
| "percent_decode keep (c # cs) =
     (if c = CHR ''%'' then
        (case cs of
           a # b # ds \<Rightarrow>
             (case (hex_val a, hex_val b) of
                (Some x, Some y) \<Rightarrow>
                  map_option ((@) (if keep (char_of (16 * x + y)) then [c, a, b] else [char_of (16 * x + y)]))
                    (percent_decode keep ds)
              | _ \<Rightarrow> None)
         | _ \<Rightarrow> None)
      else map_option (Cons c) (percent_decode keep cs))"

definition valid_text :: "string \<Rightarrow> bool" where
  "valid_text s \<longleftrightarrow> utf8_valid (map of_char s)"

definition decodeURIComponent :: "string \<Rightarrow> string option" where
  "decodeURIComponent s =
     (case percent_decode (\<lambda>_. False) s of
        Some t \<Rightarrow> if valid_text t then Some t else None | None \<Rightarrow> None)"

definition decodeURI :: "string \<Rightarrow> string option" where
  "decodeURI s =
     (case percent_decode uri_reserved s of
        Some t \<Rightarrow> if valid_text t then Some t else None | None \<Rightarrow> None)"

section \<open>Queries\<close>

text \<open>The router's own \<open>encode\<close>: \<open>!'()*\<close> are escaped too (in lower-case hexadecimal), commas kept.\<close>

definition query_encode :: "string \<Rightarrow> string" where
  "query_encode s =
     replace_all False ''%2C'' '',''
       (concat (map (\<lambda>c. if c \<in> set ''!()*'' \<or> c = CHR 0x27
                         then [CHR ''%'', hex_digit (of_char c div 16), hex_digit (of_char c mod 16)]
                         else [c]) (encodeURIComponent s)))"

definition query_value :: "jsval \<Rightarrow> string \<Rightarrow> jsval \<Rightarrow> jsval" where
  "query_value old k val =
     (case old of JUndef \<Rightarrow> val | JArr vs \<Rightarrow> JArr (vs @ [val]) | v \<Rightarrow> JArr [v, val])"

fun parse_query_params :: "jsprops \<Rightarrow> string list \<Rightarrow> jsprops option" where
  "parse_query_params res [] = Some res"
| "parse_query_params res (param # ps) =
     (let p = map (\<lambda>c. if c = CHR ''+'' then CHR '' '' else c) param;
          k = takeWhile (\<lambda>c. c \<noteq> CHR ''='') p;
          has = CHR ''='' \<in> set p
      in case (decodeURIComponent k,
               if has then map_option JStr (decodeURIComponent (tl (dropWhile (\<lambda>c. c \<noteq> CHR ''='') p)))
               else Some JNull) of
           (Some key, Some val) \<Rightarrow>
             parse_query_params (prop_set res key (query_value (prop_get res key) key val)) ps
         | _ \<Rightarrow> None)"

definition trim_spaces :: "string \<Rightarrow> string" where
  "trim_spaces s =
     (let sp = (\<lambda>c. let n = of_char c :: nat in n = 32 \<or> (9 \<le> n \<and> n \<le> 13))
      in rev (dropWhile sp (rev (dropWhile sp s))))"

definition parseQuery :: "string \<Rightarrow> jsprops option" where
  "parseQuery query =
     (let t = trim_spaces query;
          q = (if t \<noteq> [] \<and> hd t \<in> set ''?#&'' then tl t else t)
      in if q = [] then Some [] else parse_query_params [] (split_on (CHR ''&'') q))"

definition resolveQuery :: "string \<Rightarrow> jsprops \<Rightarrow> jsprops" where
  "resolveQuery query extra =
     foldl (\<lambda>q (k, v). prop_set q k v) (case parseQuery query of None \<Rightarrow> [] | Some q \<Rightarrow> q) extra"

fun stringify_pair :: "string \<times> jsval \<Rightarrow> string" where
  "stringify_pair (key, JUndef) = []"
| "stringify_pair (key, JNull) = query_encode key"
| "stringify_pair (key, JArr vs) =
     join_with ''&'' (concat (map (\<lambda>v. case v of
        JUndef \<Rightarrow> [] | JNull \<Rightarrow> [query_encode key]
      | _ \<Rightarrow> [query_encode key @ ''='' @ query_encode (js_string v)]) vs))"
| "stringify_pair (key, v) = query_encode key @ ''='' @ query_encode (js_string v)"

definition stringifyQuery :: "jsprops \<Rightarrow> string" where
  "stringifyQuery obj =
     (let res = join_with ''&'' (filter (\<lambda>x. x \<noteq> []) (map stringify_pair obj))
      in if res = [] then [] else ''?'' @ res)"

section \<open>Paths and locations\<close>

definition cleanPath :: "string \<Rightarrow> string" where
  "cleanPath path = replace_all False ''//'' ''/'' path"

fun resolve_segments :: "string list \<Rightarrow> string list \<Rightarrow> string list" where
  "resolve_segments stack [] = stack"
| "resolve_segments stack (seg # segs) =
     resolve_segments
       (if seg = ''..'' then butlast stack else if seg \<noteq> ''.'' then stack @ [seg] else stack) segs"

definition resolvePath :: "string \<Rightarrow> string \<Rightarrow> bool \<Rightarrow> string" where
  "resolvePath relative base app =
     (if relative \<noteq> [] \<and> hd relative = CHR ''/'' then relative
      else if relative \<noteq> [] \<and> hd relative \<in> set ''?#'' then base @ relative
      else
        (let stack0 = split_on (CHR ''/'') base;
             stack1 = (if \<not> app \<or> last stack0 = [] then butlast stack0 else stack0);
             stack2 = resolve_segments stack1 (split_on (CHR ''/'') relative);
             stack3 = (if stack2 = [] \<or> hd stack2 \<noteq> [] then [] # stack2 else stack2)
         in join_with ''/'' stack3))"

definition parsePath :: "string \<Rightarrow> string \<times> string \<times> string" where
  "parsePath path =
     (let hash = dropWhile (\<lambda>c. c \<noteq> CHR ''#'') path;
          p = takeWhile (\<lambda>c. c \<noteq> CHR ''#'') path;
          query = (if CHR ''?'' \<in> set p then tl (dropWhile (\<lambda>c. c \<noteq> CHR ''?'') p) else [])
      in (takeWhile (\<lambda>c. c \<noteq> CHR ''?'') p, query, hash))"

text \<open>What \<open>push\<close> is given: a string, a location with a path, or one with a name.\<close>

datatype raw_location =
    LocString string
  | LocPath string jsprops string
  | LocName string jsprops

record location =
  loc_name :: "string option"
  loc_path :: string
  loc_query :: jsprops
  loc_hash :: string
  loc_params :: jsprops

record route_config =
  rc_path :: string
  rc_name :: "string option"
  rc_component :: string
  rc_meta :: jsprops

record route_record =
  rr_path :: string
  rr_tokens :: "path_token list"
  rr_name :: "string option"
  rr_component :: string
  rr_meta :: jsprops

record route =
  r_id :: nat
  r_name :: "string option"
  r_meta :: jsprops
  r_path :: string
  r_hash :: string
  r_query :: jsprops
  r_params :: jsprops
  r_fullPath :: string
  r_matched :: "route_record list"

definition getFullPath :: "string \<Rightarrow> jsprops \<Rightarrow> string \<Rightarrow> string" where
  "getFullPath path query hash = (if path = [] then ''/'' else path) @ stringifyQuery query @ hash"

definition createRoute :: "nat \<Rightarrow> route_record option \<Rightarrow> location \<Rightarrow> route" where
  "createRoute i record loc =
     \<lparr>r_id = i,
      r_name = (case loc_name loc of
                  Some n \<Rightarrow> if n \<noteq> [] then Some n else (case record of None \<Rightarrow> None | Some r \<Rightarrow> rr_name r)
                | None \<Rightarrow> (case record of None \<Rightarrow> None | Some r \<Rightarrow> rr_name r)),
      r_meta = (case record of None \<Rightarrow> [] | Some r \<Rightarrow> rr_meta r),
      r_path = (if loc_path loc = [] then ''/'' else loc_path loc),
      r_hash = loc_hash loc,
      r_query = loc_query loc,
      r_params = loc_params loc,
      r_fullPath = getFullPath (loc_path loc) (loc_query loc) (loc_hash loc),
      r_matched = (case record of None \<Rightarrow> [] | Some r \<Rightarrow> [r])\<rparr>"

text \<open>\<open>START\<close> is the route with the number 0; every other route gets a later one.\<close>

definition START :: route where
  "START = createRoute 0 None
     \<lparr>loc_name = None, loc_path = ''/'', loc_query = [], loc_hash = [], loc_params = []\<rparr>"

definition normalizeLocation :: "raw_location \<Rightarrow> route \<Rightarrow> location" where
  "normalizeLocation raw current =
     (case raw of
        LocName n ps \<Rightarrow> \<lparr>loc_name = Some n, loc_path = [], loc_query = [], loc_hash = [], loc_params = ps\<rparr>
      | _ \<Rightarrow>
          (let (p, q, h) = (case raw of LocString s \<Rightarrow> (s, [], []) | LocPath p q h \<Rightarrow> (p, q, h)
                            | LocName _ _ \<Rightarrow> ([], [], []));
               (pp, pq, ph) = parsePath p;
               hash = (if h \<noteq> [] then h else ph)
           in \<lparr>loc_name = None,
               loc_path = (if pp \<noteq> [] then resolvePath pp (r_path current) False else r_path current),
               loc_query = resolveQuery pq q,
               loc_hash = (if hash \<noteq> [] \<and> hd hash \<noteq> CHR ''#'' then CHR ''#'' # hash else hash),
               loc_params = []\<rparr>))"

section \<open>The matcher\<close>

definition normalizePath :: "string \<Rightarrow> string" where
  "normalizePath path = strip_slash path"

definition make_record :: "route_config \<Rightarrow> route_record" where
  "make_record c =
     \<lparr>rr_path = normalizePath (rc_path c),
      rr_tokens = parse_path [] (normalizePath (rc_path c)),
      rr_name = rc_name c, rr_component = rc_component c, rr_meta = rc_meta c\<rparr>"

record matcher =
  m_paths :: "route_record list"
  m_names :: "(string \<times> route_record) list"

definition addRouteRecord :: "matcher \<Rightarrow> route_config \<Rightarrow> matcher" where
  "addRouteRecord m c =
     (let r = make_record c
      in \<lparr>m_paths = (if \<exists>r'\<in>set (m_paths m). rr_path r' = rr_path r then m_paths m else m_paths m @ [r]),
          m_names = (case rc_name c of
                       None \<Rightarrow> m_names m
                     | Some n \<Rightarrow>
                         if n = [] \<or> map_of (m_names m) n \<noteq> None then m_names m
                         else m_names m @ [(n, r)])\<rparr>)"

definition createMatcher :: "route_config list \<Rightarrow> matcher" where
  "createMatcher routes =
     (let m = foldl addRouteRecord \<lparr>m_paths = [], m_names = []\<rparr> routes
      in m\<lparr>m_paths := filter (\<lambda>r. rr_path r \<noteq> ''*'') (m_paths m)
                      @ filter (\<lambda>r. rr_path r = ''*'') (m_paths m)\<rparr>)"

text \<open>\<open>fillParams\<close>: the path of a record for given parameters; any error gives the empty path.\<close>

fun tokens_path :: "path_token list \<Rightarrow> jsprops \<Rightarrow> string option" where
  "tokens_path [] ps = Some []"
| "tokens_path (PLit l # ts) ps = map_option ((@) l) (tokens_path ts ps)"
| "tokens_path (PParam name prefix delim # ts) ps =
     (case prop_get ps name of
        JUndef \<Rightarrow> None
      | JNull \<Rightarrow> None
      | JArr _ \<Rightarrow> None
      | v \<Rightarrow>
          (let segment = encodeURIComponentPretty (js_string v)
           in if segment = [] \<or> delim \<in> set segment then None
              else map_option ((@) (prefix @ segment)) (tokens_path ts ps)))"

definition fillParams :: "path_token list \<Rightarrow> jsprops \<Rightarrow> string" where
  "fillParams ts ps = (case tokens_path ts ps of None \<Rightarrow> [] | Some p \<Rightarrow> p)"

text \<open>\<open>matchRoute\<close>: no match, a match with its parameters, or a \<open>URIError\<close> of \<open>decodeURIComponent\<close>.\<close>

datatype match_result = NoMatch | Matched jsprops | MatchThrows

fun decode_params :: "string list \<Rightarrow> string list \<Rightarrow> jsprops \<Rightarrow> jsprops option" where
  "decode_params (n # ns) (c # cs) ps =
     (case decodeURIComponent c of
        None \<Rightarrow> None | Some v \<Rightarrow> decode_params ns cs (prop_set ps n (JStr v)))"
| "decode_params _ _ ps = Some ps"

definition matchRoute :: "route_record \<Rightarrow> string \<Rightarrow> match_result" where
  "matchRoute r path =
     (case match_tokens (strip_last (rr_tokens r)) path of
        None \<Rightarrow> NoMatch
      | Some caps \<Rightarrow>
          (case decode_params (token_names (rr_tokens r)) caps [] of
             None \<Rightarrow> MatchThrows | Some ps \<Rightarrow> Matched ps))"

fun match_paths :: "route_record list \<Rightarrow> nat \<Rightarrow> location \<Rightarrow> route option" where
  "match_paths [] i loc = Some (createRoute i None loc)"
| "match_paths (r # rs) i loc =
     (case matchRoute r (loc_path loc) of
        NoMatch \<Rightarrow> match_paths rs i loc
      | Matched ps \<Rightarrow> Some (createRoute i (Some r) (loc\<lparr>loc_params := ps\<rparr>))
      | MatchThrows \<Rightarrow> None)"

definition inherit_params :: "jsprops \<Rightarrow> jsprops \<Rightarrow> string list \<Rightarrow> jsprops" where
  "inherit_params ps current names =
     foldl (\<lambda>q (k, v). if map_of q k = None \<and> k \<in> set names then prop_set q k v else q) ps current"

definition match_location :: "matcher \<Rightarrow> nat \<Rightarrow> raw_location \<Rightarrow> route \<Rightarrow> route option" where
  "match_location m i raw current =
     (let loc = normalizeLocation raw current
      in case loc_name loc of
           Some name \<Rightarrow>
             if name \<noteq> [] then
               (case map_of (m_names m) name of
                  None \<Rightarrow> Some (createRoute i None loc)
                | Some r \<Rightarrow>
                    (let ps = inherit_params (loc_params loc) (r_params current) (token_names (rr_tokens r))
                     in Some (createRoute i (Some r)
                          (loc\<lparr>loc_params := ps, loc_path := fillParams (rr_tokens r) ps\<rparr>))))
             else match_paths (m_paths m) i loc
         | None \<Rightarrow>
             if loc_path loc \<noteq> [] then match_paths (m_paths m) i (loc\<lparr>loc_params := []\<rparr>)
             else Some (createRoute i None loc))"

section \<open>Navigation\<close>

text \<open>What a guard passes to \<open>next\<close>.\<close>

datatype next_arg = NextOk | NextFalse | NextError string | NextTo raw_location bool
  \<comment> \<open>the flag is the location's \<open>replace\<close>\<close>

text \<open>A guard runs to its end at once; its calls of \<open>next\<close> are listed in their order.\<close>

type_synonym 's guard = "route \<Rightarrow> route \<Rightarrow> 's \<Rightarrow> next_arg list"

text \<open>\<open>push\<close>, \<open>replace\<close>, or the bare \<open>transitionTo\<close> of the first navigation, which leaves the
  history entry alone.\<close>

datatype nav_kind = NavPush | NavReplace | NavStart

datatype nav_result = Navigated route | Aborted | AbortedError string | Duplicated | MatchError

record history =
  h_current :: route
  h_pending :: "nat option"
  h_next :: nat
  h_urls :: "string list"
  h_overflow :: bool

record 's router =
  ro_matcher :: matcher
  ro_base :: string
  ro_before :: "'s guard list"
  ro_resolve :: "'s guard list"

definition getLocation :: "string \<Rightarrow> string \<Rightarrow> string option" where
  "getLocation base url =
     (let path = takeWhile (\<lambda>c. c \<noteq> CHR ''?'' \<and> c \<noteq> CHR ''#'') url;
          tail = dropWhile (\<lambda>c. c \<noteq> CHR ''?'' \<and> c \<noteq> CHR ''#'') url
      in case decodeURI path of
           None \<Rightarrow> None
         | Some p \<Rightarrow>
             (let q = (if base \<noteq> [] \<and> starts_with base p then drop (length base) p else p)
              in Some ((if q = [] then ''/'' else q) @ tail)))"

definition pushState :: "string \<Rightarrow> history \<Rightarrow> history" where
  "pushState url h = h\<lparr>h_urls := h_urls h @ [url]\<rparr>"

definition replaceState :: "string \<Rightarrow> history \<Rightarrow> history" where
  "replaceState url h = h\<lparr>h_urls := butlast (h_urls h) @ [url]\<rparr>"

definition ensureURL :: "'s router \<Rightarrow> bool \<Rightarrow> history \<Rightarrow> history" where
  "ensureURL ro push h =
     (if h_urls h \<noteq> [] \<and> getLocation (ro_base ro) (last (h_urls h)) = Some (r_fullPath (h_current h)) then h
      else (let url = cleanPath (ro_base ro @ r_fullPath (h_current h))
            in if push then pushState url h else replaceState url h))"

fun value_equal :: "nat \<Rightarrow> jsval \<Rightarrow> jsval \<Rightarrow> bool" where
  "value_equal 0 a b \<longleftrightarrow> False"
| "value_equal (Suc n) a b \<longleftrightarrow>
     (let es = (\<lambda>v. case v of JObj es \<Rightarrow> es | JArr vs \<Rightarrow> map (\<lambda>i. (nat_decimal i, vs ! i)) [0..<length vs] | _ \<Rightarrow> []);
          obj = (\<lambda>v. case v of JObj _ \<Rightarrow> True | JArr _ \<Rightarrow> True | JNull \<Rightarrow> True | _ \<Rightarrow> False)
      in if a = JNull \<or> b = JNull then a = b
         else length (es a) = length (es b) \<and>
           (\<forall>(k, v)\<in>set (es a).
              (let w = prop_get (es b) k
               in if obj v \<and> obj w then value_equal n v w else js_string v = js_string w)))"

text \<open>\<open>isObjectEqual\<close> on queries, whose values nest two deep at most (an array of strings).\<close>

definition isObjectEqual :: "jsprops \<Rightarrow> jsprops \<Rightarrow> bool" where
  "isObjectEqual a b = value_equal 3 (JObj a) (JObj b)"

definition isSameRoute :: "route \<Rightarrow> route \<Rightarrow> bool" where
  "isSameRoute a b \<longleftrightarrow>
     (if r_id b = 0 then r_id a = 0
      else strip_slash (r_path a) = strip_slash (r_path b) \<and> r_hash a = r_hash b
        \<and> isObjectEqual (r_query a) (r_query b))"

definition settle_nav :: "nav_result option \<Rightarrow> nav_result \<Rightarrow> nav_result option" where
  "settle_nav out r = (case out of None \<Rightarrow> Some r | Some _ \<Rightarrow> out)"

definition complete_nav :: "'s router \<Rightarrow> nav_kind \<Rightarrow> route \<Rightarrow> history \<Rightarrow> history" where
  "complete_nav ro kind route h =
     (let url = cleanPath (ro_base ro @ r_fullPath route);
          h1 = h\<lparr>h_pending := None, h_current := route\<rparr>;
          h2 = (case kind of NavPush \<Rightarrow> pushState url h1 | NavReplace \<Rightarrow> replaceState url h1
                | NavStart \<Rightarrow> h1)
      in ensureURL ro False h2)"

text \<open>
  \<open>push\<close> and \<open>replace\<close> (\<open>navigate\<close>), \<open>runQueue\<close> with the iterator of \<open>confirmTransition\<close>
  (\<open>run_guards\<close>), and the calls of \<open>next\<close> of one guard in turn (\<open>run_nexts\<close>). \<open>out\<close> is what the
  promise of this navigation has settled to.
\<close>

function (sequential) navigate ::
    "'s router \<Rightarrow> nat \<Rightarrow> nav_kind \<Rightarrow> raw_location \<Rightarrow> 's \<Rightarrow> history \<Rightarrow> nav_result option \<times> history"
  and run_guards ::
    "'s router \<Rightarrow> nat \<Rightarrow> nav_kind \<Rightarrow> route \<Rightarrow> route \<Rightarrow> 's guard list \<Rightarrow> 's \<Rightarrow> nav_result option \<times> history \<Rightarrow>
     nav_result option \<times> history"
  and run_nexts ::
    "'s router \<Rightarrow> nat \<Rightarrow> nav_kind \<Rightarrow> route \<Rightarrow> route \<Rightarrow> 's guard list \<Rightarrow> next_arg list \<Rightarrow> 's \<Rightarrow>
     nav_result option \<times> history \<Rightarrow> nav_result option \<times> history" where
  "navigate ro 0 kind raw s h = (None, h\<lparr>h_overflow := True\<rparr>)"
| "navigate ro (Suc n) kind raw s h =
     (case match_location (ro_matcher ro) (h_next h) raw (h_current h) of
        None \<Rightarrow> (Some MatchError, h)
      | Some route \<Rightarrow>
          (let h1 = h\<lparr>h_next := Suc (h_next h)\<rparr>
           in if isSameRoute route (h_current h) \<and> length (r_matched route) = length (r_matched (h_current h))
              then (Some Duplicated, ensureURL ro False h1)
              else run_guards ro n kind route (h_current h) (ro_before ro @ ro_resolve ro) s
                     (None, h1\<lparr>h_pending := Some (r_id route)\<rparr>)))"
| "run_guards ro n kind route cur [] s (out, h) =
     (if h_pending h \<noteq> Some (r_id route) then (settle_nav out Aborted, h)
      else (settle_nav out (Navigated route), complete_nav ro kind route h))"
| "run_guards ro n kind route cur (g # gs) s (out, h) =
     (if h_pending h \<noteq> Some (r_id route) then (settle_nav out Aborted, h)
      else run_nexts ro n kind route cur gs (g route cur s) s (out, h))"
| "run_nexts ro n kind route cur gs [] s (out, h) = (out, h)"
| "run_nexts ro n kind route cur gs (NextOk # as) s (out, h) =
     run_nexts ro n kind route cur gs as s (run_guards ro n kind route cur gs s (out, h))"
| "run_nexts ro n kind route cur gs (NextFalse # as) s (out, h) =
     run_nexts ro n kind route cur gs as s (settle_nav out Aborted, ensureURL ro True h)"
| "run_nexts ro n kind route cur gs (NextError e # as) s (out, h) =
     run_nexts ro n kind route cur gs as s (settle_nav out (AbortedError e), ensureURL ro True h)"
| "run_nexts ro n kind route cur gs (NextTo to rep # as) s (out, h) =
     run_nexts ro n kind route cur gs as s
       (settle_nav out Aborted, snd (navigate ro n (if rep then NavReplace else NavPush) to s h))"
  by pat_completeness auto
termination
  by (relation "measures
     [\<lambda>x. case x of Inl (ro, n, _) \<Rightarrow> n | Inr (Inl (ro, n, _)) \<Rightarrow> n | Inr (Inr (ro, n, _)) \<Rightarrow> n,
      \<lambda>x. case x of Inl _ \<Rightarrow> 0 | Inr (Inl (ro, n, rep, r, c, gs, _)) \<Rightarrow> length gs
               | Inr (Inr (ro, n, rep, r, c, gs, _)) \<Rightarrow> length gs,
      \<lambda>x. case x of Inl _ \<Rightarrow> 0 | Inr (Inl _) \<Rightarrow> 0
               | Inr (Inr (ro, n, rep, r, c, gs, as, _)) \<Rightarrow> Suc (length as)]") auto

section \<open>Guards protect their routes\<close>

declare navigate.simps [simp del]

definition refuses :: "'s guard \<Rightarrow> (route \<Rightarrow> bool) \<Rightarrow> 's \<Rightarrow> bool" where
  "refuses g P s \<longleftrightarrow> (\<forall>to from. P to \<longrightarrow> NextOk \<notin> set (g to from s))"

lemma ensureURL_fields [simp]:
  "h_current (ensureURL ro push h) = h_current h" "h_pending (ensureURL ro push h) = h_pending h"
  "h_next (ensureURL ro push h) = h_next h" "h_overflow (ensureURL ro push h) = h_overflow h"
  by (simp_all add: ensureURL_def Let_def pushState_def replaceState_def)

lemma complete_nav_fields [simp]:
  "h_current (complete_nav ro kind route h) = route" "h_pending (complete_nav ro kind route h) = None"
  "h_next (complete_nav ro kind route h) = h_next h" "h_overflow (complete_nav ro kind route h) = h_overflow h"
  by (simp_all add: complete_nav_def Let_def pushState_def replaceState_def split: nav_kind.split)

text \<open>A route is entered only when every guard of the queue answered \<open>next()\<close>, whatever other
  navigations the guards started meanwhile.\<close>

lemma guarded_route_not_entered:
  assumes "\<exists>g\<in>set (ro_before ro @ ro_resolve ro). refuses g P s"
  shows "\<not> P (h_current h) \<Longrightarrow> \<not> P (h_current (snd (navigate ro n kind raw s h)))"
    and "\<lbrakk>\<not> P (h_current (snd p)); P route \<longrightarrow> (\<exists>g\<in>set gs. refuses g P s)\<rbrakk> \<Longrightarrow>
      \<not> P (h_current (snd (run_guards ro n kind route cur gs s p)))"
    and "\<lbrakk>\<not> P (h_current (snd p)); P route \<longrightarrow> (\<exists>g\<in>set gs. refuses g P s) \<or> NextOk \<notin> set as\<rbrakk> \<Longrightarrow>
      \<not> P (h_current (snd (run_nexts ro n kind route cur gs as s p)))"
  using assms
proof (induction ro n kind raw s h and ro n kind route cur gs s p and ro n kind route cur gs as s p
    rule: navigate_run_guards_run_nexts.induct)
  case (2 ro n kind raw s h)
  then show ?case by (auto simp: navigate.simps Let_def split: option.split)
next
  case (4 ro n kind route cur g gs s out h)
  have "P route \<longrightarrow> (\<exists>g\<in>set gs. refuses g P s) \<or> NextOk \<notin> set (g route cur s)"
    using 4(3) by (auto simp: refuses_def)
  then show ?case using 4 by simp
qed (simp_all add: navigate.simps)

text \<open>Where routes come from: the matcher, for a record of its tables.\<close>

lemma current_from_matcher:
  "h_current (snd (navigate ro n kind raw s h)) = h_current h \<or>
     (\<exists>i raw' cur. match_location (ro_matcher ro) i raw' cur = Some (h_current (snd (navigate ro n kind raw s h))))"
  "(\<exists>i raw' cur. match_location (ro_matcher ro) i raw' cur = Some route) \<Longrightarrow>
   h_current (snd (run_guards ro n kind route cur gs s p)) = h_current (snd p) \<or>
     (\<exists>i raw' cur'. match_location (ro_matcher ro) i raw' cur' = Some (h_current (snd (run_guards ro n kind route cur gs s p))))"
  "(\<exists>i raw' cur. match_location (ro_matcher ro) i raw' cur = Some route) \<Longrightarrow>
   h_current (snd (run_nexts ro n kind route cur gs as s p)) = h_current (snd p) \<or>
     (\<exists>i raw' cur'. match_location (ro_matcher ro) i raw' cur' = Some (h_current (snd (run_nexts ro n kind route cur gs as s p))))"
proof (induction ro n kind raw s h and ro n kind route cur gs s p and ro n kind route cur gs as s p
    rule: navigate_run_guards_run_nexts.induct)
  case (2 ro n kind raw s h)
  show ?case
  proof (cases "match_location (ro_matcher ro) (h_next h) raw (h_current h)")
    case None
    then show ?thesis by (simp add: navigate.simps)
  next
    case (Some route)
    let ?h = "h\<lparr>h_next := Suc (h_next h), h_pending := Some (r_id route)\<rparr>"
    show ?thesis
    proof (cases "isSameRoute route (h_current h) \<and> length (r_matched route) = length (r_matched (h_current h))")
      case True
      then show ?thesis using Some by (simp add: navigate.simps)
    next
      case False
      have "\<exists>i raw' cur. match_location (ro_matcher ro) i raw' cur = Some route" using Some by blast
      from 2 [OF Some refl False this]
      show ?thesis using Some False by (auto simp: navigate.simps)
    qed
  qed
next
  case (6 ro n kind route cur gs "as" s out h)
  then show ?case by (metis run_nexts.simps(2))
next
  case (9 ro n kind route cur gs to rep "as" s out h)
  then show ?case by (metis run_nexts.simps(5) snd_conv)
qed (simp_all add: navigate.simps)

lemma createRoute_None: "r_matched (createRoute i None loc) = []"
  by (simp add: createRoute_def)

lemma match_paths_record:
  "match_paths rs i loc = Some r \<Longrightarrow> r_matched r = [] \<or>
     (\<exists>rec ps. rec \<in> set rs \<and> r = createRoute i (Some rec) (loc\<lparr>loc_params := ps\<rparr>) \<and> matchRoute rec (loc_path loc) = Matched ps)"
proof (induction rs)
  case (Cons rec rs)
  then show ?case by (cases "matchRoute rec (loc_path loc)") auto
qed (auto simp: createRoute_None)

lemma match_location_record:
  assumes "match_location m i raw cur = Some r"
  shows "r_matched r = [] \<or> (\<exists>rec loc. r = createRoute i (Some rec) loc \<and>
    ((rec \<in> set (m_paths m) \<and> matchRoute rec (loc_path loc) \<noteq> NoMatch) \<or>
     (rec \<in> snd ` set (m_names m) \<and> (\<exists>ps. loc_path loc = fillParams (rr_tokens rec) ps))))"
proof -
  have paths: ?thesis if "match_paths (m_paths m) i loc = Some r" for loc
    using match_paths_record [OF that] by fastforce
  note none = createRoute_None
  let ?loc = "normalizeLocation raw cur"
  show ?thesis
  proof (cases "loc_name ?loc")
    case None
    then show ?thesis using assms paths none by (auto simp: match_location_def Let_def split: if_splits)
  next
    case (Some name)
    show ?thesis
    proof (cases "name = []")
      case True
      then show ?thesis using assms Some paths by (simp add: match_location_def Let_def)
    next
      case False
      show ?thesis
      proof (cases "map_of (m_names m) name")
        case None
        then have "r = createRoute i None ?loc" using assms Some False by (simp add: match_location_def Let_def)
        then show ?thesis using none by simp
      next
        case (Some rec)
        let ?ps = "inherit_params (loc_params ?loc) (r_params cur) (token_names (rr_tokens rec))"
        have "r = createRoute i (Some rec) (?loc\<lparr>loc_params := ?ps, loc_path := fillParams (rr_tokens rec) ?ps\<rparr>)"
          using assms \<open>loc_name ?loc = Some name\<close> False Some by (simp add: match_location_def Let_def)
        moreover have "rec \<in> snd ` set (m_names m)" using Some by (force dest: map_of_SomeD)
        ultimately show ?thesis by (metis location.select_convs(2) location.surjective location.update_convs(2,5))
      qed
    qed
  qed
qed

section \<open>Parameters survive the address bar\<close>

lemma percent_decode_pretty: "percent_decode (\<lambda>_. False) (encodeURIComponentPretty s) = Some s"
proof -
  define f where "f c = concat (map (\<lambda>c. if c \<in> set ''/?#'' then percent c else [c])
    (if uri_unreserved c \<or> uri_reserved c then [c] else percent c))" for c
  have hx: "hex_upper d \<notin> set ''/?#''" if "d < 16" for d
    using less_16_cases [OF that] by (auto simp: hex_upper_def)
  have f: "f c = (if c \<in> set ''/?#'' then percent c else if uri_unreserved c \<or> uri_reserved c then [c] else percent c)" for c
    using hx char_div_mod(1,2) [of c] by (auto simp: f_def percent_def uri_reserved_def)
  have step: "percent_decode (\<lambda>_. False) (f c @ t) = map_option (Cons c) (percent_decode (\<lambda>_. False) t)" for c t
  proof -
    have "percent_decode (\<lambda>_. False) (percent c @ t) = map_option (Cons c) (percent_decode (\<lambda>_. False) t)"
      using char_div_mod [of c] by (cases "percent_decode (\<lambda>_. False) t") (simp_all add: percent_def)
    moreover have "uri_unreserved c \<or> uri_reserved c \<Longrightarrow> c \<noteq> CHR ''%''"
      using not_unreserved by (auto simp: uri_reserved_def)
    ultimately show ?thesis by (simp add: f)
  qed
  have "encodeURIComponentPretty s = concat (map f s)"
    by (induction s) (simp_all add: encodeURIComponentPretty_def encodeURI_def f_def)
  moreover have "percent_decode (\<lambda>_. False) (concat (map f s)) = Some s"
    by (induction s) (simp_all add: step)
  ultimately show ?thesis by simp
qed

lemma pretty_chars: "c \<in> set (encodeURIComponentPretty s) \<Longrightarrow> c \<notin> set ''/?#''"
proof -
  have hx: "hex_upper d \<notin> set ''/?#''" if "d < 16" for d
    using less_16_cases [OF that] by (auto simp: hex_upper_def)
  assume "c \<in> set (encodeURIComponentPretty s)"
  then have "\<exists>d\<in>set (encodeURI s). c \<in> set (if d \<in> set ''/?#'' then percent d else [d])"
    unfolding encodeURIComponentPretty_def by (simp only: set_concat set_map UN_iff image_iff bex_simps)
  then obtain d where d: "c \<in> set (if d \<in> set ''/?#'' then percent d else [d])" by blast
  show ?thesis
  proof (cases "d \<in> set ''/?#''")
    case True
    then have "c = CHR ''%'' \<or> (\<exists>n<16. c = hex_upper n)" using d set_percent [of d] by auto
    then show ?thesis using hx by auto
  next
    case False
    then show ?thesis using d by simp
  qed
qed

lemma pretty_ne: "s \<noteq> [] \<Longrightarrow> encodeURIComponentPretty s \<noteq> []"
  using percent_decode_pretty [of s] by auto

lemma match_param_segment:
  "\<lbrakk>seg \<noteq> []; CHR ''/'' \<notin> set seg\<rbrakk> \<Longrightarrow> match_param (CHR ''/'') [] acc seg = Some [acc @ seg]"
proof (induction seg arbitrary: acc)
  case (Cons c cs)
  then show ?case by (cases cs) auto
qed simp

lemma starts_with_append: "starts_with p (p @ s)"
  by (induction p) auto

lemma matchRoute_segment:
  assumes "rr_tokens r = [PLit l, PParam name ''/'' (CHR ''/'')]" "seg \<noteq> []" "CHR ''/'' \<notin> set seg" "decodeURIComponent seg = Some v"
  shows "matchRoute r (l @ ''/'' @ seg) = Matched [(name, JStr v)]"
proof -
  have "starts_with (toLowerCase l) (toLowerCase (l @ s))" for s
    by (simp add: toLowerCase_def starts_with_append)
  then have "match_tokens (strip_last (rr_tokens r)) (l @ ''/'' @ seg) = Some [seg]"
    using match_param_segment [OF assms(2,3), of "[]"] by (simp add: assms(1) strip_last_def)
  then show ?thesis by (simp add: matchRoute_def assms(1,4))
qed

lemma fillParams_segment:
  assumes "rr_tokens r = [PLit l, PParam name ''/'' (CHR ''/'')]" "v \<noteq> []"
  shows "fillParams (rr_tokens r) [(name, JStr v)] = l @ ''/'' @ encodeURIComponentPretty v"
  using pretty_ne [OF assms(2)] pretty_chars [of "CHR ''/''" v] by (auto simp: assms(1) fillParams_def Let_def)

text \<open>
  A loaded page reads the address with \<open>decodeURI\<close>, before the matcher decodes the parameters: the escapes of
  the path's own characters are left, all others undone, and a percent sign would be decoded twice.
\<close>

definition address_text :: "string \<Rightarrow> string" where
  "address_text s = concat (map (\<lambda>c. if c \<in> set ''/?#'' then percent c else [c]) s)"

lemma address_text_simps [simp]:
  "address_text [] = []" "address_text (c # s) = (if c \<in> set ''/?#'' then percent c else [c]) @ address_text s"
  by (simp_all add: address_text_def)

lemma percent_decode_percent:
  "percent_decode keep (percent c @ t) = map_option ((@) (if keep c then percent c else [c])) (percent_decode keep t)"
  using char_div_mod [of c] by (cases "percent_decode keep t") (simp_all add: percent_def)

lemma decode_address_text:
  assumes "CHR ''%'' \<notin> set v"
  shows "percent_decode (\<lambda>_. False) (address_text v) = Some v"
  using assms
proof (induction v)
  case (Cons c v)
  then show ?case using percent_decode_percent [of "\<lambda>_. False" c "address_text v"] by auto
qed simp

lemma pretty_Cons:
  "encodeURIComponentPretty (c # s) =
     (if c \<in> set ''/?#'' then percent c else if uri_unreserved c \<or> uri_reserved c then [c] else percent c) @ encodeURIComponentPretty s"
proof -
  have hx: "hex_upper d \<notin> set ''/?#''" if "d < 16" for d
    using less_16_cases [OF that] by (auto simp: hex_upper_def)
  show ?thesis
    using hx char_div_mod(1,2) [of c] by (auto simp: encodeURIComponentPretty_def encodeURI_def percent_def uri_reserved_def)
qed

lemma decode_pretty:
  assumes "CHR ''%'' \<notin> set v"
  shows "percent_decode uri_reserved (encodeURIComponentPretty v) = Some (address_text v)"
  using assms
proof (induction v)
  case Nil
  then show ?case by (simp add: encodeURIComponentPretty_def encodeURI_def)
next
  case (Cons c v)
  have "c \<in> set ''/?#'' \<Longrightarrow> uri_reserved c" by (auto simp: uri_reserved_def)
  moreover have "uri_unreserved c \<or> uri_reserved c \<Longrightarrow> c \<noteq> CHR ''%''" using Cons.prems by auto
  ultimately show ?case using Cons percent_decode_percent [of uri_reserved c "encodeURIComponentPretty v"]
    by (auto simp: pretty_Cons)
qed

lemma utf8_ascii: "list_all (\<lambda>n. n < 128) xs \<Longrightarrow> utf8_valid (xs @ r) = utf8_valid r"
  by (induction xs) simp_all

lemma utf8_replaced:
  assumes "utf8_valid bs" "\<And>n. n < 128 \<Longrightarrow> list_all (\<lambda>m. m < 128) (G n)" "\<And>n. 128 \<le> n \<Longrightarrow> G n = [n]"
  shows "utf8_valid (concat (map G bs))"
  using assms(1)
proof (induction bs rule: utf8_valid.induct)
  case (2 a r)
  have cont: "cont_byte b \<Longrightarrow> G b = [b]" for b by (simp add: cont_byte_def assms(3))
  consider (ascii) "a < 128" | (two) "194 \<le> a" "a < 224" | (three) "224 \<le> a" "a < 240" | (four) "240 \<le> a" "a < 245"
    using 2(5) by (auto split: if_splits)
  then show ?case
  proof cases
    case ascii
    with 2 show ?thesis by (simp add: utf8_ascii [OF assms(2)])
  next
    case two
    then obtain b r' where r: "r = b # r'" "cont_byte b" "utf8_valid r'" using 2(5) by (auto split: list.splits)
    have "utf8_valid (concat (map G r'))" using 2(2) two r by simp
    with two r show ?thesis by (simp add: assms(3) cont)
  next
    case three
    then obtain b c r' where r: "r = b # c # r'" "cont_byte b" "cont_byte c" "a = 224 \<longrightarrow> 160 \<le> b" "a = 237 \<longrightarrow> b < 160" "utf8_valid r'"
      using 2(5) by (auto split: list.splits)
    have "utf8_valid (concat (map G r'))" using 2(3) three r by simp
    with three r show ?thesis by (simp add: assms(3) cont)
  next
    case four
    then obtain b c d r' where r: "r = b # c # d # r'" "cont_byte b" "cont_byte c" "cont_byte d"
        "a = 240 \<longrightarrow> 144 \<le> b" "a = 244 \<longrightarrow> b < 144" "utf8_valid r'"
      using 2(5) by (auto split: list.splits)
    have "utf8_valid (concat (map G r'))" using 2(4) four r by simp
    with four r show ?thesis by (simp add: assms(3) cont)
  qed
qed simp

lemma valid_address_text:
  assumes "valid_text v"
  shows "valid_text (address_text v)"
proof -
  let ?G = "\<lambda>n. map of_char (if char_of n \<in> set ''/?#'' then percent (char_of n) else [char_of n]) :: nat list"
  have hx: "(of_char (hex_upper d) :: nat) < 128" if "d < 16" for d
    using less_16_cases [OF that] by (auto simp: hex_upper_def)
  have "map of_char (address_text v) = concat (map (\<lambda>n. if n < 256 then ?G n else [n]) (map of_char v))"
    by (induction v) simp_all
  moreover have "utf8_valid (concat (map (\<lambda>n. if n < 256 then ?G n else [n]) (map of_char v)))"
  proof (rule utf8_replaced)
    show "utf8_valid (map of_char v)" using assms by (simp add: valid_text_def)
    fix n :: nat
    assume "n < 128"
    then show "list_all (\<lambda>m. m < 128) (if n < 256 then ?G n else [n])"
      using hx char_div_mod(1,2) [of "char_of n"] by (simp add: percent_def)
  next
    fix n :: nat
    assume "128 \<le> n"
    moreover have "(char_of n :: char) \<in> set ''/?#'' \<Longrightarrow> n < 256 \<Longrightarrow> n < 128"
    proof -
      assume a: "(char_of n :: char) \<in> set ''/?#''" "n < 256"
      have "of_char (char_of n :: char) \<in> (of_char ` set ''/?#'' :: nat set)" by (rule imageI [OF a(1)])
      moreover have "(of_char ` set ''/?#'' :: nat set) = {47, 63, 35}" by simp
      ultimately show "n < 128" using a(2) by auto
    qed
    ultimately show "(if n < 256 then ?G n else [n]) = [n]" by auto
  qed
  ultimately show ?thesis by (simp add: valid_text_def)
qed


lemma address_text_chars:
  assumes "c \<in> set (address_text v)"
  shows "c \<notin> set ''/?#''"
proof -
  have hx: "hex_upper d \<notin> set ''/?#''" if "d < 16" for d
    using less_16_cases [OF that] by (auto simp: hex_upper_def)
  show ?thesis using assms
  proof (induction v)
    case (Cons d v)
    show ?case
    proof (cases "c \<in> set (address_text v)")
      case False
      with Cons.prems have c: "c \<in> set (if d \<in> set ''/?#'' then percent d else [d])" by auto
      show ?thesis
      proof (cases "d \<in> set ''/?#''")
        case True
        then have "c \<in> set (percent d)" using c by simp
        then have "c = CHR ''%'' \<or> (\<exists>n<16. c = hex_upper n)" using set_percent [of d] by auto
        then show ?thesis using hx by auto
      qed (use c in simp)
    qed (rule Cons.IH)
  qed simp
qed

lemma address_text_ne: "v \<noteq> [] \<Longrightarrow> address_text v \<noteq> []"
  by (cases v) (auto simp: percent_def)

text \<open>What the router gets from the address bar for the link to a text without a percent sign.\<close>

lemma getLocation_pretty:
  assumes "CHR ''%'' \<notin> set v" "valid_text v" "list_all (\<lambda>c. c \<notin> set ''%?#'' \<and> (of_char c :: nat) < 128) l" "l \<noteq> []"
  shows "getLocation [] (l @ encodeURIComponentPretty v) = Some (l @ address_text v)"
proof -
  let ?url = "l @ encodeURIComponentPretty v"
  have no: "\<forall>c\<in>set ?url. c \<noteq> CHR ''?'' \<and> c \<noteq> CHR ''#''"
    using assms(3) pretty_chars [of _ v] by (auto simp: list_all_iff)
  then have tw: "takeWhile (\<lambda>c. c \<noteq> CHR ''?'' \<and> c \<noteq> CHR ''#'') ?url = ?url" "dropWhile (\<lambda>c. c \<noteq> CHR ''?'' \<and> c \<noteq> CHR ''#'') ?url = []"
    by (simp_all add: takeWhile_eq_all_conv dropWhile_eq_Nil_conv del: set_append append_assoc)
  have "percent_decode uri_reserved (l @ s) = map_option ((@) l) (percent_decode uri_reserved s)" for s
    using assms(3) by (induction l; cases "percent_decode uri_reserved s") simp_all
  moreover have "valid_text (l @ address_text v)"
  proof -
    have "list_all (\<lambda>n. n < 128) (map of_char l :: nat list)" using assms(3) by (simp add: list_all_iff)
    then show ?thesis using valid_address_text [OF assms(2)] by (simp add: valid_text_def utf8_ascii)
  qed
  ultimately have "decodeURI ?url = Some (l @ address_text v)" by (simp add: decodeURI_def decode_pretty [OF assms(1)])
  then show ?thesis unfolding getLocation_def tw Let_def using assms(4) by simp
qed

lemma clean_segment:
  assumes "CHR ''/'' \<notin> set seg" "seg \<noteq> []"
  shows "cleanPath (''/post/'' @ seg) = ''/post/'' @ seg"
proof -
  have rest: "CHR ''/'' \<notin> set t \<Longrightarrow> replace_all False ''//'' ''/'' t = t" for t by (induction t) (simp_all add: replace_all.simps)
  obtain c t where "seg = c # t" "c \<noteq> CHR ''/''" "CHR ''/'' \<notin> set t" using assms by (cases seg) auto
  then show ?thesis using rest [of t] by (simp add: cleanPath_def replace_all.simps)
qed

lemma last_url: "h_urls (complete_nav ro NavPush r h) \<noteq> []" "last (h_urls (complete_nav ro NavPush r h)) = cleanPath (ro_base ro @ r_fullPath r)"
  by (simp_all add: complete_nav_def ensureURL_def pushState_def replaceState_def Let_def)

text \<open>A navigation past a guard that lets every route of a kind pass.\<close>

lemma navigate_next:
  assumes "match_location (ro_matcher ro) (h_next h) raw (h_current h) = Some route" "\<not> isSameRoute route (h_current h)"
    and "ro_before ro = [g]" "ro_resolve ro = []" "g route (h_current h) s = [NextOk]"
  shows "navigate ro (Suc n) kind raw s h =
    (Some (Navigated route), complete_nav ro kind route (h\<lparr>h_next := Suc (h_next h), h_pending := Some (r_id route)\<rparr>))"
  using assms by (simp add: navigate.simps settle_nav_def Let_def)

end
