(* ===== verification/FrontEnd.thy ===== *)
theory FrontEnd
  imports Axios Vuex VueRouter
begin

text \<open>
  The single-page application of \<open>static/js/app\<close>: its vuex store with the login, its axios
  instance with the two interceptors of \<open>service/api.js\<close>, its routes and the navigation guard of
  \<open>main.js\<close>, and the methods of its components (\<open>Login\<close>, \<open>SignUp\<close>, \<open>Home\<close>, \<open>Content\<close>, \<open>Publish\<close> and
  \<open>HeadBar\<close>), each composed with the libraries it calls. The state of the page is its
  \<open>localStorage\<close>, the store, the router's history, the data of the components and the world behind
  the network (\<open>'w\<close>), which a parameter of type \<open>'w browser\<close> lets answer. Console output and the
  rendering of the templates are not modelled.
\<close>

section \<open>The page\<close>

type_synonym local_storage = "string \<rightharpoonup> string"

record home_data =
  home_order :: string
  home_page :: int
  home_postList :: jsval

record publish_data =
  pub_title :: string
  pub_content :: string
  pub_showCommunityList :: bool
  pub_selectCommunity :: jsval
  pub_communityList :: jsval

record 'w page =
  pg_local :: local_storage
  pg_store :: "local_storage store"
  pg_history :: history
  pg_home :: home_data
  pg_post :: jsval
  pg_publish :: publish_data
  pg_world :: 'w

section \<open>store/index.js\<close>

definition defaultLoginResult :: jsval where
  "defaultLoginResult = JObj [(''token'', JNull), (''user_id'', JNull), (''user_name'', JNull)]"

definition set_field :: "jsval \<Rightarrow> string \<Rightarrow> jsval \<Rightarrow> jsval" where
  "set_field state k v = (case state of JObj es \<Rightarrow> JObj (prop_set es k v) | _ \<Rightarrow> state)"

text \<open>\<open>JSON.parse(localStorage.getItem(k))\<close>: a missing item is \<open>null\<close>.\<close>

definition parse_item :: "local_storage \<Rightarrow> string \<Rightarrow> json_error + jsval" where
  "parse_item ls k = (case ls k of None \<Rightarrow> Inr JNull | Some t \<Rightarrow> parse_json t)"

definition mutation_init :: "local_storage mutation_fn" where
  "mutation_init state payload ls =
     (case parse_item ls ''loginResult'' of
        Inl _ \<Rightarrow> ((state, ls), Some ''SyntaxError'')
      | Inr v \<Rightarrow>
          ((if v \<noteq> JNull \<and> v \<noteq> JUndef then set_field state ''loginResult'' v else state, ls), None))"

definition mutation_login :: "local_storage mutation_fn" where
  "mutation_login state payload ls = ((set_field state ''loginResult'' payload, ls), None)"

definition mutation_logout :: "local_storage mutation_fn" where
  "mutation_logout state payload ls =
     ((set_field state ''loginResult'' defaultLoginResult, ls(''loginResult'' := None)), None)"

definition login_field :: "string \<Rightarrow> getter_fn" where
  "login_field k state root =
     (case member state ''loginResult'' of None \<Rightarrow> None | Some lr \<Rightarrow> member lr k)"

definition getter_isLogin :: getter_fn where
  "getter_isLogin state root = map_option (\<lambda>v. JBool (v \<noteq> JNull)) (login_field ''user_id'' state root)"

definition store_options :: "local_storage raw_module" where
  "store_options =
     RawModule (JObj [(''isLogin'', JBool False), (''loginResult'', defaultLoginResult)]) False
       [(''init'', mutation_init), (''login'', mutation_login), (''logout'', mutation_logout)]
       [(''isLogin'', getter_isLogin), (''userID'', login_field ''user_id''),
        (''username'', login_field ''user_name''), (''accessToken'', login_field ''token'')]
       []"

definition app_store :: "local_storage store" where
  "app_store = new_Store store_options"

definition page_commit :: "string \<Rightarrow> jsval \<Rightarrow> 'w page \<Rightarrow> 'w page \<times> string option" where
  "page_commit type payload pg =
     (case commit (pg_store pg) type payload (pg_local pg) of
        ((st, ls), r) \<Rightarrow> (pg\<lparr>pg_store := st, pg_local := ls\<rparr>, r))"

section \<open>service/api.js\<close>

definition request_fulfilled :: "(axios_val, 'w page) handler" where
  "request_fulfilled v pg =
     (case parse_item (pg_local pg) ''loginResult'' of
        Inl _ \<Rightarrow> (Rejected (AThrown ''SyntaxError''), pg)
      | Inr lr \<Rightarrow>
          if \<not> truthy lr then (Fulfilled v, pg)
          else
            (case (v, member lr ''token'') of
               (AConfig cfg, Some token) \<Rightarrow>
                 (case config_headers cfg of
                    JUndef \<Rightarrow> (Rejected (AThrown ''TypeError''), pg)
                  | JNull \<Rightarrow> (Rejected (AThrown ''TypeError''), pg)
                  | hs \<Rightarrow>
                      (Fulfilled (AConfig (cfg\<lparr>config_headers :=
                         set_field hs ''Authorization'' (JStr (''Bearer '' @ js_string token))\<rparr>)), pg))
             | _ \<Rightarrow> (Rejected (AThrown ''TypeError''), pg)))"

definition request_rejected :: "(axios_val, 'w page) handler" where
  "request_rejected e pg = (Rejected e, pg)"

definition response_fulfilled :: "(axios_val, 'w page) handler" where
  "response_fulfilled v pg =
     (case v of
        AResponse r \<Rightarrow>
          if resp_status r = 200 then (Fulfilled (AValue (resp_data r)), pg)
          else (Rejected (AValue (resp_data r)), pg)
      | _ \<Rightarrow> (Rejected (AThrown ''TypeError''), pg))"

text \<open>The error handler logs the error and returns nothing, so the promise is fulfilled.\<close>

definition response_rejected :: "(axios_val, 'w page) handler" where
  "response_rejected e pg = (Fulfilled (AValue JUndef), pg)"

definition app_defaults :: config where
  "app_defaults = axios_defaults\<lparr>config_baseURL := Some ''/api/v1/''\<rparr>"

definition app_axios :: "'w page axios_instance" where
  "app_axios =
     \<lparr>ax_defaults = app_defaults,
      ax_request = fst (use_interceptor [] (Some request_fulfilled) (Some request_rejected)),
      ax_response = fst (use_interceptor [] (Some response_fulfilled) (Some response_rejected))\<rparr>"

section \<open>router/index.js and main.js\<close>

definition app_routes :: "route_config list" where
  "app_routes =
     [\<lparr>rc_path = ''/'', rc_name = Some ''Home'', rc_component = ''Home'', rc_meta = []\<rparr>,
      \<lparr>rc_path = ''/post/:id'', rc_name = Some ''Content'', rc_component = ''Content'', rc_meta = []\<rparr>,
      \<lparr>rc_path = ''/publish'', rc_name = Some ''Publish'', rc_component = ''Publish'',
       rc_meta = [(''requireAuth'', JBool True)]\<rparr>,
      \<lparr>rc_path = ''/login'', rc_name = Some ''Login'', rc_component = ''Login'', rc_meta = []\<rparr>,
      \<lparr>rc_path = ''/signup'', rc_name = Some ''SignUp'', rc_component = ''SignUp'', rc_meta = []\<rparr>]"

definition has_item :: "local_storage \<Rightarrow> string \<Rightarrow> bool" where
  "has_item ls k \<longleftrightarrow> (case ls k of None \<Rightarrow> False | Some t \<Rightarrow> t \<noteq> [])"

definition app_guard :: "local_storage guard" where
  "app_guard to from ls =
     (if truthy (prop_get (r_meta to) ''requireAuth'') then
        (if has_item ls ''loginResult'' then [NextOk]
         else if r_path to = ''/login'' then [NextOk]
         else [NextTo (LocPath ''/login'' [] []) False])
      else [NextOk])
     @ (if r_fullPath to = ''/login'' then
          (if has_item ls ''loginResult'' then [NextTo (LocPath (r_fullPath from) [] []) False]
           else [NextOk])
        else [])"

definition app_router :: "local_storage router" where
  "app_router =
     \<lparr>ro_matcher = createMatcher app_routes, ro_base = [], ro_before = [app_guard], ro_resolve = []\<rparr>"

definition nav_fuel :: nat where
  "nav_fuel = 8"

text \<open>The patched \<open>push\<close>: it turns a rejection into a value, so callers never see one.\<close>

definition router_push :: "raw_location \<Rightarrow> 'w page \<Rightarrow> 'w page" where
  "router_push loc pg =
     pg\<lparr>pg_history := snd (navigate app_router nav_fuel NavPush loc (pg_local pg) (pg_history pg))\<rparr>"

definition initial_history :: "string \<Rightarrow> history" where
  "initial_history url =
     \<lparr>h_current = START, h_pending = None, h_next = 1, h_urls = [url], h_overflow = False\<rparr>"

text \<open>Loading the page at an address: the router's first navigation (which adds no history entry
  beyond the one there), and \<open>HeadBar\<close>'s \<open>created\<close> hook.\<close>

definition first_navigation :: "string \<Rightarrow> local_storage \<Rightarrow> history" where
  "first_navigation url ls =
     (case getLocation [] url of
        None \<Rightarrow> initial_history url
      | Some loc \<Rightarrow> snd (navigate app_router nav_fuel NavStart (LocString loc) ls (initial_history url)))"

definition fresh_page :: "local_storage \<Rightarrow> history \<Rightarrow> 'w \<Rightarrow> 'w page" where
  "fresh_page ls h w =
     \<lparr>pg_local = ls, pg_store = app_store, pg_history = h,
      pg_home = \<lparr>home_order = ''time'', home_page = 1, home_postList = JArr []\<rparr>,
      pg_post = JObj [],
      pg_publish = \<lparr>pub_title = [], pub_content = [], pub_showCommunityList = False,
        pub_selectCommunity = JObj [], pub_communityList = JArr []\<rparr>,
      pg_world = w\<rparr>"

definition load_page :: "string \<Rightarrow> local_storage \<Rightarrow> 'w \<Rightarrow> 'w page" where
  "load_page url ls w = fst (page_commit ''init'' JUndef (fresh_page ls (first_navigation url ls) w))"

section \<open>Components\<close>

text \<open>\<open>v == 1000\<close>; a string or an array is converted to a number first.\<close>

definition eq_1000 :: "jsval \<Rightarrow> bool" where
  "eq_1000 v =
     (case v of
        JNum n \<Rightarrow> n = 1000
      | JStr s \<Rightarrow> parse_json s = Inr (JNum 1000)
      | JArr vs \<Rightarrow> parse_json (js_string v) = Inr (JNum 1000)
      | _ \<Rightarrow> False)"

text \<open>\<open>$axios(config).then(onAnswer).catch(log)\<close>, where \<open>onAnswer\<close> looks at \<open>response.code\<close> and acts on
  \<open>response.data\<close> when it is 1000. Reading a property of \<open>undefined\<close> throws, and the \<open>catch\<close> logs.\<close>

definition on_answer :: "(jsval \<Rightarrow> 'w page \<Rightarrow> 'w page) \<Rightarrow> (axios_val, 'w page) handler" where
  "on_answer act v pg =
     (case v of
        AValue res \<Rightarrow>
          (case (member res ''code'', member res ''data'') of
             (Some code, Some data) \<Rightarrow>
               (Fulfilled (AValue JUndef), if eq_1000 code then act data pg else pg)
           | _ \<Rightarrow> (Rejected (AThrown ''TypeError''), pg))
      | _ \<Rightarrow> (Fulfilled (AValue JUndef), pg))"

definition log_error :: "(axios_val, 'w page) handler" where
  "log_error e pg = (Fulfilled (AValue JUndef), pg)"

definition api_call ::
  "'w page browser \<Rightarrow> config \<Rightarrow> (jsval \<Rightarrow> 'w page \<Rightarrow> 'w page) \<Rightarrow> 'w page \<Rightarrow> 'w page" where
  "api_call br cfg act pg =
     snd (promise_then None (Some log_error)
       (promise_then (Some (on_answer act)) None (axios_request br app_axios cfg pg)))"

definition post_config :: "string \<Rightarrow> jsprops \<Rightarrow> config" where
  "post_config url body = config_empty
     \<lparr>config_method := Some ''post'', config_url := Some url,
      config_data := JStr (text_of (JObj body))\<rparr>"

definition get_config :: "string \<Rightarrow> jsprops option \<Rightarrow> config" where
  "get_config url params = config_empty
     \<lparr>config_method := Some ''get'', config_url := Some url, config_params := params\<rparr>"

definition item_text :: "jsval \<Rightarrow> string" where
  "item_text v = (case stringify v of None \<Rightarrow> ''undefined'' | Some t \<Rightarrow> t)"

definition login_submit :: "'w page browser \<Rightarrow> string \<Rightarrow> string \<Rightarrow> 'w page \<Rightarrow> 'w page" where
  "login_submit br username password =
     api_call br (post_config ''/login'' [(''username'', JStr username), (''password'', JStr password)])
       (\<lambda>data pg.
          let pg1 = pg\<lparr>pg_local := (pg_local pg)(''loginResult'' \<mapsto> item_text data)\<rparr>
          in router_push (LocPath ''/'' [] []) (fst (page_commit ''login'' data pg1)))"

definition signup_submit :: "'w page browser \<Rightarrow> string \<Rightarrow> string \<Rightarrow> string \<Rightarrow> 'w page \<Rightarrow> 'w page" where
  "signup_submit br username password re_password =
     api_call br (post_config ''/signup''
         [(''username'', JStr username), (''password'', JStr password), (''re_password'', JStr re_password)])
       (\<lambda>_. router_push (LocName ''Login'' []))"

definition home_getPostList :: "'w page browser \<Rightarrow> 'w page \<Rightarrow> 'w page" where
  "home_getPostList br pg =
     api_call br (get_config ''/posts2''
         (Some [(''page'', JNum (home_page (pg_home pg))), (''order'', JStr (home_order (pg_home pg)))]))
       (\<lambda>data p. p\<lparr>pg_home := (pg_home p)\<lparr>home_postList := data\<rparr>\<rparr>) pg"

definition home_selectOrder :: "'w page browser \<Rightarrow> string \<Rightarrow> 'w page \<Rightarrow> 'w page" where
  "home_selectOrder br order pg =
     home_getPostList br (pg\<lparr>pg_home := (pg_home pg)\<lparr>home_order := order\<rparr>\<rparr>)"

definition home_vote :: "'w page browser \<Rightarrow> string \<Rightarrow> string \<Rightarrow> 'w page \<Rightarrow> 'w page" where
  "home_vote br post_id direction =
     api_call br (post_config ''/vote'' [(''post_id'', JStr post_id), (''direction'', JStr direction)])
       (\<lambda>_ pg. pg)"

definition home_goDetail :: "jsval \<Rightarrow> 'w page \<Rightarrow> 'w page" where
  "home_goDetail i = router_push (LocName ''Content'' [(''id'', i)])"

definition home_goPublish :: "'w page \<Rightarrow> 'w page" where
  "home_goPublish = router_push (LocName ''Publish'' [])"

definition content_getPostDetail :: "'w page browser \<Rightarrow> 'w page \<Rightarrow> 'w page" where
  "content_getPostDetail br pg =
     api_call br (get_config (''/post/'' @ js_string (prop_get (r_params (h_current (pg_history pg))) ''id'')) None)
       (\<lambda>data p. p\<lparr>pg_post := data\<rparr>) pg"

text \<open>\<open>selectCommunity.id\<close> of a community that was not chosen is \<open>undefined\<close>, and left out of the JSON.\<close>

definition publish_submit :: "'w page browser \<Rightarrow> 'w page \<Rightarrow> 'w page" where
  "publish_submit br pg =
     (let d = pg_publish pg
      in case member (pub_selectCommunity d) ''id'' of
           None \<Rightarrow> pg
         | Some cid \<Rightarrow>
             api_call br (post_config ''/post''
                 [(''title'', JStr (pub_title d)), (''content'', JStr (pub_content d)), (''community_id'', cid)])
               (\<lambda>_. router_push (LocPath ''/'' [] [])) pg)"

definition publish_getCommunityList :: "'w page browser \<Rightarrow> 'w page \<Rightarrow> 'w page" where
  "publish_getCommunityList br =
     api_call br (get_config ''/community'' None)
       (\<lambda>data p. p\<lparr>pg_publish := (pg_publish p)\<lparr>pub_communityList := data\<rparr>\<rparr>)"

definition publish_showCommunity :: "'w page \<Rightarrow> 'w page" where
  "publish_showCommunity pg =
     pg\<lparr>pg_publish := (pg_publish pg)\<lparr>pub_showCommunityList := \<not> pub_showCommunityList (pg_publish pg)\<rparr>\<rparr>"

definition publish_selected :: "nat \<Rightarrow> 'w page \<Rightarrow> 'w page" where
  "publish_selected index pg =
     (let vs = (case pub_communityList (pg_publish pg) of JArr vs \<Rightarrow> vs | _ \<Rightarrow> [])
      in pg\<lparr>pg_publish := (pg_publish pg)
           \<lparr>pub_selectCommunity := (if index < length vs then vs ! index else JUndef),
            pub_showCommunityList := False\<rparr>\<rparr>)"

definition headbar_isLogin :: "'w page \<Rightarrow> jsval option" where
  "headbar_isLogin pg = getter (pg_store pg) ''isLogin''"

definition headbar_currUsername :: "'w page \<Rightarrow> jsval option" where
  "headbar_currUsername pg = getter (pg_store pg) ''username''"

definition headbar_goLogout :: "'w page \<Rightarrow> 'w page" where
  "headbar_goLogout pg = fst (page_commit ''logout'' JUndef pg)"

definition headbar_goIndex :: "'w page \<Rightarrow> 'w page" where
  "headbar_goIndex = router_push (LocName ''Home'' [])"

definition headbar_goLogin :: "'w page \<Rightarrow> 'w page" where
  "headbar_goLogin = router_push (LocName ''Login'' [])"

definition headbar_goSignUp :: "'w page \<Rightarrow> 'w page" where
  "headbar_goSignUp = router_push (LocName ''SignUp'' [])"

section \<open>What a call to the server comes to\<close>

text \<open>The request that reaches the browser, and the data of a successful answer among its events.\<close>

definition wire_config :: "config \<Rightarrow> 'w page \<Rightarrow> config option" where
  "wire_config cfg pg =
     (case request_fulfilled (AConfig (request_config app_defaults cfg)) pg of
        (Fulfilled (AConfig c), _) \<Rightarrow> Some (prepare_request c)
      | _ \<Rightarrow> None)"

definition wire_request :: "'w page browser \<Rightarrow> config \<Rightarrow> 'w page \<Rightarrow> http_request option" where
  "wire_request br cfg pg =
     map_option (\<lambda>c. xhr_request br c (case config_method c of None \<Rightarrow> [] | Some m \<Rightarrow> m) pg) (wire_config cfg pg)"

definition answered :: "xhr_event list \<Rightarrow> jsval option" where
  "answered events =
     (case List.find decisive events of
        Some (ReadyState ready status rurl stext raw body) \<Rightarrow>
          if status = 200 then
            (case parse_json body of
               Inl _ \<Rightarrow> None
             | Inr res \<Rightarrow>
                 (case (member res ''code'', member res ''data'') of
                    (Some code, Some data) \<Rightarrow> if eq_1000 code then Some data else None
                  | _ \<Rightarrow> None))
          else None
      | _ \<Rightarrow> None)"

definition plain_config :: "config \<Rightarrow> bool" where
  "plain_config cfg \<longleftrightarrow> config_validateStatus cfg = None \<and> config_transformResponse cfg = None
     \<and> config_cancelToken cfg = None"

lemma plain_configs [simp]: "plain_config (post_config url body)" "plain_config (get_config url params)"
  by (simp_all add: plain_config_def post_config_def get_config_def config_empty_def)

lemma app_interceptors [simp]:
  "ax_defaults app_axios = app_defaults"
  "active_interceptors (ax_request app_axios) =
     [\<lparr>int_fulfilled = Some request_fulfilled, int_rejected = Some request_rejected\<rparr>]"
  "active_interceptors (ax_response app_axios) =
     [\<lparr>int_fulfilled = Some response_fulfilled, int_rejected = Some response_rejected\<rparr>]"
  by (simp_all add: app_axios_def use_interceptor_def active_interceptors_def List.map_filter_def)

lemma app_request_config:
  assumes "plain_config cfg"
  shows "config_validateStatus (request_config app_defaults cfg) = Some (Some (\<lambda>status. 200 \<le> status \<and> status < 300))"
    "config_transformResponse (request_config app_defaults cfg) = Some [default_transformResponse]"
    "config_cancelToken (request_config app_defaults cfg) = None"
    "config_method (request_config app_defaults cfg) \<noteq> None"
  using assms
  by (simp_all add: request_config_def mergeConfig_def pick_def plain_config_def app_defaults_def axios_defaults_def
      config_empty_def Let_def)

lemma prepare_request_fields [simp]:
  "config_validateStatus (prepare_request c) = config_validateStatus c"
  "config_transformResponse (prepare_request c) = config_transformResponse c"
  "config_cancelToken (prepare_request c) = config_cancelToken c"
  "config_method (prepare_request c) = config_method c"
  by (simp_all add: prepare_request_def Let_def)

lemma request_fulfilled_result:
  "(\<exists>c. request_fulfilled (AConfig cfg) pg = (Fulfilled (AConfig c), pg) \<and>
      config_validateStatus c = config_validateStatus cfg \<and> config_cancelToken c = config_cancelToken cfg \<and>
      config_transformResponse c = config_transformResponse cfg \<and> config_method c = config_method cfg) \<or>
   (\<exists>e. request_fulfilled (AConfig cfg) pg = (Rejected (AThrown e), pg))"
  by (auto simp: request_fulfilled_def split: sum.split option.split jsval.split)

lemma no_cancel [simp]: "config_cancelToken c = None \<Longrightarrow> throwIfCancellationRequested br c s = None"
  by (simp add: throwIfCancellationRequested_def)

text \<open>The answer as the component's handler gets it.\<close>

definition final_promise :: "axios_val promise \<Rightarrow> axios_val promise" where
  "final_promise p =
     (case p of
        Pending \<Rightarrow> Pending
      | Rejected _ \<Rightarrow> Fulfilled (AValue JUndef)
      | Fulfilled (AResponse r) \<Rightarrow>
          (if resp_status r = 200 then Fulfilled (AValue (resp_data r)) else Rejected (AValue (resp_data r)))
      | Fulfilled _ \<Rightarrow> Rejected (AThrown ''TypeError''))"

lemma response_link:
  "promise_then (Some response_fulfilled) (Some response_rejected) (p, pg) = (final_promise p, pg)"
  by (cases p) (auto simp: final_promise_def response_fulfilled_def response_rejected_def split: axios_val.split)

definition handled :: "axios_val promise \<Rightarrow> jsval option" where
  "handled p =
     (case p of
        Fulfilled (AValue res) \<Rightarrow>
          (case (member res ''code'', member res ''data'') of
             (Some code, Some data) \<Rightarrow> if eq_1000 code then Some data else None
           | _ \<Rightarrow> None)
      | _ \<Rightarrow> None)"

lemma handler_links:
  "snd (promise_then None (Some log_error) (promise_then (Some (on_answer act)) None (p, pg))) =
     (case handled p of None \<Rightarrow> pg | Some data \<Rightarrow> act data pg)"
  by (cases p) (auto simp: handled_def on_answer_def log_error_def split: axios_val.split option.split)

lemma handled_final:
  assumes "config_validateStatus c = Some (Some (\<lambda>status. 200 \<le> status \<and> status < 300))"
    "config_transformResponse c = Some [default_transformResponse]" "config_cancelToken c = None"
  shows "handled (final_promise (fst (promise_then (Some (onAdapterResolution br c)) (Some (onAdapterRejection br c))
      (case List.find decisive events of None \<Rightarrow> Pending | Some e \<Rightarrow> event_outcome c e, pg)))) = answered events"
proof (cases "List.find decisive events")
  case None
  then show ?thesis by (simp add: final_promise_def handled_def answered_def)
next
  case (Some e)
  have rejected: ?thesis if "event_outcome c e = Rejected v" "answered events = None" for v
  proof -
    have "\<exists>v'. fst (onAdapterRejection br c v pg) = Rejected v'"
      using assms(3) by (auto simp: onAdapterRejection_def split: axios_val.split option.split)
    then show ?thesis using Some that by (auto simp: final_promise_def handled_def)
  qed
  show ?thesis
  proof (cases e)
    case (ReadyState ready status rurl stext raw body)
    show ?thesis
    proof (cases "200 \<le> status \<and> status < 300")
      case True
      then have "event_outcome c e = Fulfilled (AResponse \<lparr>resp_data = JStr body, resp_status = status,
          resp_statusText = stext, resp_headers = parseHeaders raw, resp_config = c\<rparr>)"
        using ReadyState assms(1) by (simp add: settle_def)
      then show ?thesis using Some ReadyState assms(2,3)
        by (auto simp: onAdapterResolution_def transform_response_def transformData_def default_transformResponse_def
            final_promise_def handled_def answered_def Let_def eq_1000_def split: sum.split option.split)
    next
      case False
      then obtain v where "event_outcome c e = Rejected v" using ReadyState assms(1) by (auto simp: settle_def)
      moreover have "status \<noteq> 200" using False by auto
      then have "answered events = None" using Some ReadyState by (simp add: answered_def)
      ultimately show ?thesis by (rule rejected)
    qed
  qed (use Some in \<open>intro rejected, simp, simp add: answered_def\<close>)+
qed

lemma api_call_cases:
  assumes "plain_config cfg"
  shows "api_call br cfg act pg =
    (case wire_request br cfg pg of
       None \<Rightarrow> pg
     | Some r \<Rightarrow>
         (case xhr_send br r pg of
            (events, pg') \<Rightarrow> (case answered events of None \<Rightarrow> pg' | Some data \<Rightarrow> act data pg')))"
proof -
  let ?c0 = "request_config app_defaults cfg"
  note c0 = app_request_config [OF assms]
  have fin: "api_call br cfg act pg =
      (case (case request_fulfilled (AConfig ?c0) pg of
               (Fulfilled v, s') \<Rightarrow> dispatchRequest br v s' | (p, s') \<Rightarrow> (p, s')) of
         (p, pg') \<Rightarrow> (case handled (final_promise p) of None \<Rightarrow> pg' | Some data \<Rightarrow> act data pg'))"
  proof -
    obtain p pg' where "(case request_fulfilled (AConfig ?c0) pg of
        (Fulfilled v, s') \<Rightarrow> dispatchRequest br v s' | (p, s') \<Rightarrow> (p, s')) = (p, pg')" by fastforce
    moreover have "promise_then (Some (dispatchRequest br)) None ps =
        (case ps of (Fulfilled v, s') \<Rightarrow> dispatchRequest br v s' | (p, s') \<Rightarrow> (p, s'))" for ps
      by (cases ps; cases "fst ps") auto
    ultimately show ?thesis
      by (simp add: api_call_def axios_request_def request_chain_links run_chain_append interceptor_link_def
          response_link handler_links)
  qed
  show ?thesis
  proof (cases "\<exists>e. request_fulfilled (AConfig ?c0) pg = (Rejected (AThrown e), pg)")
    case True
    then show ?thesis
      by (auto simp: fin wire_request_def wire_config_def final_promise_def handled_def)
  next
    case False
    then obtain c where sent: "request_fulfilled (AConfig ?c0) pg = (Fulfilled (AConfig c), pg)"
        "config_validateStatus c = config_validateStatus ?c0" "config_cancelToken c = config_cancelToken ?c0"
        "config_transformResponse c = config_transformResponse ?c0" "config_method c = config_method ?c0"
      using request_fulfilled_result [of ?c0 pg] by blast
    let ?c = "prepare_request c"
    obtain m where m: "config_method ?c = Some m" using c0(4) sent(5) by auto
    obtain events pg' where x: "xhr_send br (xhr_request br ?c m pg) pg = (events, pg')" by fastforce
    let ?p = "case List.find decisive events of None \<Rightarrow> Pending | Some e \<Rightarrow> event_outcome ?c e"
    have d: "dispatchRequest br (AConfig c) pg =
        promise_then (Some (onAdapterResolution br ?c)) (Some (onAdapterRejection br ?c)) (?p, pg')"
      using c0(3) sent(3) m x by (simp add: dispatchRequest_def Let_def xhrAdapter_def xhr_events_first)
    have s: "snd (promise_then (Some (onAdapterResolution br ?c)) (Some (onAdapterRejection br ?c)) (?p, pg')) = pg'"
      by (auto simp: promise_then_def onAdapterResolution_def onAdapterRejection_def
          split: promise.split option.split axios_val.split)
    have h: "handled (final_promise (fst (promise_then (Some (onAdapterResolution br ?c))
        (Some (onAdapterRejection br ?c)) (?p, pg')))) = answered events"
      by (rule handled_final) (use c0 sent in simp_all)
    have w: "wire_request br cfg pg = Some (xhr_request br ?c m pg)"
      using sent(1) m by (simp add: wire_request_def wire_config_def)
    obtain q where q: "promise_then (Some (onAdapterResolution br ?c)) (Some (onAdapterRejection br ?c)) (?p, pg') = (q, pg')"
      using s by (metis prod.collapse)
    then have "handled (final_promise q) = answered events" using h by simp
    then show ?thesis by (simp add: fin sent(1) d q w x)
  qed
qed

text \<open>A browser whose network answers every request with the same events.\<close>

definition fixed_browser :: "xhr_event list \<Rightarrow> 's browser" where
  "fixed_browser events =
     \<lparr>xhr_send = \<lambda>r s. (events, s), read_cookie = \<lambda>name s. None, same_origin = \<lambda>url. True,
      cancel_reason = \<lambda>t s. None\<rparr>"

section \<open>Requests on the wire\<close>

definition bearer :: "jsval \<Rightarrow> string" where
  "bearer token = ''Bearer '' @ js_string token"

definition sent_accept :: "string \<times> string" where
  "sent_accept = (''Accept'', ''application/json, text/plain, */*'')"

definition sent_form :: "string \<times> string" where
  "sent_form = (''Content-Type'', ''application/x-www-form-urlencoded'')"

definition default_headers :: jsprops where
  "default_headers =
     [(''common'', JObj [(''Accept'', JStr ''application/json, text/plain, */*'')]),
      (''delete'', JObj []), (''get'', JObj []), (''head'', JObj []),
      (''post'', form_content_type), (''put'', form_content_type), (''patch'', form_content_type)]"

lemma request_config_headers:
  "config_headers (request_config app_defaults (post_config url body)) = JObj default_headers"
  "config_headers (request_config app_defaults (get_config url ps)) = JObj default_headers"
  by (simp_all add: request_config_def mergeConfig_def app_defaults_def axios_defaults_def post_config_def
      get_config_def config_empty_def isObject_def deepMerge_def default_headers_def form_content_type_def Let_def)

definition auth_headers :: "string \<Rightarrow> jsprops" where
  "auth_headers t = default_headers @ [(''Authorization'', JStr t)]"

lemma normalize_none:
  assumes "list_all (\<lambda>k. k = n \<or> toUpperCase k \<noteq> toUpperCase n) (map fst hs)"
  shows "normalizeHeaderName hs n = hs"
proof -
  have "foldl (normalize_one n) acc es = acc"
    if "list_all (\<lambda>k. k = n \<or> toUpperCase k \<noteq> toUpperCase n) (map fst es)" for acc es
    using that by (induction es) (auto simp: normalize_one_def)
  then show ?thesis using assms by (simp add: normalizeHeaderName_def)
qed

lemma header_names:
  "map fst (auth_headers t) = [''common'', ''delete'', ''get'', ''head'', ''post'', ''put'', ''patch'', ''Authorization'']"
  "map fst default_headers = [''common'', ''delete'', ''get'', ''head'', ''post'', ''put'', ''patch'']"
  by (simp_all add: auth_headers_def default_headers_def)

lemma normalize_auth:
  "normalizeHeaderName (normalizeHeaderName (auth_headers t) ''Accept'') ''Content-Type'' = auth_headers t"
  "normalizeHeaderName (normalizeHeaderName default_headers ''Accept'') ''Content-Type'' = default_headers"
proof -
  have "normalizeHeaderName (auth_headers t) n = auth_headers t \<and> normalizeHeaderName default_headers n = default_headers"
    if "n \<in> {''Accept'', ''Content-Type''}" for n
  proof -
    have "list_all (\<lambda>k. \<forall>n\<in>set [''Accept'', ''Content-Type'']. k = n \<or> toUpperCase k \<noteq> toUpperCase n)
      [''common'', ''delete'', ''get'', ''head'', ''post'', ''put'', ''patch'', ''Authorization'']"
      by code_simp
    then show ?thesis using that by (auto simp: header_names intro!: normalize_none)
  qed
  then show "normalizeHeaderName (normalizeHeaderName (auth_headers t) ''Accept'') ''Content-Type'' = auth_headers t"
    "normalizeHeaderName (normalizeHeaderName default_headers ''Accept'') ''Content-Type'' = default_headers"
    by simp_all
qed

lemma flatten_auth:
  "flatten_headers (Some ''post'') (auth_headers t) =
     [(''Accept'', JStr ''application/json, text/plain, */*''),
      (''Content-Type'', JStr ''application/x-www-form-urlencoded''), (''Authorization'', JStr t)]"
  "flatten_headers (Some ''get'') (auth_headers t) =
     [(''Accept'', JStr ''application/json, text/plain, */*''), (''Authorization'', JStr t)]"
  "flatten_headers (Some ''post'') default_headers =
     [(''Accept'', JStr ''application/json, text/plain, */*''),
      (''Content-Type'', JStr ''application/x-www-form-urlencoded'')]"
  "flatten_headers (Some ''get'') default_headers = [(''Accept'', JStr ''application/json, text/plain, */*'')]"
  by code_simp+

text \<open>The headers a request of the page goes out with.\<close>

definition login_headers :: "local_storage \<Rightarrow> (string \<times> string) list option" where
  "login_headers ls =
     (case parse_item ls ''loginResult'' of
        Inl _ \<Rightarrow> None
      | Inr lr \<Rightarrow>
          if \<not> truthy lr then Some []
          else map_option (\<lambda>token. [(''Authorization'', bearer token)]) (member lr ''token''))"

text \<open>The cookie against request forgery goes out with a request to the page's own origin.\<close>

definition xsrf_sent :: "'w page browser \<Rightarrow> string \<Rightarrow> 'w page \<Rightarrow> (string \<times> string) list" where
  "xsrf_sent br url pg =
     (case (if same_origin br url then read_cookie br ''XSRF-TOKEN'' pg else None) of
        Some v \<Rightarrow> if v = [] then [] else [(''X-XSRF-TOKEN'', v)]
      | None \<Rightarrow> [])"

definition api_url :: "string \<Rightarrow> string" where
  "api_url url = buildFullPath (Some ''/api/v1/'') url"

lemma xsrf_headers_app:
  assumes "config_xsrfCookieName c = Some ''XSRF-TOKEN''" "config_xsrfHeaderName c = Some ''X-XSRF-TOKEN''"
    "config_withCredentials c = None" "prop_set hs ''X-XSRF-TOKEN'' = (\<lambda>v. hs @ [(''X-XSRF-TOKEN'', v)])"
  shows "xsrf_headers br c url hs pg = hs @ map (\<lambda>(k, v). (k, JStr v)) (xsrf_sent br url pg)"
  using assms by (simp add: xsrf_headers_def xsrf_sent_def fun_eq_iff split: option.split)

lemma js_strings: "map (\<lambda>(k, v). (k, js_string v)) (map (\<lambda>(k, v). (k, JStr v)) hs) = hs"
  by (induction hs) auto

lemma no_content_type: "filter (\<lambda>(k, _). toLowerCase k \<noteq> ''content-type'') (map (\<lambda>(k, v). (k, JStr v)) (xsrf_sent br url pg)) =
    map (\<lambda>(k, v). (k, JStr v)) (xsrf_sent br url pg)"
proof -
  have "toLowerCase ''X-XSRF-TOKEN'' \<noteq> ''content-type''" by code_simp
  then show ?thesis by (simp add: xsrf_sent_def split: option.split)
qed

lemma wire_request_post:
  "wire_request br (post_config url body) pg =
    map_option (\<lambda>auth.
      \<lparr>http_method = ''POST'', http_url = api_url url, http_timeout = 0,
       http_headers = sent_accept # sent_form # auth @ xsrf_sent br (api_url url) pg,
       http_credentials = None, http_body = JStr (text_of (JObj body))\<rparr>) (login_headers (pg_local pg))"
proof -
  have up: "toUpperCase ''post'' = ''POST''" by code_simp
  let ?c0 = "request_config app_defaults (post_config url body)"
  have c0: "config_method ?c0 = Some ''post''" "config_url ?c0 = Some url" "config_params ?c0 = None"
    "config_data ?c0 = JStr (text_of (JObj body))" "config_baseURL ?c0 = Some ''/api/v1/''"
    "config_transformRequest ?c0 = Some [default_transformRequest]" "config_timeout ?c0 = Some 0"
    "config_withCredentials ?c0 = None" "config_xsrfCookieName ?c0 = Some ''XSRF-TOKEN''" "config_xsrfHeaderName ?c0 = Some ''X-XSRF-TOKEN''"
    "config_headers ?c0 = JObj default_headers"
    using request_config_headers(1)
    by (simp_all add: request_config_def mergeConfig_def app_defaults_def axios_defaults_def post_config_def
      config_empty_def pick_def Let_def toLowerCase_def lower_char_def)
  have send: "xhr_request br (prepare_request (?c0\<lparr>config_headers := JObj hs\<rparr>)) ''post'' pg =
      \<lparr>http_method = ''POST'', http_url = api_url url, http_timeout = 0,
       http_headers = map (\<lambda>(k, v). (k, js_string v)) (flatten_headers (Some ''post'') hs) @ xsrf_sent br (api_url url) pg,
       http_credentials = None, http_body = JStr (text_of (JObj body))\<rparr>"
    if "normalizeHeaderName (normalizeHeaderName hs ''Accept'') ''Content-Type'' = hs"
      "prop_set (flatten_headers (Some ''post'') hs) ''X-XSRF-TOKEN'' = (\<lambda>v. flatten_headers (Some ''post'') hs @ [(''X-XSRF-TOKEN'', v)])" for hs
    using that
    by (simp add: xhr_request_def prepare_request_def c0 transformData_def default_transformRequest_def isObject_def
        Let_def buildURL_def up xsrf_headers_app sent_headers_def api_url_def js_strings del: map_map)
  have none: "?c0\<lparr>config_headers := JObj default_headers\<rparr> = ?c0" using c0 by simp
  have set: "set_field (JObj default_headers) ''Authorization'' (JStr t) = JObj (auth_headers t)" for t
    by (simp add: set_field_def default_headers_def auth_headers_def)
  have last: "prop_set (flatten_headers (Some ''post'') (auth_headers t)) ''X-XSRF-TOKEN'' =
        (\<lambda>v. flatten_headers (Some ''post'') (auth_headers t) @ [(''X-XSRF-TOKEN'', v)])"
      "prop_set (flatten_headers (Some ''post'') default_headers) ''X-XSRF-TOKEN'' =
        (\<lambda>v. flatten_headers (Some ''post'') default_headers @ [(''X-XSRF-TOKEN'', v)])" for t
    by (simp_all add: flatten_auth fun_eq_iff)
  show ?thesis
    using send [OF normalize_auth(1) last(1)] send [OF normalize_auth(2) last(2)]
    by (simp add: none flatten_auth wire_request_def wire_config_def request_fulfilled_def login_headers_def c0 set
        bearer_def sent_accept_def sent_form_def split: sum.split option.split)
qed

lemma wire_request_get:
  "wire_request br (get_config url params) pg =
    map_option (\<lambda>auth.
      \<lparr>http_method = ''GET'', http_url = buildURL (api_url url) params None, http_timeout = 0,
       http_headers = sent_accept # auth @ xsrf_sent br (api_url url) pg,
       http_credentials = None, http_body = JNull\<rparr>) (login_headers (pg_local pg))"
proof -
  have up: "toUpperCase ''get'' = ''GET''" by code_simp
  let ?c0 = "request_config app_defaults (get_config url params)"
  have c0: "config_method ?c0 = Some ''get''" "config_url ?c0 = Some url" "config_params ?c0 = params"
    "config_data ?c0 = JUndef" "config_baseURL ?c0 = Some ''/api/v1/''" "config_paramsSerializer ?c0 = None"
    "config_transformRequest ?c0 = Some [default_transformRequest]" "config_timeout ?c0 = Some 0"
    "config_withCredentials ?c0 = None" "config_xsrfCookieName ?c0 = Some ''XSRF-TOKEN''" "config_xsrfHeaderName ?c0 = Some ''X-XSRF-TOKEN''"
    "config_headers ?c0 = JObj default_headers"
    using request_config_headers(2)
    by (simp_all add: request_config_def mergeConfig_def app_defaults_def axios_defaults_def get_config_def
      config_empty_def pick_def Let_def toLowerCase_def lower_char_def)
  have send: "xhr_request br (prepare_request (?c0\<lparr>config_headers := JObj hs\<rparr>)) ''get'' pg =
      \<lparr>http_method = ''GET'', http_url = buildURL (api_url url) params None, http_timeout = 0,
       http_headers = map (\<lambda>(k, v). (k, js_string v)) (filter (\<lambda>(k, _). toLowerCase k \<noteq> ''content-type'') (flatten_headers (Some ''get'') hs))
         @ xsrf_sent br (api_url url) pg,
       http_credentials = None, http_body = JNull\<rparr>"
    if "normalizeHeaderName (normalizeHeaderName hs ''Accept'') ''Content-Type'' = hs"
      "prop_set (flatten_headers (Some ''get'') hs) ''X-XSRF-TOKEN'' = (\<lambda>v. flatten_headers (Some ''get'') hs @ [(''X-XSRF-TOKEN'', v)])" for hs
    using that
    by (simp add: xhr_request_def prepare_request_def c0 transformData_def default_transformRequest_def isObject_def
        Let_def up xsrf_headers_app sent_headers_def api_url_def js_strings no_content_type del: map_map)
  have none: "?c0\<lparr>config_headers := JObj default_headers\<rparr> = ?c0" using c0 by simp
  have set: "set_field (JObj default_headers) ''Authorization'' (JStr t) = JObj (auth_headers t)" for t
    by (simp add: set_field_def default_headers_def auth_headers_def)
  have last: "prop_set (flatten_headers (Some ''get'') (auth_headers t)) ''X-XSRF-TOKEN'' =
        (\<lambda>v. flatten_headers (Some ''get'') (auth_headers t) @ [(''X-XSRF-TOKEN'', v)])"
      "prop_set (flatten_headers (Some ''get'') default_headers) ''X-XSRF-TOKEN'' =
        (\<lambda>v. flatten_headers (Some ''get'') default_headers @ [(''X-XSRF-TOKEN'', v)])" for t
    by (simp_all add: flatten_auth fun_eq_iff)
  have names: "toLowerCase ''Accept'' \<noteq> ''content-type''" "toLowerCase ''Authorization'' \<noteq> ''content-type''" by code_simp+
  show ?thesis
    using send [OF normalize_auth(1) last(1)] send [OF normalize_auth(2) last(2)]
    by (simp add: none flatten_auth names wire_request_def wire_config_def request_fulfilled_def login_headers_def c0 set
        bearer_def sent_accept_def split: sum.split option.split)
qed

text \<open>
  C33: every call of a component to the server is one of these two, and this is what it comes to. When the stored
  login cannot be read nothing is sent and the page stays as it is; otherwise one request is sent, with the
  URL, body and headers written out here (the token of the stored login among them), and the component acts on
  the answer exactly when the request's first decisive event is a complete answer with HTTP status 200 whose body is
  JSON with \<open>code\<close> 1000. Network errors, timeouts, other statuses, other codes and unreadable bodies all leave
  the page as the sending left it.
\<close>

theorem api_call_exact:
  "api_call br (post_config url body) act pg =
    (case login_headers (pg_local pg) of
       None \<Rightarrow> pg
     | Some auth \<Rightarrow>
         (case xhr_send br \<lparr>http_method = ''POST'', http_url = api_url url, http_timeout = 0,
              http_headers = sent_accept # sent_form # auth @ xsrf_sent br (api_url url) pg,
              http_credentials = None, http_body = JStr (text_of (JObj body))\<rparr> pg of
            (events, pg') \<Rightarrow> (case answered events of None \<Rightarrow> pg' | Some data \<Rightarrow> act data pg'))) \<and>
   api_call br (get_config url params) act pg =
    (case login_headers (pg_local pg) of
       None \<Rightarrow> pg
     | Some auth \<Rightarrow>
         (case xhr_send br \<lparr>http_method = ''GET'', http_url = buildURL (api_url url) params None, http_timeout = 0,
              http_headers = sent_accept # auth @ xsrf_sent br (api_url url) pg,
              http_credentials = None, http_body = JNull\<rparr> pg of
            (events, pg') \<Rightarrow> (case answered events of None \<Rightarrow> pg' | Some data \<Rightarrow> act data pg')))"
  by (simp add: api_call_cases wire_request_post wire_request_get split: option.split)

text \<open>
  C36: a vote, on the wire: with a login in \<open>localStorage\<close> the button sends one
  \<open>POST /api/v1/vote\<close> with the token in the \<open>Authorization\<close> header and the two strings as JSON
  (under the content type of a form, as the body is text already), and nothing else of the page
  changes, whatever the answer.
\<close>

theorem home_vote_request:
  assumes "parse_item (pg_local pg) ''loginResult'' = Inr lr" "truthy lr" "member lr ''token'' = Some token"
    "read_cookie br ''XSRF-TOKEN'' pg = None"
  shows "\<exists>body. parse_json body = Inr (JObj [(''post_id'', JStr post_id), (''direction'', JStr direction)]) \<and>
    home_vote br post_id direction pg = snd (xhr_send br
      \<lparr>http_method = ''POST'', http_url = ''/api/v1/vote'', http_timeout = 0,
       http_headers = [sent_accept, sent_form, (''Authorization'', bearer token)],
       http_credentials = None, http_body = JStr body\<rparr> pg)"
proof -
  let ?b = "[(''post_id'', JStr post_id), (''direction'', JStr direction)]"
  have url: "api_url ''/vote'' = ''/api/v1/vote''" by code_simp
  have cookie: "xsrf_sent br ''/api/v1/vote'' pg = []" using assms(4) by (simp add: xsrf_sent_def)
  have "login_headers (pg_local pg) = Some [(''Authorization'', bearer token)]"
    using assms by (simp add: login_headers_def)
  then have "home_vote br post_id direction pg = snd (xhr_send br
      \<lparr>http_method = ''POST'', http_url = ''/api/v1/vote'', http_timeout = 0,
       http_headers = [sent_accept, sent_form, (''Authorization'', bearer token)],
       http_credentials = None, http_body = JStr (text_of (JObj ?b))\<rparr> pg)"
    by (simp add: home_vote_def api_call_cases wire_request_post url cookie split: prod.split option.split)
  moreover have "parse_json (text_of (JObj ?b)) = Inr (JObj ?b)"
    by (rule parse_stringify(2)) simp
  ultimately show ?thesis by blast
qed

theorem home_vote_request_witness:
  "\<exists>body. parse_json body = Inr (JObj [(''post_id'', JStr ''7''), (''direction'', JStr ''1'')]) \<and>
    home_vote (fixed_browser [XError] :: unit page browser) ''7'' ''1''
      (fresh_page [''loginResult'' \<mapsto> text_of (JObj [(''token'', JStr ''t'')])] (initial_history ''/'') ())
    = snd (xhr_send (fixed_browser [XError])
      \<lparr>http_method = ''POST'', http_url = ''/api/v1/vote'', http_timeout = 0,
       http_headers = [sent_accept, sent_form, (''Authorization'', bearer (JStr ''t''))],
       http_credentials = None, http_body = JStr body\<rparr>
      (fresh_page [''loginResult'' \<mapsto> text_of (JObj [(''token'', JStr ''t'')])] (initial_history ''/'') ()))"
  using parse_stringify(2) [of "JObj [(''token'', JStr ''t'')]"]
  by (intro home_vote_request [where lr = "JObj [(''token'', JStr ''t'')]"])
    (simp_all add: parse_item_def fresh_page_def fixed_browser_def)

section \<open>The login\<close>

definition app_getters :: "string list" where
  "app_getters = [''isLogin'', ''userID'', ''username'', ''accessToken'']"

text \<open>A store that is the application's up to its state.\<close>

definition store_ok :: "local_storage store \<Rightarrow> bool" where
  "store_ok st \<longleftrightarrow> (\<exists>v. st = app_store\<lparr>st_state := JObj [(''isLogin'', JBool False), (''loginResult'', v)]\<rparr>)"

lemma app_store_eq:
  "app_store =
     \<lparr>st_state = JObj [(''isLogin'', JBool False), (''loginResult'', defaultLoginResult)],
      st_mutations = [(''init'', [([], mutation_init)]), (''login'', [([], mutation_login)]),
                      (''logout'', [([], mutation_logout)])],
      st_getters = [(''isLogin'', [], getter_isLogin), (''userID'', [], login_field ''user_id''),
                    (''username'', [], login_field ''user_name''), (''accessToken'', [], login_field ''token'')],
      st_subscribers = [], st_committing = False\<rparr>"
  by (simp add: app_store_def new_Store_def store_options_def registerMutation_def registerGetter_def Let_def)

lemma commit_login:
  assumes "store_ok st"
  shows "commit st ''login'' d ls =
    ((app_store\<lparr>st_state := JObj [(''isLogin'', JBool False), (''loginResult'', d)]\<rparr>, ls), None)"
  using assms by (auto simp: store_ok_def commit_def app_store_eq mutation_login_def set_field_def)

lemma commit_init:
  assumes "store_ok st" "parse_item ls ''loginResult'' = Inr d" "d \<noteq> JNull" "d \<noteq> JUndef"
  shows "commit st ''init'' p ls =
    ((app_store\<lparr>st_state := JObj [(''isLogin'', JBool False), (''loginResult'', d)]\<rparr>, ls), None)"
  using assms by (auto simp: store_ok_def commit_def app_store_eq mutation_init_def set_field_def)

lemma store_ok_app: "store_ok app_store"
  unfolding store_ok_def by (rule exI [of _ defaultLoginResult]) (simp add: app_store_eq)

lemma getter_after_login:
  "getter (app_store\<lparr>st_state := JObj [(''isLogin'', JBool False), (''loginResult'', JObj es)]\<rparr>) k =
     (if k = ''isLogin'' then Some (JBool (prop_get es ''user_id'' \<noteq> JNull))
      else if k = ''userID'' then Some (prop_get es ''user_id'')
      else if k = ''username'' then Some (prop_get es ''user_name'')
      else if k = ''accessToken'' then Some (prop_get es ''token'')
      else Some JUndef)"
  by (simp add: getter_def app_store_eq getter_isLogin_def login_field_def)

lemma router_push_fields [simp]:
  "pg_local (router_push loc pg) = pg_local pg" "pg_store (router_push loc pg) = pg_store pg"
  by (simp_all add: router_push_def)

text \<open>
  C35: logging in survives a reload. When the login's request is answered with an object, the store's
  getters read that object; the page that is loaded later from the same \<open>localStorage\<close> (at any address) has
  the same values in all of them; and every call it makes to the server sends one request that carries the token,
  whatever the browser.
\<close>

theorem login_survives_reload:
  assumes "login_headers (pg_local pg) = Some auth"
    and "xhr_send br \<lparr>http_method = ''POST'', http_url = ''/api/v1/login'', http_timeout = 0,
        http_headers = sent_accept # sent_form # auth @ xsrf_sent br ''/api/v1/login'' pg, http_credentials = None,
        http_body = JStr (text_of (JObj [(''username'', JStr u), (''password'', JStr p)]))\<rparr> pg = (events, pg1)"
    and "answered events = Some (JObj es)" "plain_json (JObj es)" "store_ok (pg_store pg1)"
  shows "let reloaded = load_page url (pg_local (login_submit br u p pg)) w in
    getter (pg_store (login_submit br u p pg)) ''accessToken'' = Some (prop_get es ''token'') \<and>
    getter (pg_store (login_submit br u p pg)) ''userID'' = Some (prop_get es ''user_id'') \<and>
    (\<forall>k. getter (pg_store reloaded) k = getter (pg_store (login_submit br u p pg)) k) \<and>
    (\<forall>br' cfg act. cfg \<in> range (\<lambda>(path, body). post_config path body) \<union> range (\<lambda>(path, params). get_config path params) \<longrightarrow>
       (\<exists>r. (''Authorization'', ''Bearer '' @ js_string (prop_get es ''token'')) \<in> set (http_headers r) \<and>
          api_call br' cfg act reloaded =
            (case xhr_send br' r reloaded of (events, pg') \<Rightarrow> (case answered events of None \<Rightarrow> pg' | Some data \<Rightarrow> act data pg'))))"
proof -
  let ?pg = "login_submit br u p pg"
  define reloaded where "reloaded = load_page url (pg_local ?pg) w"
  let ?st = "app_store\<lparr>st_state := JObj [(''isLogin'', JBool False), (''loginResult'', JObj es)]\<rparr>"
  note t = parse_stringify [OF assms(4)]
  have path: "api_url ''/login'' = ''/api/v1/login''" by code_simp
  have pg: "pg_store ?pg = ?st" "pg_local ?pg = (pg_local pg1)(''loginResult'' \<mapsto> text_of (JObj es))"
    using assms(1-3) t(1) commit_login [OF assms(5)]
    by (simp_all add: login_submit_def api_call_cases wire_request_post path page_commit_def item_text_def Let_def del: stringify.simps)
  have item: "parse_item (pg_local ?pg) ''loginResult'' = Inr (JObj es)"
    using t(2) by (simp add: pg(2) parse_item_def)
  have store: "pg_store reloaded = ?st" "pg_local reloaded = pg_local ?pg"
    using commit_init [OF store_ok_app item] by (simp_all add: reloaded_def load_page_def page_commit_def fresh_page_def)
  then have headers: "login_headers (pg_local reloaded) = Some [(''Authorization'', ''Bearer '' @ js_string (prop_get es ''token''))]"
    using item by (simp add: login_headers_def bearer_def)
  have "\<exists>r. (''Authorization'', ''Bearer '' @ js_string (prop_get es ''token'')) \<in> set (http_headers r) \<and>
      api_call br' cfg act reloaded =
        (case xhr_send br' r reloaded of (events, pg') \<Rightarrow> (case answered events of None \<Rightarrow> pg' | Some data \<Rightarrow> act data pg'))"
    if "cfg \<in> range (\<lambda>(path, body). post_config path body) \<union> range (\<lambda>(path, params). get_config path params)" for br' cfg act
  proof -
    let ?auth = "(''Authorization'', ''Bearer '' @ js_string (prop_get es ''token''))"
    from that consider (post) path body where "cfg = post_config path body" | (get) path params where "cfg = get_config path params"
      by auto
    then show ?thesis
    proof cases
      case post
      show ?thesis unfolding post
        by (rule exI [of _ "\<lparr>http_method = ''POST'', http_url = api_url path, http_timeout = 0,
              http_headers = sent_accept # sent_form # [?auth] @ xsrf_sent br' (api_url path) reloaded,
              http_credentials = None, http_body = JStr (text_of (JObj body))\<rparr>"])
           (simp add: api_call_cases wire_request_post headers)
    next
      case get
      show ?thesis unfolding get
        by (rule exI [of _ "\<lparr>http_method = ''GET'', http_url = buildURL (api_url path) params None, http_timeout = 0,
              http_headers = sent_accept # [?auth] @ xsrf_sent br' (api_url path) reloaded,
              http_credentials = None, http_body = JNull\<rparr>"])
           (simp add: api_call_cases wire_request_get headers)
    qed
  qed
  then show ?thesis using store unfolding reloaded_def by (simp add: Let_def pg(1) getter_after_login)
qed

definition login_answer :: jsprops where
  "login_answer = [(''user_id'', JStr ''7''), (''username'', JStr ''ann''), (''token'', JStr ''t'')]"

definition answer_text :: string where
  "answer_text = text_of (JObj [(''code'', JNum 1000), (''data'', JObj login_answer)])"

lemma answered_answer: "answered [ReadyState 4 200 [] [] [] answer_text] = Some (JObj login_answer)"
  using parse_stringify(2) [of "JObj [(''code'', JNum 1000), (''data'', JObj login_answer)]"]
  by (simp add: answered_def answer_text_def eq_1000_def login_answer_def)

theorem login_survives_reload_witness:
  "\<exists>pg. pg = login_submit (fixed_browser [ReadyState 4 200 [] [] [] answer_text] :: unit page browser) ''ann'' ''pw''
        (fresh_page Map.empty (initial_history ''/login'') ()) \<and>
    getter (pg_store pg) ''accessToken'' = Some (JStr ''t'') \<and>
    getter (pg_store (load_page ''/publish'' (pg_local pg) ())) ''userID'' = Some (JStr ''7'') \<and>
    (\<exists>r. (''Authorization'', ''Bearer t'') \<in> set (http_headers r) \<and>
      home_vote (fixed_browser [XError]) ''7'' ''1'' (load_page ''/publish'' (pg_local pg) ()) =
        snd (xhr_send (fixed_browser [XError]) r (load_page ''/publish'' (pg_local pg) ())))"
proof -
  let ?br = "fixed_browser [ReadyState 4 200 [] [] [] answer_text] :: unit page browser"
  let ?pg0 = "fresh_page Map.empty (initial_history ''/login'') ()"
  let ?vote = "post_config ''/vote'' [(''post_id'', JStr ''7''), (''direction'', JStr ''1'')]"
  have start: "login_headers (pg_local ?pg0) = Some []" "store_ok (pg_store ?pg0)"
    by (simp_all add: login_headers_def parse_item_def fresh_page_def store_ok_app)
  have sent: "xhr_send ?br r ?pg0 = ([ReadyState 4 200 [] [] [] answer_text], ?pg0)" for r by (simp add: fixed_browser_def)
  have plain: "plain_json (JObj login_answer)" by (simp add: login_answer_def)
  note t = login_survives_reload [OF start(1) sent answered_answer plain start(2), where url = "''/publish''" and w = "()", unfolded Let_def]
  have "?vote \<in> range (\<lambda>(path, body). post_config path body) \<union> range (\<lambda>(path, params). get_config path params)" by force
  with t [where u = "''ann''" and p = "''pw''"] obtain r
    where "(''Authorization'', ''Bearer '' @ js_string (prop_get login_answer ''token'')) \<in> set (http_headers r)"
      "home_vote (fixed_browser [XError]) ''7'' ''1'' (load_page ''/publish'' (pg_local (login_submit ?br ''ann'' ''pw'' ?pg0)) ()) =
        (case xhr_send (fixed_browser [XError]) r (load_page ''/publish'' (pg_local (login_submit ?br ''ann'' ''pw'' ?pg0)) ()) of
           (events, pg') \<Rightarrow> (case answered events of None \<Rightarrow> pg' | Some data \<Rightarrow> pg'))"
    unfolding home_vote_def by blast
  moreover have "snd (xhr_send (fixed_browser [XError]) r q) = (case xhr_send (fixed_browser [XError]) r q of
      (events, pg') \<Rightarrow> (case answered events of None \<Rightarrow> pg' | Some data \<Rightarrow> pg'))" for r and q :: "unit page"
    by (simp split: prod.split option.split)
  ultimately have vote: "\<exists>r. (''Authorization'', ''Bearer t'') \<in> set (http_headers r) \<and>
      home_vote (fixed_browser [XError]) ''7'' ''1'' (load_page ''/publish'' (pg_local (login_submit ?br ''ann'' ''pw'' ?pg0)) ()) =
        snd (xhr_send (fixed_browser [XError]) r (load_page ''/publish'' (pg_local (login_submit ?br ''ann'' ''pw'' ?pg0)) ()))"
    by (intro exI [of _ r] conjI) (simp_all add: login_answer_def)
  have "getter (pg_store (login_submit ?br ''ann'' ''pw'' ?pg0)) ''accessToken'' = Some (JStr ''t'')"
    "getter (pg_store (load_page ''/publish'' (pg_local (login_submit ?br ''ann'' ''pw'' ?pg0)) ())) ''userID'' = Some (JStr ''7'')"
    using t [where u = "''ann''" and p = "''pw''"] unfolding login_answer_def by (simp_all only:) simp_all
  with vote show ?thesis by blast
qed

text \<open>
  The header never shows the name of the user who logged in. The server answers a login with
  \<open>user_id\<close>, \<open>username\<close> and \<open>token\<close>, but the getter reads \<open>user_name\<close>: it is \<open>undefined\<close> for every
  user while the header shows its logged-in face.
\<close>

theorem login_username_undefined:
  assumes "store_ok st"
    "commit st ''login'' (JObj [(''user_id'', JStr i), (''username'', JStr n), (''token'', JStr t)]) ls = ((st', ls'), r)"
  shows "getter st' ''isLogin'' = Some (JBool True) \<and> getter st' ''username'' = Some JUndef"
  using assms(2) commit_login [OF assms(1)] by (auto simp: getter_after_login)

theorem login_username_undefined_witness:
  "getter (fst (fst (commit app_store ''login'' (JObj login_answer) Map.empty))) ''username'' = Some JUndef"
proof -
  obtain st' ls' r where "commit app_store ''login'' (JObj login_answer) Map.empty = ((st', ls'), r)"
    by (metis surj_pair)
  with login_username_undefined [OF store_ok_app, of "''7''" "''ann''" "''t''"] show ?thesis
    by (simp add: login_answer_def)
qed

section \<open>Protected pages\<close>

definition home_record :: route_record where
  "home_record = \<lparr>rr_path = [], rr_tokens = [], rr_name = Some ''Home'', rr_component = ''Home'', rr_meta = []\<rparr>"

definition content_record :: route_record where
  "content_record = \<lparr>rr_path = ''/post/:id'', rr_tokens = [PLit ''/post'', PParam ''id'' ''/'' (CHR ''/'')],
     rr_name = Some ''Content'', rr_component = ''Content'', rr_meta = []\<rparr>"

definition publish_record :: route_record where
  "publish_record = \<lparr>rr_path = ''/publish'', rr_tokens = [PLit ''/publish''], rr_name = Some ''Publish'',
     rr_component = ''Publish'', rr_meta = [(''requireAuth'', JBool True)]\<rparr>"

definition login_record :: route_record where
  "login_record = \<lparr>rr_path = ''/login'', rr_tokens = [PLit ''/login''], rr_name = Some ''Login'',
     rr_component = ''Login'', rr_meta = []\<rparr>"

definition signup_record :: route_record where
  "signup_record = \<lparr>rr_path = ''/signup'', rr_tokens = [PLit ''/signup''], rr_name = Some ''SignUp'',
     rr_component = ''SignUp'', rr_meta = []\<rparr>"

lemma app_matcher:
  "ro_matcher app_router =
     \<lparr>m_paths = [home_record, content_record, publish_record, login_record, signup_record],
      m_names = [(''Home'', home_record), (''Content'', content_record), (''Publish'', publish_record),
                 (''Login'', login_record), (''SignUp'', signup_record)]\<rparr>"
  by (simp add: app_router_def createMatcher_def app_routes_def addRouteRecord_def make_record_def
      normalizePath_def strip_slash_def flush_def word_char_def alnum_def home_record_def content_record_def
      publish_record_def login_record_def signup_record_def Let_def)

definition on_page :: "string \<Rightarrow> route \<Rightarrow> bool" where
  "on_page component r \<longleftrightarrow> (\<exists>rec\<in>set (r_matched r). rr_component rec = component)"

definition publish_address :: "route \<Rightarrow> bool" where
  "publish_address r \<longleftrightarrow> truthy (prop_get (r_meta r) ''requireAuth'') \<and> r_path r \<noteq> ''/login'' \<and> r_fullPath r \<noteq> ''/login''"

lemma publish_paths:
  assumes "starts_with ''/publish'' (toLowerCase path)"
  shows "path \<noteq> ''/login''" "path @ x \<noteq> ''/login''" "path \<noteq> []"
proof -
  obtain a b cs where p: "path = a # b # cs"
    using assms by (cases path; cases "tl path") (auto simp: toLowerCase_def)
  have "lower_char b = CHR ''p''" using assms p by (simp add: toLowerCase_def)
  moreover have "lower_char (CHR ''l'') = CHR ''l''" by code_simp
  ultimately have "b \<noteq> CHR ''l''" by auto
  then show "path \<noteq> ''/login''" "path @ x \<noteq> ''/login''" "path \<noteq> []" using p by auto
qed

lemma publish_matched:
  assumes "match_location (ro_matcher app_router) i raw cur = Some r" "on_page ''Publish'' r"
  shows "publish_address r"
proof -
  from match_location_record [OF assms(1)] assms(2)
  obtain rec loc where r: "r = createRoute i (Some rec) loc" and
    c: "(rec \<in> set (m_paths (ro_matcher app_router)) \<and> matchRoute rec (loc_path loc) \<noteq> NoMatch) \<or>
        (rec \<in> snd ` set (m_names (ro_matcher app_router)) \<and> (\<exists>ps. loc_path loc = fillParams (rr_tokens rec) ps))"
    by (auto simp: on_page_def)
  have "rr_component rec = ''Publish''" using assms(2) r by (simp add: on_page_def createRoute_def)
  moreover have "rec \<in> {home_record, content_record, publish_record, login_record, signup_record}"
    using c by (auto simp: app_matcher)
  ultimately have rec: "rec = publish_record"
    by (auto simp: home_record_def content_record_def login_record_def signup_record_def)
  have "starts_with ''/publish'' (toLowerCase (loc_path loc))"
  proof (rule disjE [OF c])
    assume "rec \<in> set (m_paths (ro_matcher app_router)) \<and> matchRoute rec (loc_path loc) \<noteq> NoMatch"
    then have "match_tokens (strip_last (rr_tokens rec)) (loc_path loc) \<noteq> None"
      by (auto simp: matchRoute_def split: option.splits)
    moreover have "strip_last (rr_tokens rec) = [PLit ''/publish'']"
      by (simp add: rec publish_record_def strip_last_def strip_slash_def)
    moreover have "toLowerCase ''/publish'' = ''/publish''" by code_simp
    ultimately show ?thesis by (cases "starts_with ''/publish'' (toLowerCase (loc_path loc))") simp_all
  next
    assume "rec \<in> snd ` set (m_names (ro_matcher app_router)) \<and> (\<exists>ps. loc_path loc = fillParams (rr_tokens rec) ps)"
    then have "loc_path loc = ''/publish''" by (auto simp: rec publish_record_def fillParams_def)
    moreover have "starts_with ''/publish'' (toLowerCase ''/publish'')" by code_simp
    ultimately show ?thesis by simp
  qed
  from publish_paths [OF this] show ?thesis
    by (simp add: publish_address_def r createRoute_def rec publish_record_def getFullPath_def)
qed

lemma app_guard_refuses: "\<not> has_item ls ''loginResult'' \<Longrightarrow> refuses app_guard publish_address ls"
  by (simp add: refuses_def publish_address_def app_guard_def)

lemma publish_not_entered:
  assumes "\<not> has_item ls ''loginResult''" "\<not> on_page ''Publish'' (h_current h)"
  shows "\<not> on_page ''Publish'' (h_current (snd (navigate app_router n kind raw ls h)))"
proof
  let ?P = "\<lambda>r. on_page ''Publish'' r \<and> publish_address r"
  let ?r = "h_current (snd (navigate app_router n kind raw ls h))"
  assume on: "on_page ''Publish'' ?r"
  have "\<exists>g\<in>set (ro_before app_router @ ro_resolve app_router). refuses g ?P ls"
    using app_guard_refuses [OF assms(1)] by (simp add: app_router_def refuses_def)
  then have "\<not> ?P ?r" by (rule guarded_route_not_entered(1)) (use assms(2) in simp)
  then have "\<not> publish_address ?r" using on by simp
  moreover have "?r = h_current h \<or> (\<exists>i raw' cur. match_location (ro_matcher app_router) i raw' cur = Some ?r)"
    by (rule current_from_matcher(1))
  ultimately show False using publish_matched on assms(2) by auto
qed

text \<open>
  C34: without a login in \<open>localStorage\<close> no navigation of the page, to any location and however it
  is written (another case, a trailing slash, a query, a name), and no loading of the page at any
  address ends on the publishing page.
\<close>

theorem publish_needs_login:
  assumes "\<not> has_item ls ''loginResult''"
  shows "(\<not> on_page ''Publish'' (h_current h) \<longrightarrow>
      \<not> on_page ''Publish'' (h_current (snd (navigate app_router n kind raw ls h)))) \<and>
    \<not> on_page ''Publish'' (h_current (first_navigation url ls))"
proof -
  have "\<not> on_page ''Publish'' (h_current (initial_history url))"
    by (simp add: initial_history_def START_def createRoute_def on_page_def)
  then show ?thesis
    using publish_not_entered [OF assms] by (auto simp: first_navigation_def split: option.split)
qed

theorem publish_needs_login_witness:
  "\<not> on_page ''Publish'' (h_current (first_navigation ''/PUBLISH/'' Map.empty))"
  using publish_needs_login [of Map.empty "initial_history ''/''" 8 NavPush "LocName ''Publish'' []" "''/PUBLISH/''"]
  by (simp add: has_item_def)

lemma content_location:
  assumes "seg \<noteq> []" "\<And>c. c \<in> set seg \<Longrightarrow> c \<notin> set ''/?#''" "decodeURIComponent seg = Some v"
  shows "match_location (ro_matcher app_router) i (LocString (''/post/'' @ seg)) cur =
    Some (createRoute i (Some content_record) \<lparr>loc_name = None, loc_path = ''/post/'' @ seg, loc_query = [],
      loc_hash = [], loc_params = [(''id'', JStr v)]\<rparr>)"
proof -
  let ?path = "''/post/'' @ seg"
  have slash: "CHR ''/'' \<notin> set seg" and no: "CHR ''?'' \<notin> set ?path" "CHR ''#'' \<notin> set ?path"
    using assms(2) by auto
  have matched: "matchRoute content_record ?path = Matched [(''id'', JStr v)]"
    using matchRoute_segment [of content_record "''/post''" "''id''" seg v] slash assms(1,3) by (simp add: content_record_def)
  have tw: "takeWhile (\<lambda>c. c \<noteq> CHR ''#'') ?path = ?path" "dropWhile (\<lambda>c. c \<noteq> CHR ''#'') ?path = []"
    "takeWhile (\<lambda>c. c \<noteq> CHR ''?'') ?path = ?path"
    using no by (auto simp: takeWhile_eq_all_conv dropWhile_eq_Nil_conv)
  have "parsePath ?path = (?path, [], [])"
    using no(1) unfolding parsePath_def Let_def tw by simp
  then have norm: "normalizeLocation (LocString ?path) cur =
      \<lparr>loc_name = None, loc_path = ?path, loc_query = [], loc_hash = [], loc_params = []\<rparr>"
    by (simp add: normalizeLocation_def resolvePath_def resolveQuery_def parseQuery_def trim_spaces_def Let_def)
  have "matchRoute home_record ?path = NoMatch"
    by (simp add: matchRoute_def home_record_def strip_last_def)
  then show ?thesis using matched [simplified] by (simp add: match_location_def norm [simplified] app_matcher Let_def)
qed

lemma content_by_name:
  assumes "v \<noteq> []" "valid_text v"
  shows "match_location (ro_matcher app_router) i (LocName ''Content'' [(''id'', JStr v)]) cur =
    Some (createRoute i (Some content_record) \<lparr>loc_name = Some ''Content'', loc_path = ''/post/'' @ encodeURIComponentPretty v,
      loc_query = [], loc_hash = [], loc_params = [(''id'', JStr v)]\<rparr>)"
proof -
  have inherit: "inherit_params [(''id'', JStr v)] ps [''id''] = [(''id'', JStr v)]" for ps
    unfolding inherit_params_def by (induction ps) auto
  have "fillParams (rr_tokens content_record) [(''id'', JStr v)] = ''/post/'' @ encodeURIComponentPretty v"
    using fillParams_segment [of content_record "''/post''" "''id''" v] assms by (simp add: content_record_def)
  moreover have "token_names (rr_tokens content_record) = [''id'']" by (simp add: content_record_def)
  ultimately show ?thesis by (simp add: match_location_def normalizeLocation_def app_matcher inherit Let_def)
qed

text \<open>A percent sign in an identifier is decoded twice when the page is loaded: the link to it does not open.\<close>

lemma percent_link_lost: "\<not> on_page ''Content'' (h_current (first_navigation ''/post/%25'' Map.empty))"
  by code_simp

text \<open>
  C37: the address of a post's page is a faithful link. From the home page the detail button goes, for any post
  identifier that is text without a percent sign (the server's are decimal numbers), to the page of that identifier;
  and loading the address that the browser then shows, later and with any \<open>localStorage\<close>, ends on the same
  page with the same identifier.
\<close>

theorem post_link_roundtrip:
  assumes "v \<noteq> []" "valid_text v" "CHR ''%'' \<notin> set v"
    and "r_path (h_current (pg_history pg)) = ''/''" "0 < h_next (pg_history pg)"
  shows "let h = pg_history (home_goDetail (JStr v) pg); h' = first_navigation (last (h_urls h)) ls in
    on_page ''Content'' (h_current h) \<and> r_params (h_current h) = [(''id'', JStr v)] \<and>
    on_page ''Content'' (h_current h') \<and> r_params (h_current h') = [(''id'', JStr v)]"
proof -
  let ?h = "pg_history pg" and ?s = "pg_local pg"
  let ?r = "createRoute (h_next ?h) (Some content_record) \<lparr>loc_name = Some ''Content'', loc_path = ''/post/'' @ encodeURIComponentPretty v,
      loc_query = [], loc_hash = [], loc_params = [(''id'', JStr v)]\<rparr>"
  let ?r' = "createRoute 1 (Some content_record) \<lparr>loc_name = None, loc_path = ''/post/'' @ address_text v,
      loc_query = [], loc_hash = [], loc_params = [(''id'', JStr v)]\<rparr>"
  have pass: "app_guard (createRoute i (Some content_record) loc) cur s = [NextOk]" if "loc_query loc = []" "loc_hash loc = []" "loc_path loc = ''/post/'' @ t" for i cur s loc t
    using that by (simp add: app_guard_def createRoute_def content_record_def getFullPath_def stringifyQuery_def)
  have other: "\<not> isSameRoute ?r (h_current ?h)"
  proof -
    have "last (''/post/'' @ encodeURIComponentPretty v) \<noteq> CHR ''/''"
      using pretty_ne [OF assms(1)] pretty_chars [OF last_in_set [OF pretty_ne [OF assms(1)]]] by simp
    then have "strip_slash (r_path ?r) \<noteq> strip_slash (r_path (h_current ?h))"
      using assms(4) by (simp add: strip_slash_def createRoute_def)
    moreover have "r_id ?r \<noteq> 0" using assms(5) by (simp add: createRoute_def)
    ultimately show ?thesis unfolding isSameRoute_def by simp
  qed
  have nav: "navigate app_router nav_fuel NavPush (LocName ''Content'' [(''id'', JStr v)]) ?s ?h =
      (Some (Navigated ?r), complete_nav app_router NavPush ?r (?h\<lparr>h_next := Suc (h_next ?h), h_pending := Some (r_id ?r)\<rparr>))"
    unfolding nav_fuel_def eval_nat_numeral
    by (rule navigate_next [OF content_by_name [OF assms(1,2)] other, where g = app_guard]) (simp_all add: app_router_def pass)
  have full: "r_fullPath ?r = ''/post/'' @ encodeURIComponentPretty v"
    by (simp add: createRoute_def getFullPath_def stringifyQuery_def)
  have goes: "pg_history (home_goDetail (JStr v) pg) =
      complete_nav app_router NavPush ?r (?h\<lparr>h_next := Suc (h_next ?h), h_pending := Some (r_id ?r)\<rparr>)"
    unfolding home_goDetail_def router_push_def nav by simp
  have base: "ro_base app_router = []" by (simp add: app_router_def)
  have url: "last (h_urls (pg_history (home_goDetail (JStr v) pg))) = ''/post/'' @ encodeURIComponentPretty v"
    unfolding goes last_url(2) base full append_Nil
    by (rule clean_segment) (use pretty_ne [OF assms(1)] pretty_chars [of "CHR ''/''" v] in auto)
  have loc: "getLocation [] (''/post/'' @ encodeURIComponentPretty v) = Some (''/post/'' @ address_text v)"
    by (rule getLocation_pretty [OF assms(3,2)]) simp_all
  have seg: "decodeURIComponent (address_text v) = Some v"
    by (simp add: decodeURIComponent_def decode_address_text [OF assms(3)] assms(2))
  let ?h0 = "initial_history (''/post/'' @ encodeURIComponentPretty v)"
  have m': "match_location (ro_matcher app_router) (h_next ?h0) (LocString (''/post/'' @ address_text v)) (h_current ?h0) = Some ?r'"
    using content_location [OF address_text_ne [OF assms(1)] address_text_chars seg, where i = 1 and cur = START]
    by (simp add: initial_history_def)
  have other': "\<not> isSameRoute ?r' (h_current ?h0)"
    by (simp add: isSameRoute_def initial_history_def START_def createRoute_def)
  have "navigate app_router nav_fuel NavStart (LocString (''/post/'' @ address_text v)) ls ?h0 =
      (Some (Navigated ?r'), complete_nav app_router NavStart ?r' (?h0\<lparr>h_next := Suc (h_next ?h0), h_pending := Some (r_id ?r')\<rparr>))"
    unfolding nav_fuel_def eval_nat_numeral
    by (rule navigate_next [OF m' other', where g = app_guard]) (simp_all add: app_router_def pass)
  then have opens: "h_current (first_navigation (''/post/'' @ encodeURIComponentPretty v) ls) = ?r'"
    unfolding first_navigation_def loc by simp
  have here: "h_current (pg_history (home_goDetail (JStr v) pg)) = ?r" unfolding goes by simp
  show ?thesis unfolding Let_def url here opens by (simp add: on_page_def createRoute_def content_record_def)
qed

theorem post_link_roundtrip_witness:
  "on_page ''Content'' (h_current (first_navigation (last (h_urls (pg_history
     (home_goDetail (JStr ''a/b'') (fresh_page Map.empty (initial_history ''/'') ()))))) Map.empty))"
proof -
  have "valid_text ''a/b''" by (simp add: valid_text_def)
  moreover have "r_path (h_current (pg_history (fresh_page Map.empty (initial_history ''/'') ()))) = ''/''"
    "0 < h_next (pg_history (fresh_page Map.empty (initial_history ''/'') ()))"
    by (simp_all add: fresh_page_def initial_history_def START_def createRoute_def)
  ultimately show ?thesis using post_link_roundtrip [of "''a/b''" "fresh_page Map.empty (initial_history ''/'') ()" Map.empty]
    by (simp add: Let_def)
qed

end
