(* ===== verification/Spec2Isabelle.thy ===== *)
theory Spec2Isabelle
  imports Consumer VoteRoute PostCreate FrontEnd
begin

text \<open>
  A verification library of the forum convo: a Go server (gin, MySQL, Redis, RabbitMQ) and the
  single-page application it serves.

  \<^bold>\<open>The program.\<close> Users sign up, log in, write posts in communities and vote on them. MySQL keeps
  users, posts, communities and the final votes. Redis keeps the sessions, the live votes, the two
  indexes of posts (by time, by score), a cache of posts and the log of the rate limiter. A vote is
  one Lua script in Redis, which also appends an event to a stream, the outbox. Relays move events
  from the outbox to RabbitMQ, consumers store them in MySQL. A maintenance command rebuilds Redis
  from MySQL. The front end calls the server over HTTP.

  \<^bold>\<open>Theories, and the code they model\<close> (paths under src/).
  \<^item> Prelude: programs that thread a state and may fail (\<open>thenM\<close>, \<open>ret\<close>, \<open>raise\<close>), integers of fixed
    width, the errors of the repository. GoStd: \<open>strconv\<close> and what the program uses of Go's library.
    Models: models/vote.go, models/recovery.go. Settings: settings/settings.go (\<open>Validate\<close>).
    Http: controller/code.go, response.go, request.go.
  \<^item> RedisServer: the commands the program sends, the locale \<open>redis_server\<close> with Redis's documented
    behaviour as its laws, the faults of a connection (request lost, reply lost), dao/redis/keys.go.
    VoteScript, VoteCorrect: dao/redis/vote.lua, vote.go. RateLimit: dao/redis/ratelimit.lua,
    ratelimit.go, middlewares/ratelimit.go. Outbox: dao/redis/outbox.go.
  \<^item> VoteTables, VotePersist: dao/mysql/vote.go (its transaction with the deferred rollback) and the tables of
    init.sql.
    Mq: mq/rabbitmq.go with the broker as the locale \<open>amqp_broker\<close>. Worker: worker/vote_relay.go,
    worker/vote_consumer.go and \<open>ConsumeVote\<close> of mq/rabbitmq.go, as runs among other instances.
  \<^item> Pipeline, PipelineRelay, PipelineInv, PipelineSafe, PipelineSim, VotePath: web instances, relays,
    broker, consumers and both stores together, as a step relation with faults and crashes. PipelineSim (relay) and
    Consumer: the code of Worker takes only these steps.
  \<^item> App, Recovery, RecoveryCorrect, Rebuild, Maintenance: logic/recovery.go, dao/redis/recovery.go,
    dao/mysql/recovery.go.
  \<^item> Auth, AuthCorrect: pkg/jwt, pkg/encrypt, dao/redis/session.go, dao/mysql/user.go, logic/user.go,
    middlewares/auth.go, controller/user.go.
  \<^item> Posts, PostsCorrect, PostCache, PostEdit, PostCreate: dao/redis/post.go, post_cache.go, dao/mysql/post.go, community.go,
    logic/post.go, vote.go, community.go, controller/post.go, vote.go, community.go. PostCache
    has readers, edits and deletions of the cache as a step relation. VoteRoute: the route of a vote in
    router/router.go.
  \<^item> Js, Json, Url, Axios, Vuex, VueRouter, FrontEnd: the front end in static/js/app and the parts of
    axios, vuex and vue-router in static/js/chunk-vendors that it runs on.

  \<^bold>\<open>How state and operations correspond.\<close> A value of type \<open>'r conn\<close> is a Redis client: the server's
  state \<open>'r\<close>, of which the laws show the keyspace (\<open>db\<close>), and the faults the network will inject,
  which nothing constrains. \<open>forum_tables\<close> are the MySQL tables, one list of rows each; a SQL
  statement is a function on them that may fail. \<open>'r app\<close> is both. A Go function becomes a definition
  of the same name (with \<open>Mysql\<close>, \<open>Logic\<close> or \<open>Redis\<close> in front where packages share a name) from
  its arguments and the state to \<open>err + result\<close> and the new state. Clocks, new identifiers and random bytes are arguments.
  Libraries (golang-jwt, bcrypt, encoding/json of the cached post, MySQL's collations, the broker)
  are parameters with the laws their documentation promises, each law shown to be satisfiable by an
  interpretation.

  \<^bold>\<open>What is shown.\<close>
  \<^item> Votes: the script refines an abstract vote machine under any connection faults, keeps every score
    equal to the creation time plus 432 for each net vote, is idempotent and touches nothing else.
  \<^item> The pipeline: no emitted event is ever lost, and a drained system has the same votes in Redis
    and MySQL; the code of relay and consumer takes only steps of the model, with all other instances acting
    between its calls, and wherever its run is cut off. \<open>PersistVoteEvent\<close> is a last-writer-wins register whatever
    the order and number of deliveries, and a transaction that fails leaves nothing.
  \<^item> Recovery: what a rebuild restores, what an interrupted one leaves, that it ends, and that after
    a drain it gives everybody their vote back.
  \<^item> Access: no request passes without a live session, a login's token works while its session is
    there. The limiter lets no more votes through than configured in any window that is shorter than the
    configured one by the longest time a clock reading takes to reach Redis; the readings may overtake one another,
    and then a window of the full length can hold more.
  \<^item> Posts: a page of the list is the right part of the index with the right data, an edit needs the
    author, and a post whose creation is confirmed is in MySQL and in every index. The cache is not strictly
    consistent: a page may show an old row, but only one that MySQL has held; and from any moment when there is no copy
    and no reader about to store an older row, it shows the row of now.
  \<^item> Front end: what every button sends, the login guard, that a login survives a reload, round
    trips of URLs and links, the order of axios's interceptors.

  \<^bold>\<open>Bounds and fuel.\<close> Go's int64 is an integer with \<open>wrap_int 64\<close> where an operation may overflow, and
  \<open>int_range\<close> in the hypotheses where a result must not. Scores are integers: times, multiples of 432 and
  directions, which Redis's doubles hold exactly. Versions from 10^14 on, which Lua prints in scientific
  notation, are outside the round trip of the outbox. Loops that may not end return \<open>None\<close> when their
  fuel is used up: the loops of the rebuild (\<open>rebuild_completes\<close> gives a number of turns from which on any
  fuel is enough). The relay and the consumer run until they are stopped; their runs are watched for a number of
  rounds and of calls, after which the value is \<open>Cut\<close>, and the theorems speak of both ends for every number. What
  the \<open>select\<close> of \<open>Publish\<close> meets is a list with the milliseconds that pass; the configured timeout is a timer
  beside it, and \<open>Publish_returns\<close> shows that it ends the wait. \<open>nav_fuel\<close> is 8: the application's guard redirects
  at most twice.

  \<^bold>\<open>Not modelled.\<close> The wiring in main.go, router/router.go, cmd/ and the logger, snowflake, the
  configuration files, viper's \<open>Init\<close>, Docker and nginx files, swagger documents and SQL migrations: they only call
  libraries. controller/vaildator.go translates messages. The first version of the
  list, \<open>GetPostList\<close>, whose order among equal times MySQL leaves open, and the sharing of results by
  \<open>singleflight\<close> between concurrent requests. Time does not pass for keys with an expiry: what a session
  theorem says of a later request, it says of any later keyspace, with the session there or gone; a cached page may go at
  any step. A statement that MySQL executes while its reply is lost is a step of PostCache; the handlers' own
  definitions know statements that take effect or fail, and commits whose outcome is unknown. The
  Vue runtime, rendering and core-js.
\<close>

end
